(* ===== verification/Rust_Int.thy ===== *)
theory Rust_Int
  imports Main "HOL-Library.Word" "HOL-Library.Signed_Division" "HOL-Library.Multiset"
    "HOL-Library.Product_Lexorder"
begin

text \<open>
  Prelude of the development: Rust's fixed-width integers over \<^typ>\<open>int\<close>, with every
  saturating, checked and wrapping operation written out, and the list lemmas that several
  components share.

  A Rust value of type \<open>u64\<close>, \<open>i64\<close>, \<open>u32\<close>, \<dots> is an \<^typ>\<open>int\<close>; that it lies in the range of
  its type is the predicate \<open>in_u64\<close>, \<open>in_i64\<close>, \<dots>, which the components state as part of
  their well-formedness predicates and show to be preserved. \<open>saturating_add\<close> and its
  kin are \<open>sat\<close> of the exact result. Plain \<open>+\<close>, \<open>-\<close>, unary \<open>-\<close> wrap in the release profile
  of the workspace (no overflow checks): where the source relies on a plain
  operation that could overflow, the model applies \<open>wrap\<close>, and a lemma shows when it is exact.
  Rust's \<open>/\<close> truncates towards zero and is \<open>sdiv\<close>.
\<close>

named_theorems rust_ranges \<open>unfolding of the range predicates\<close>
named_theorems sat_simps \<open>facts that remove a saturation\<close>

section \<open>Ranges\<close>

abbreviation (input) i64_min :: int where "i64_min \<equiv> - 9223372036854775808"
abbreviation (input) i64_max :: int where "i64_max \<equiv> 9223372036854775807"
abbreviation (input) u64_max :: int where "u64_max \<equiv> 18446744073709551615"
abbreviation (input) u32_max :: int where "u32_max \<equiv> 4294967295"
abbreviation (input) u8_max :: int where "u8_max \<equiv> 255"
abbreviation (input) i128_min :: int where "i128_min \<equiv> - 170141183460469231731687303715884105728"
abbreviation (input) i128_max :: int where "i128_max \<equiv> 170141183460469231731687303715884105727"
abbreviation (input) u128_max :: int where "u128_max \<equiv> 340282366920938463463374607431768211455"

definition in_i64 :: "int \<Rightarrow> bool" where
  [rust_ranges]: "in_i64 x \<longleftrightarrow> i64_min \<le> x \<and> x \<le> i64_max"

definition in_u64 :: "int \<Rightarrow> bool" where
  [rust_ranges]: "in_u64 x \<longleftrightarrow> 0 \<le> x \<and> x \<le> u64_max"

definition in_u32 :: "int \<Rightarrow> bool" where
  [rust_ranges]: "in_u32 x \<longleftrightarrow> 0 \<le> x \<and> x \<le> u32_max"

definition in_u8 :: "int \<Rightarrow> bool" where
  [rust_ranges]: "in_u8 x \<longleftrightarrow> 0 \<le> x \<and> x \<le> u8_max"

section \<open>Saturation\<close>

definition sat :: "int \<Rightarrow> int \<Rightarrow> int \<Rightarrow> int" where
  "sat lo hi x = (if x < lo then lo else if hi < x then hi else x)"

abbreviation sat_i64 :: "int \<Rightarrow> int" where "sat_i64 \<equiv> sat i64_min i64_max"
abbreviation sat_u64 :: "int \<Rightarrow> int" where "sat_u64 \<equiv> sat 0 u64_max"
abbreviation sat_u32 :: "int \<Rightarrow> int" where "sat_u32 \<equiv> sat 0 u32_max"
abbreviation sat_u8 :: "int \<Rightarrow> int" where "sat_u8 \<equiv> sat 0 u8_max"
abbreviation sat_i128 :: "int \<Rightarrow> int" where "sat_i128 \<equiv> sat i128_min i128_max"
abbreviation sat_u128 :: "int \<Rightarrow> int" where "sat_u128 \<equiv> sat 0 u128_max"

text \<open>The interface of a bounded integer type: an interval that holds \<open>0\<close>. Everything the
  components use of saturation follows from these two laws, once for every width.\<close>

locale bounded_int =
  fixes lo hi :: int
  assumes lo_le_0: "lo \<le> 0" and hi_ge_0: "0 \<le> hi"
begin

lemma sat_id: "lo \<le> x \<Longrightarrow> x \<le> hi \<Longrightarrow> sat lo hi x = x"
  by (simp add: sat_def)

lemma sat_ge: "lo \<le> sat lo hi x"
  using lo_le_0 hi_ge_0 by (simp add: sat_def)

lemma sat_le: "sat lo hi x \<le> hi"
  using lo_le_0 hi_ge_0 by (simp add: sat_def)

lemma sat_mono: "x \<le> y \<Longrightarrow> sat lo hi x \<le> sat lo hi y"
  using lo_le_0 hi_ge_0 by (auto simp: sat_def)

lemma sat_zero: "sat lo hi 0 = 0"
  using lo_le_0 hi_ge_0 by (simp add: sat_def)

lemma sat_nonneg: "0 \<le> x \<Longrightarrow> 0 \<le> sat lo hi x"
  using lo_le_0 hi_ge_0 by (simp add: sat_def)

lemma sat_nonpos: "x \<le> 0 \<Longrightarrow> sat lo hi x \<le> 0"
  using lo_le_0 hi_ge_0 by (simp add: sat_def)

lemma sat_le_self: "0 \<le> x \<Longrightarrow> sat lo hi x \<le> x"
  using lo_le_0 hi_ge_0 by (simp add: sat_def)

lemma sat_ge_self: "x \<le> 0 \<Longrightarrow> x \<le> sat lo hi x"
  using lo_le_0 hi_ge_0 by (simp add: sat_def)

lemma sat_pos_iff: "0 < hi \<Longrightarrow> 0 < sat lo hi x \<longleftrightarrow> 0 < x"
  using lo_le_0 by (simp add: sat_def)

lemma sat_neg_iff: "lo < 0 \<Longrightarrow> sat lo hi x < 0 \<longleftrightarrow> x < 0"
  using hi_ge_0 by (simp add: sat_def)

lemma sat_eq_self_iff: "sat lo hi x = x \<longleftrightarrow> lo \<le> x \<and> x \<le> hi"
  using lo_le_0 hi_ge_0 by (auto simp: sat_def)

end

interpretation i64: bounded_int i64_min i64_max by unfold_locales simp_all
interpretation u64: bounded_int 0 u64_max by unfold_locales simp_all
interpretation u32: bounded_int 0 u32_max by unfold_locales simp_all
interpretation u8: bounded_int 0 u8_max by unfold_locales simp_all
interpretation i128: bounded_int i128_min i128_max by unfold_locales simp_all
interpretation u128: bounded_int 0 u128_max by unfold_locales simp_all

lemmas [sat_simps] = i64.sat_id u64.sat_id u32.sat_id u8.sat_id i128.sat_id u128.sat_id

lemmas [simp] = i64.sat_zero u64.sat_zero u32.sat_zero u8.sat_zero i128.sat_zero u128.sat_zero

lemma in_i64_sat [simp, intro]: "in_i64 (sat_i64 x)"
  using i64.sat_ge i64.sat_le by (simp add: in_i64_def)

lemma in_u64_sat [simp, intro]: "in_u64 (sat_u64 x)"
  using u64.sat_ge u64.sat_le by (simp add: in_u64_def)

lemma in_u32_sat [simp, intro]: "in_u32 (sat_u32 x)"
  using u32.sat_ge u32.sat_le by (simp add: in_u32_def)

lemma in_u8_sat [simp, intro]: "in_u8 (sat_u8 x)"
  using u8.sat_ge u8.sat_le by (simp add: in_u8_def)

lemma sat_i64_eq [simp]: "in_i64 x \<Longrightarrow> sat_i64 x = x"
  by (simp add: in_i64_def i64.sat_id)

lemma sat_u64_eq [simp]: "in_u64 x \<Longrightarrow> sat_u64 x = x"
  by (simp add: in_u64_def u64.sat_id)

lemma in_i64_0 [simp]: "in_i64 0" by (simp add: in_i64_def)
lemma in_u64_0 [simp]: "in_u64 0" by (simp add: in_u64_def)

section \<open>Wrap-around\<close>

definition wrap_i64 :: "int \<Rightarrow> int" where
  "wrap_i64 x = (x + 9223372036854775808) mod 18446744073709551616 - 9223372036854775808"

definition wrap_u64 :: "int \<Rightarrow> int" where
  "wrap_u64 x = x mod 18446744073709551616"

definition wrap_i128 :: "int \<Rightarrow> int" where
  "wrap_i128 x = (x + 170141183460469231731687303715884105728)
     mod 340282366920938463463374607431768211456 - 170141183460469231731687303715884105728"

lemma wrap_i64_id [simp]: "in_i64 x \<Longrightarrow> wrap_i64 x = x"
  by (simp add: wrap_i64_def in_i64_def)

lemma in_i64_wrap [simp, intro]: "in_i64 (wrap_i64 x)"
proof -
  have "0 \<le> (x + 9223372036854775808) mod 18446744073709551616"
    "(x + 9223372036854775808) mod 18446744073709551616 < 18446744073709551616" by simp_all
  then show ?thesis unfolding wrap_i64_def in_i64_def by linarith
qed

lemma wrap_u64_id [simp]: "in_u64 x \<Longrightarrow> wrap_u64 x = x"
  by (simp add: wrap_u64_def in_u64_def)

lemma in_u64_wrap [simp, intro]: "in_u64 (wrap_u64 x)"
proof -
  have "0 \<le> x mod 18446744073709551616" "x mod 18446744073709551616 < 18446744073709551616" by simp_all
  then show ?thesis unfolding wrap_u64_def in_u64_def by linarith
qed

lemma wrap_i128_id: "i128_min \<le> x \<Longrightarrow> x \<le> i128_max \<Longrightarrow> wrap_i128 x = x"
  by (simp add: wrap_i128_def)

section \<open>Truncating division\<close>

lemma sdiv_nonneg: "0 \<le> a \<Longrightarrow> 0 \<le> b \<Longrightarrow> a sdiv b = a div (b::int)"
  by (cases "a = 0"; cases "b = 0") (auto simp: signed_divide_int_def)

lemma sdiv_neg: "a \<le> 0 \<Longrightarrow> 0 < b \<Longrightarrow> a sdiv b = - ((- a) div (b::int))"
  by (cases "a = 0") (auto simp: signed_divide_int_def)

lemma sdiv_minus: "0 < b \<Longrightarrow> (- a) sdiv b = - (a sdiv (b::int))"
  by (cases "0 \<le> a") (simp_all add: sdiv_nonneg sdiv_neg)

lemma sdiv_nonneg_nonneg: "0 \<le> a \<Longrightarrow> 0 < b \<Longrightarrow> 0 \<le> a sdiv (b::int)"
  by (simp add: sdiv_nonneg pos_imp_zdiv_nonneg_iff)

lemma sdiv_nonpos_nonpos: "a \<le> 0 \<Longrightarrow> 0 < b \<Longrightarrow> a sdiv (b::int) \<le> 0"
  by (simp add: sdiv_neg pos_imp_zdiv_nonneg_iff)

lemma sdiv_pos_iff: "0 < b \<Longrightarrow> 0 < a sdiv (b::int) \<longleftrightarrow> b \<le> a"
proof (cases "0 \<le> a")
  case True
  then show "0 < b \<Longrightarrow> ?thesis" by (simp add: sdiv_nonneg pos_imp_zdiv_pos_iff)
next
  case False
  then show "0 < b \<Longrightarrow> ?thesis" using sdiv_nonpos_nonpos[of a b] by simp
qed

lemma sdiv_mono: "a \<le> a' \<Longrightarrow> 0 < b \<Longrightarrow> a sdiv b \<le> a' sdiv (b::int)"
proof (cases "0 \<le> a"; cases "0 \<le> a'")
  assume "a \<le> a'" "0 < b" "0 \<le> a" "0 \<le> a'"
  then show ?thesis by (simp add: sdiv_nonneg zdiv_mono1)
next
  assume "a \<le> a'" "0 < b" "\<not> 0 \<le> a" "0 \<le> a'"
  then show ?thesis using sdiv_nonpos_nonpos[of a b] sdiv_nonneg_nonneg[of a' b] by simp
next
  assume "a \<le> a'" "0 < b" "\<not> 0 \<le> a" "\<not> 0 \<le> a'"
  then show ?thesis by (simp add: sdiv_neg zdiv_mono1)
qed simp

text \<open>The truncated quotient and its remainder: \<open>\<bar>a - b * (a / b)\<bar> < b\<close>.\<close>

lemma sdiv_error: "0 < b \<Longrightarrow> \<bar>a - b * (a sdiv b)\<bar> < (b::int)"
proof (cases "0 \<le> a")
  case True
  assume b: "0 < b"
  have "a - b * (a div b) = a mod b" by (simp add: minus_mult_div_eq_mod)
  then show ?thesis using True b by (simp add: sdiv_nonneg)
next
  case False
  assume b: "0 < b"
  have "- a - b * ((- a) div b) = (- a) mod b" by (simp add: minus_mult_div_eq_mod)
  moreover have "0 \<le> (- a) mod b" "(- a) mod b < b" using b by simp_all
  moreover have "a - b * (a sdiv b) = - (- a - b * ((- a) div b))"
    using False b by (simp add: sdiv_neg)
  ultimately show ?thesis by linarith
qed

lemma sdiv_le_self: "0 \<le> a \<Longrightarrow> 0 < b \<Longrightarrow> a sdiv b \<le> (a::int)"
  using div_by_1 zdiv_mono2[of a 1 b] by (simp add: sdiv_nonneg)

lemma sdiv_ge_self: "a \<le> 0 \<Longrightarrow> 0 < b \<Longrightarrow> (a::int) \<le> a sdiv b"
  using sdiv_le_self[of "- a" b] by (simp add: sdiv_minus)

lemma sdiv_abs_le: "0 < b \<Longrightarrow> \<bar>a sdiv b\<bar> \<le> \<bar>a::int\<bar>"
  using sdiv_le_self[of a b] sdiv_ge_self[of a b] sdiv_nonneg_nonneg[of a b] sdiv_nonpos_nonpos[of a b]
  by linarith

lemma in_i64_sdiv: "\<bar>a\<bar> \<le> i64_max \<Longrightarrow> 0 < b \<Longrightarrow> in_i64 (a sdiv b)"
  using sdiv_abs_le[of b a] by (simp add: in_i64_def) linarith

lemma le_div_iff: "0 < n \<Longrightarrow> k \<le> x div n \<longleftrightarrow> k * n \<le> (x::int)"
proof
  assume n: "0 < n"
  show "k * n \<le> x" if "k \<le> x div n"
  proof -
    have "k * n \<le> (x div n) * n" using that n by (simp add: mult_right_mono)
    moreover have "(x div n) * n + x mod n = x" "0 \<le> x mod n" using n by simp_all
    ultimately show ?thesis by linarith
  qed
  show "k \<le> x div n" if "k * n \<le> x"
    using zdiv_mono1[OF that n] n by simp
qed

lemma div_less_iff: "0 < n \<Longrightarrow> x div n < k \<longleftrightarrow> x < k * (n::int)"
  using le_div_iff[of n k x] by linarith

section \<open>Lists\<close>

fun position :: "('a \<Rightarrow> bool) \<Rightarrow> 'a list \<Rightarrow> nat option" where
  "position P [] = None"
| "position P (x # xs) = (if P x then Some 0 else map_option Suc (position P xs))"

definition remove_at :: "nat \<Rightarrow> 'a list \<Rightarrow> 'a list" where
  "remove_at i xs = take i xs @ drop (Suc i) xs"

lemma position_None: "position P xs = None \<longleftrightarrow> (\<forall>x \<in> set xs. \<not> P x)"
  by (induction xs) auto

lemma position_Some:
  "position P xs = Some i \<Longrightarrow>
   \<exists>ys x zs. xs = ys @ x # zs \<and> P x \<and> (\<forall>y \<in> set ys. \<not> P y) \<and> remove_at i xs = ys @ zs"
proof (induction xs arbitrary: i)
  case Nil
  then show ?case by simp
next
  case (Cons a xs)
  show ?case
  proof (cases "P a")
    case True
    with Cons.prems have "a # xs = [] @ a # xs \<and> P a \<and> (\<forall>y \<in> set []. \<not> P y)
        \<and> remove_at i (a # xs) = [] @ xs"
      by (simp add: remove_at_def)
    then show ?thesis by blast
  next
    case False
    with Cons.prems obtain j where j: "position P xs = Some j" "i = Suc j"
      by auto
    from Cons.IH[OF j(1)] obtain ys x zs where
      "xs = ys @ x # zs" "P x" "\<forall>y \<in> set ys. \<not> P y" "remove_at j xs = ys @ zs" by blast
    with False j(2) have "a # xs = (a # ys) @ x # zs \<and> P x \<and> (\<forall>y \<in> set (a # ys). \<not> P y)
        \<and> remove_at i (a # xs) = (a # ys) @ zs"
      by (simp add: remove_at_def)
    then show ?thesis by blast
  qed
qed

lemma length_filter_mono: "(\<And>x. P x \<Longrightarrow> Q x) \<Longrightarrow> length (filter P xs) \<le> length (filter Q xs)"
  by (induction xs) (auto simp: le_SucI)

text \<open>A sort whose key separates the elements depends only on the multiset of its input: the
  determinism argument for every list that comes out of a hash map.\<close>

lemma sort_key_perm:
  assumes "mset xs = mset ys" "inj_on k (set xs)"
  shows "sort_key k xs = sort_key k ys"
  using sort_key_inj_key_eq[of xs "sort_key k ys" k] assms by simp

end
