(* ===== verification/Clob.thy ===== *)
theory Clob
  imports Rust_Int
begin

text \<open>
  The central limit order book (\<open>crates/clob\<close>): the types of \<open>types.rs\<close> and the matching
  engine of \<open>book.rs\<close>. A \<open>BTreeMap\<close> from prices to FIFO queues is a key-ordered list of
  levels, best price first (\<open>bids\<close> descending as with \<open>Reverse<Price>\<close>, \<open>asks\<close> ascending). The two sides
  are two interpretations of one interface, \<open>half_book\<close>. The abstract specification
  is the flattened list of resting orders in price-time priority, and the refinement lemmas show that
  the level-by-level loops of \<open>submit\<close> implement it.
\<close>

type_synonym account_id = int
type_synonym order_id = int
type_synonym price = int
type_synonym qty = int

section \<open>Types\<close>

datatype side = Buy | Sell

fun opposite :: "side \<Rightarrow> side" where
  "opposite Buy = Sell"
| "opposite Sell = Buy"

datatype order_type = Limit price | Market

record order =
  ord_id :: order_id
  ord_account :: account_id
  ord_side :: side
  ord_qty :: qty
  ord_type :: order_type

record fill =
  maker_order_id :: order_id
  taker_order_id :: order_id
  maker_account :: account_id
  taker_account :: account_id
  fill_price :: price
  fill_qty :: qty
  maker_side :: side

record fill_result =
  fills :: "fill list"
  remaining_qty :: qty

definition total_filled :: "fill_result \<Rightarrow> qty" where
  "total_filled r = wrap_u64 (sum_list (map fill_qty (fills r)))"

record resting_order =
  ro_id :: order_id
  ro_account :: account_id
  ro_qty :: qty

type_synonym level = "price \<times> resting_order list"

record book =
  bids :: "level list"
  asks :: "level list"

definition new_book :: book where
  "new_book = \<lparr>bids = [], asks = []\<rparr>"

section \<open>The matching engine\<close>

text \<open>\<open>match_at_level\<close> panics (\<open>None\<close>) on an empty queue.\<close>

fun match_at_level ::
  "order \<Rightarrow> price \<Rightarrow> resting_order list \<Rightarrow> qty \<Rightarrow> (fill \<times> resting_order list \<times> qty) option" where
  "match_at_level taker p [] remaining = None"
| "match_at_level taker p (maker # queue) remaining =
     (let q = min (ro_qty maker) remaining;
          f = \<lparr>maker_order_id = ro_id maker, taker_order_id = ord_id taker,
               maker_account = ro_account maker, taker_account = ord_account taker,
               fill_price = p, fill_qty = q, maker_side = opposite (ord_side taker)\<rparr>;
          maker' = maker\<lparr>ro_qty := ro_qty maker - q\<rparr>
      in Some (f, (if ro_qty maker' = 0 then queue else maker' # queue), remaining - q))"

text \<open>The loop shared by the four arms of \<open>submit_limit\<close> and \<open>submit_market\<close>: take the best level
  until nothing remains, the side is empty, or the best price is past the limit (\<open>stop\<close>).\<close>

function match_loop ::
  "(price \<Rightarrow> bool) \<Rightarrow> order \<Rightarrow> level list \<Rightarrow> qty \<Rightarrow> fill list \<Rightarrow> (level list \<times> qty \<times> fill list) option"
where
  "match_loop stop taker levels remaining fs =
     (if remaining = 0 then Some (levels, remaining, fs)
      else case levels of
        [] \<Rightarrow> Some (levels, remaining, fs)
      | (best, queue) # rest \<Rightarrow>
          if stop best then Some (levels, remaining, fs)
          else (case match_at_level taker best queue remaining of
                  None \<Rightarrow> None
                | Some (f, queue', remaining') \<Rightarrow>
                    match_loop stop taker (if queue' = [] then rest else (best, queue') # rest)
                      remaining' (fs @ [f])))"
  by pat_completeness auto
termination
proof (relation "measure (\<lambda>(stop, t, ls, r, fs).
    sum_list (map (length \<circ> snd) ls) + (if r = 0 then 0 else 1))", goal_cases)
  case 1
  show ?case by simp
next
  case (2 stop taker levels remaining fs lv rest best queue m f rr queue' remaining')
  then show ?case by (cases queue) (auto simp: Let_def min_def split: if_splits)
qed

declare match_loop.simps [simp del]

fun entry_push :: "(price \<Rightarrow> price \<Rightarrow> bool) \<Rightarrow> price \<Rightarrow> resting_order \<Rightarrow> level list \<Rightarrow> level list" where
  "entry_push before p r [] = [(p, [r])]"
| "entry_push before p r ((q, rs) # ls) =
     (if p = q then (q, rs @ [r]) # ls
      else if before p q then (p, [r]) # (q, rs) # ls
      else (q, rs) # entry_push before p r ls)"

definition submit_limit :: "book \<Rightarrow> order \<Rightarrow> price \<Rightarrow> (book \<times> fill_result) option" where
  "submit_limit b ord limit_price =
     map_option (\<lambda>(b', remaining, fs).
        let resting = \<lparr>ro_id = ord_id ord, ro_account = ord_account ord, ro_qty = remaining\<rparr>
        in (if remaining > 0
            then (case ord_side ord of
                    Buy \<Rightarrow> b'\<lparr>bids := entry_push (>) limit_price resting (bids b')\<rparr>
                  | Sell \<Rightarrow> b'\<lparr>asks := entry_push (<) limit_price resting (asks b')\<rparr>)
            else b', \<lparr>fills = fs, remaining_qty = 0\<rparr>))
     (case ord_side ord of
        Buy \<Rightarrow> map_option (\<lambda>(ls, r, fs). (b\<lparr>asks := ls\<rparr>, r, fs))
                 (match_loop (\<lambda>best. best > limit_price) ord (asks b) (ord_qty ord) [])
      | Sell \<Rightarrow> map_option (\<lambda>(ls, r, fs). (b\<lparr>bids := ls\<rparr>, r, fs))
                 (match_loop (\<lambda>best. best < limit_price) ord (bids b) (ord_qty ord) []))"

definition submit_market :: "book \<Rightarrow> order \<Rightarrow> (book \<times> fill_result) option" where
  "submit_market b ord =
     (case ord_side ord of
        Buy \<Rightarrow> map_option (\<lambda>(ls, r, fs). (b\<lparr>asks := ls\<rparr>, \<lparr>fills = fs, remaining_qty = r\<rparr>))
                 (match_loop (\<lambda>_. False) ord (asks b) (ord_qty ord) [])
      | Sell \<Rightarrow> map_option (\<lambda>(ls, r, fs). (b\<lparr>bids := ls\<rparr>, \<lparr>fills = fs, remaining_qty = r\<rparr>))
                 (match_loop (\<lambda>_. False) ord (bids b) (ord_qty ord) []))"

definition submit :: "book \<Rightarrow> order \<Rightarrow> (book \<times> fill_result) option" where
  "submit b ord = (case ord_type ord of
      Limit p \<Rightarrow> submit_limit b ord p
    | Market \<Rightarrow> submit_market b ord)"

text \<open>\<open>retain\<close> with the closure of \<open>cancel\<close>: the flag \<open>found\<close> is threaded through the levels.\<close>

fun retain_cancel :: "order_id \<Rightarrow> bool \<Rightarrow> level list \<Rightarrow> bool \<times> level list" where
  "retain_cancel oid found [] = (found, [])"
| "retain_cancel oid found ((p, queue) # ls) =
     (let (found', queue') =
            (if found then (found, queue)
             else case position (\<lambda>r. ro_id r = oid) queue of
                    None \<Rightarrow> (found, queue)
                  | Some pos \<Rightarrow> (True, remove_at pos queue));
          (found'', ls') = retain_cancel oid found' ls
      in (found'', if queue' = [] then ls' else (p, queue') # ls'))"

definition cancel :: "book \<Rightarrow> order_id \<Rightarrow> bool \<times> book" where
  "cancel b oid =
     (let (found, bs) = retain_cancel oid False (bids b)
      in if found then (True, b\<lparr>bids := bs\<rparr>)
         else let (found', as) = retain_cancel oid False (asks b)
              in (found', b\<lparr>bids := bs, asks := as\<rparr>))"

definition best_bid :: "book \<Rightarrow> price option" where
  "best_bid b = (case bids b of [] \<Rightarrow> None | (p, _) # _ \<Rightarrow> Some p)"

definition best_ask :: "book \<Rightarrow> price option" where
  "best_ask b = (case asks b of [] \<Rightarrow> None | (p, _) # _ \<Rightarrow> Some p)"

definition best_bid_with_qty :: "book \<Rightarrow> (price \<times> qty) option" where
  "best_bid_with_qty b = (case bids b of [] \<Rightarrow> None
     | (p, queue) # _ \<Rightarrow> Some (p, wrap_u64 (sum_list (map ro_qty queue))))"

definition best_ask_with_qty :: "book \<Rightarrow> (price \<times> qty) option" where
  "best_ask_with_qty b = (case asks b of [] \<Rightarrow> None
     | (p, queue) # _ \<Rightarrow> Some (p, wrap_u64 (sum_list (map ro_qty queue))))"

definition depth_bid :: "book \<Rightarrow> nat" where
  "depth_bid b = sum_list (map (length \<circ> snd) (bids b))"

definition depth_ask :: "book \<Rightarrow> nat" where
  "depth_ask b = sum_list (map (length \<circ> snd) (asks b))"

section \<open>Specification: price-time priority on the flattened side\<close>

type_synonym flat = "(price \<times> resting_order) list"

definition flat :: "level list \<Rightarrow> flat" where
  "flat ls = concat (map (\<lambda>(p, q). map (Pair p) q) ls)"

definition mk_fill :: "order \<Rightarrow> price \<Rightarrow> resting_order \<Rightarrow> qty \<Rightarrow> fill" where
  "mk_fill taker p maker q =
     \<lparr>maker_order_id = ro_id maker, taker_order_id = ord_id taker,
      maker_account = ro_account maker, taker_account = ord_account taker,
      fill_price = p, fill_qty = q, maker_side = opposite (ord_side taker)\<rparr>"

text \<open>The reference matcher consumes the resting orders strictly in list order: a maker is
  passed only when it is used up.\<close>

fun match_flat :: "(price \<Rightarrow> bool) \<Rightarrow> order \<Rightarrow> flat \<Rightarrow> qty \<Rightarrow> flat \<times> qty \<times> fill list" where
  "match_flat stop taker [] remaining = ([], remaining, [])"
| "match_flat stop taker ((p, m) # fl) remaining =
     (if remaining = 0 \<or> stop p then ((p, m) # fl, remaining, [])
      else if ro_qty m \<le> remaining
        then (let (fl', r', fs) = match_flat stop taker fl (remaining - ro_qty m)
              in (fl', r', mk_fill taker p m (ro_qty m) # fs))
        else ((p, m\<lparr>ro_qty := ro_qty m - remaining\<rparr>) # fl, 0, [mk_fill taker p m remaining]))"

text \<open>A new resting order goes behind every order of a better or equal price.\<close>

definition insert_flat :: "(price \<Rightarrow> price \<Rightarrow> bool) \<Rightarrow> price \<Rightarrow> resting_order \<Rightarrow> flat \<Rightarrow> flat" where
  "insert_flat before p r fl =
     takeWhile (\<lambda>x. fst x = p \<or> before (fst x) p) fl @ (p, r)
       # dropWhile (\<lambda>x. fst x = p \<or> before (fst x) p) fl"

definition wf_half :: "(price \<Rightarrow> price \<Rightarrow> bool) \<Rightarrow> level list \<Rightarrow> bool" where
  "wf_half before ls \<longleftrightarrow> sorted_wrt before (map fst ls)
     \<and> (\<forall>l \<in> set ls. snd l \<noteq> [] \<and> (\<forall>r \<in> set (snd l). 0 < ro_qty r))"

definition book_ok :: "book \<Rightarrow> bool" where
  "book_ok b \<longleftrightarrow> wf_half (>) (bids b) \<and> wf_half (<) (asks b)
     \<and> (\<forall>p \<in> fst ` set (bids b). \<forall>q \<in> fst ` set (asks b). p < q)"

definition flat_qty :: "flat \<Rightarrow> int" where
  "flat_qty fl = sum_list (map (ro_qty \<circ> snd) fl)"

definition filled_qty :: "fill list \<Rightarrow> int" where
  "filled_qty fs = sum_list (map fill_qty fs)"

lemma flat_Nil [simp]: "flat [] = []" by (simp add: flat_def)

lemma flat_Cons [simp]: "flat ((p, q) # ls) = map (Pair p) q @ flat ls" by (simp add: flat_def)

lemma flat_qty_simps [simp]:
  "flat_qty [] = 0" "flat_qty ((p, m) # fl) = ro_qty m + flat_qty fl"
  "flat_qty (xs @ ys) = flat_qty xs + flat_qty ys"
  by (simp_all add: flat_qty_def)

lemma filled_qty_simps [simp]:
  "filled_qty [] = 0" "filled_qty (f # fs) = fill_qty f + filled_qty fs"
  by (simp_all add: filled_qty_def)

lemma mk_fill_simps [simp]:
  "fill_qty (mk_fill t p m q) = q" "fill_price (mk_fill t p m q) = p"
  "taker_order_id (mk_fill t p m q) = ord_id t" "taker_account (mk_fill t p m q) = ord_account t"
  "maker_side (mk_fill t p m q) = opposite (ord_side t)"
  by (simp_all add: mk_fill_def)

lemma wf_half_Nil [simp]: "wf_half before []" by (simp add: wf_half_def)

lemma wf_half_Cons [simp]:
  "wf_half before ((p, q) # ls) \<longleftrightarrow> (\<forall>p' \<in> fst ` set ls. before p p') \<and> q \<noteq> []
     \<and> (\<forall>r \<in> set q. 0 < ro_qty r) \<and> wf_half before ls"
  by (auto simp: wf_half_def)

lemma wf_half_flat_pos: "wf_half before ls \<Longrightarrow> x \<in> set (flat ls) \<Longrightarrow> 0 < ro_qty (snd x)"
  by (auto simp: wf_half_def flat_def)

lemma fst_flat: "wf_half before ls \<Longrightarrow> fst ` set (flat ls) = fst ` set ls"
proof (induction ls)
  case (Cons l ls)
  obtain p q where l: "l = (p, q)" by (cases l)
  with Cons show ?case by (cases q) (auto simp: image_Un)
qed simp

subsection \<open>The reference matcher\<close>

lemma match_flat_conserves:
  "match_flat stop t fl r = (fl', r', fs) \<Longrightarrow>
     filled_qty fs + r' = r \<and> flat_qty fl = flat_qty fl' + filled_qty fs"
  by (induction stop t fl r arbitrary: fl' r' fs rule: match_flat.induct)
    (fastforce split: if_splits prod.splits)+

lemma match_flat_fills:
  assumes "match_flat stop t fl r = (fl', r', fs)" "0 \<le> r" "\<forall>x \<in> set fl. 0 < ro_qty (snd x)" "f \<in> set fs"
  shows "0 < fill_qty f \<and> \<not> stop (fill_price f) \<and> fill_price f \<in> fst ` set fl
    \<and> taker_order_id f = ord_id t \<and> taker_account f = ord_account t
    \<and> maker_side f = opposite (ord_side t)"
  using assms
  by (induction stop t fl r arbitrary: fl' r' fs rule: match_flat.induct)
    (fastforce split: if_splits prod.splits)+

lemma match_flat_remaining:
  "match_flat stop t fl r = (fl', r', fs) \<Longrightarrow> 0 \<le> r \<Longrightarrow> 0 \<le> r' \<and> r' \<le> r
     \<or> (\<exists>x \<in> set fl. ro_qty (snd x) \<le> 0)"
  by (induction stop t fl r arbitrary: fl' r' fs rule: match_flat.induct)
    (fastforce split: if_splits prod.splits)+

text \<open>Whatever the matcher leaves is a suffix of the side, its first order at most reduced:
  nothing is skipped.\<close>

lemma match_flat_suffix:
  "match_flat stop t fl r = (fl', r', fs) \<Longrightarrow>
     fl' = drop (length fl - length fl') fl
   \<or> (\<exists>p m q tl. fl' = (p, m\<lparr>ro_qty := q\<rparr>) # tl \<and> drop (length fl - length fl') fl = (p, m) # tl \<and> r' = 0)"
proof (induction stop t fl r arbitrary: fl' r' fs rule: match_flat.induct)
  case (2 stop taker p m fl remaining)
  show ?case
  proof (cases "remaining \<noteq> 0 \<and> \<not> stop p \<and> ro_qty m \<le> remaining")
    case True
    with 2(2) obtain fs' where rec: "match_flat stop taker fl (remaining - ro_qty m) = (fl', r', fs')"
      by (auto split: prod.splits)
    have len: "length fl' \<le> length fl" if "match_flat stop taker fl x = (fl', r', fs')" for x
      using that by (induction stop taker fl x arbitrary: fl' r' fs' rule: match_flat.induct)
        (auto split: if_splits prod.splits intro: le_SucI)
    from True "2.IH"[OF _ _ rec] have "fl' = drop (length fl - length fl') fl
      \<or> (\<exists>p m q tl. fl' = (p, m\<lparr>ro_qty := q\<rparr>) # tl \<and> drop (length fl - length fl') fl = (p, m) # tl \<and> r' = 0)"
      by auto
    then show ?thesis using len[OF rec] by (simp add: Suc_diff_le)
  next
    case False
    with 2(2) show ?thesis by (auto split: if_splits)
  qed
qed simp

section \<open>One side of the book\<close>

text \<open>Bids and asks differ only in which of two prices is better. A side is ordered by a strict
  linear order \<open>before\<close>; the laws below are all the engine needs of it.\<close>

locale half_book =
  fixes before :: "price \<Rightarrow> price \<Rightarrow> bool"
  assumes before_irrefl: "\<not> before p p"
    and before_trans: "before p q \<Longrightarrow> before q r \<Longrightarrow> before p r"
    and before_total: "p \<noteq> q \<Longrightarrow> before p q \<or> before q p"
begin

lemma entry_push_keys: "fst ` set (entry_push before p r ls) = insert p (fst ` set ls)"
  by (induction before p r ls rule: entry_push.induct) (simp_all add: insert_commute)

lemma entry_push_wf:
  "0 < ro_qty r \<Longrightarrow> wf_half before ls \<Longrightarrow> wf_half before (entry_push before p r ls)"
proof (induction ls)
  case (Cons l ls)
  obtain q rs where l: "l = (q, rs)" by (cases l)
  have "before p p'" if "before p q" "p' \<in> fst ` set ls" for p'
    using that Cons.prems(2) before_trans l by auto
  with Cons l before_total[of p q] show ?case by (auto simp: entry_push_keys)
qed simp

lemma takeWhile_block:
  "(\<forall>x \<in> set q. P (p, x)) \<Longrightarrow> takeWhile P (map (Pair p) q @ fl) = map (Pair p) q @ takeWhile P fl"
  "(\<forall>x \<in> set q. P (p, x)) \<Longrightarrow> dropWhile P (map (Pair p) q @ fl) = dropWhile P fl"
  by (induction q) auto

lemma while_none:
  "wf_half before ls \<Longrightarrow> \<forall>p' \<in> fst ` set ls. \<not> P p' \<Longrightarrow>
     takeWhile (\<lambda>x. P (fst x)) (flat ls) = [] \<and> dropWhile (\<lambda>x. P (fst x)) (flat ls) = flat ls"
proof (cases ls)
  case (Cons l ls')
  assume "wf_half before ls" "\<forall>p' \<in> fst ` set ls. \<not> P p'"
  with Cons show ?thesis by (cases l; cases "snd l") auto
qed simp

lemma entry_push_flat:
  "wf_half before ls \<Longrightarrow> flat (entry_push before p r ls) = insert_flat before p r (flat ls)"
proof (induction ls)
  case (Cons l ls)
  obtain q rs where l: "l = (q, rs)" by (cases l)
  let ?P = "\<lambda>p'. p' = p \<or> before p' p"
  show ?case
  proof (cases "p = q \<or> before p q")
    case True
    have later: "\<forall>p' \<in> fst ` set ls. \<not> ?P p'"
    proof
      fix p' assume "p' \<in> fst ` set ls"
      then have "before q p'" using Cons.prems l by auto
      then have "before p p'" using True before_trans by blast
      then show "\<not> ?P p'" using before_irrefl before_trans by blast
    qed
    note w = while_none[of ls ?P, OF _ later]
    show ?thesis
    proof (cases "p = q")
      case True
      then show ?thesis using w Cons.prems l by (simp add: insert_flat_def takeWhile_block)
    next
      case False
      with True have pq: "before p q" by simp
      then have "\<not> ?P q" using before_irrefl before_trans False by blast
      moreover obtain x xs where "rs = x # xs" using Cons.prems l by (cases rs) auto
      ultimately show ?thesis using l pq False by (simp add: insert_flat_def)
    qed
  next
    case False
    with before_total[of p q] have "before q p" by blast
    then show ?thesis using Cons l False by (simp add: insert_flat_def takeWhile_block)
  qed
qed (simp add: insert_flat_def)

text \<open>The level loop implements the reference matcher, keeps the side well-formed, and stops for
  one of the three reasons of the source.\<close>

lemma match_loop_full:
  assumes "r \<noteq> 0" "\<not> stop best" "ro_qty m \<le> r"
  shows "match_at_level t best (m # queue) r = Some (mk_fill t best m (ro_qty m), queue, r - ro_qty m)"
    and "match_loop stop t ((best, m # queue) # rest) r fs
      = match_loop stop t (if queue = [] then rest else (best, queue) # rest) (r - ro_qty m) (fs @ [mk_fill t best m (ro_qty m)])"
    and "match_flat stop t (flat ((best, m # queue) # rest)) r
      = (case match_flat stop t (flat (if queue = [] then rest else (best, queue) # rest)) (r - ro_qty m) of
           (bk, r', fs') \<Rightarrow> (bk, r', mk_fill t best m (ro_qty m) # fs'))"
proof -
  show step: "match_at_level t best (m # queue) r = Some (mk_fill t best m (ro_qty m), queue, r - ro_qty m)"
    using assms(3) by (simp add: mk_fill_def Let_def)
  show "match_loop stop t ((best, m # queue) # rest) r fs
      = match_loop stop t (if queue = [] then rest else (best, queue) # rest) (r - ro_qty m) (fs @ [mk_fill t best m (ro_qty m)])"
    using assms(1,2) step by (simp add: match_loop.simps[of stop t "(best, m # queue) # rest" r fs] del: match_at_level.simps)
qed (use assms in \<open>cases "queue = []"; simp\<close>)

lemma match_loop_partial:
  assumes "r \<noteq> 0" "\<not> stop best" "\<not> ro_qty m \<le> r"
  shows "match_loop stop t ((best, m # queue) # rest) r fs
      = Some ((best, m\<lparr>ro_qty := ro_qty m - r\<rparr> # queue) # rest, 0, fs @ [mk_fill t best m r])"
    and "match_flat stop t (flat ((best, m # queue) # rest)) r = (flat ((best, m\<lparr>ro_qty := ro_qty m - r\<rparr> # queue) # rest), 0, [mk_fill t best m r])"
proof -
  have "match_at_level t best (m # queue) r = Some (mk_fill t best m r, m\<lparr>ro_qty := ro_qty m - r\<rparr> # queue, 0)"
    using assms(3) by (simp add: mk_fill_def Let_def)
  then show "match_loop stop t ((best, m # queue) # rest) r fs
      = Some ((best, m\<lparr>ro_qty := ro_qty m - r\<rparr> # queue) # rest, 0, fs @ [mk_fill t best m r])"
    using assms(1,2) by (simp add: match_loop.simps[of stop t "(best, m # queue) # rest" r fs] match_loop.simps[of stop t _ 0]
        del: match_at_level.simps)
qed (use assms in simp)

lemma match_loop_refines:
  assumes "wf_half before ls" "0 \<le> r"
  shows "\<exists>ls' r' fs'. match_loop stop t ls r fs = Some (ls', r', fs @ fs')
    \<and> match_flat stop t (flat ls) r = (flat ls', r', fs') \<and> wf_half before ls' \<and> 0 \<le> r'
    \<and> fst ` set ls' \<subseteq> fst ` set ls \<and> (r' = 0 \<or> ls' = [] \<or> stop (fst (hd ls')))"
  using assms
proof (induction stop t ls r fs rule: match_loop.induct)
  case (1 stop t ls r fs)
  consider (stops) "r = 0 \<or> ls = [] \<or> stop (fst (hd ls))"
    | (level) best m queue rest where "ls = (best, m # queue) # rest" "r \<noteq> 0" "\<not> stop best"
    using "1.prems"(1) by (cases ls; cases "hd ls"; cases "snd (hd ls)") auto
  then show ?case
  proof cases
    case stops
    then have "match_loop stop t ls r fs = Some (ls, r, fs @ [])" by (subst match_loop.simps) (auto split: list.splits)
    moreover have "match_flat stop t (flat ls) r = (flat ls, r, [])"
      using stops "1.prems"(1) by (cases ls; cases "snd (hd ls)") auto
    ultimately show ?thesis using "1.prems" stops by (intro exI[of _ ls] exI[of _ r] exI[of _ "[]"]) simp
  next
    case level
    show ?thesis
    proof (cases "ro_qty m \<le> r")
      case True
      let ?ls1 = "if queue = [] then rest else (best, queue) # rest" and ?f = "mk_fill t best m (ro_qty m)"
      note full = match_loop_full[where stop = stop and best = best, OF level(2,3) True]
      have wf1: "wf_half before ?ls1" "0 \<le> r - ro_qty m" using "1.prems" level True by auto
      have "\<exists>ls' r' fs'. match_loop stop t ?ls1 (r - ro_qty m) (fs @ [?f]) = Some (ls', r', (fs @ [?f]) @ fs')
          \<and> match_flat stop t (flat ?ls1) (r - ro_qty m) = (flat ls', r', fs') \<and> wf_half before ls'
          \<and> 0 \<le> r' \<and> fst ` set ls' \<subseteq> fst ` set ?ls1 \<and> (r' = 0 \<or> ls' = [] \<or> stop (fst (hd ls')))"
        by (rule "1.IH"[OF _ level(1) _ level(3) full(1) _ _ wf1]) (use level(2) in simp_all)
      then obtain ls' r' fs' where rec: "match_loop stop t ?ls1 (r - ro_qty m) (fs @ [?f]) = Some (ls', r', (fs @ [?f]) @ fs')"
        "match_flat stop t (flat ?ls1) (r - ro_qty m) = (flat ls', r', fs')" "wf_half before ls'" "0 \<le> r'" "fst ` set ls' \<subseteq> fst ` set ?ls1"
        "r' = 0 \<or> ls' = [] \<or> stop (fst (hd ls'))" by blast
      have "fst ` set ls' \<subseteq> fst ` set ls" using rec(5) level(1) by (auto split: if_splits)
      then show ?thesis
        using rec level(1) by (intro exI[of _ ls'] exI[of _ r'] exI[of _ "?f # fs'"]) (simp only: full(2,3), simp)
    next
      case False
      have "wf_half before ((best, m\<lparr>ro_qty := ro_qty m - r\<rparr> # queue) # rest)" using "1.prems" level False by simp
      then show ?thesis using level match_loop_partial[where stop = stop and best = best, OF level(2,3) False] by auto
    qed
  qed
qed

lemma retain_cancel_found: "retain_cancel oid True ls = (True, filter (\<lambda>l. snd l \<noteq> []) ls)"
  by (induction ls) auto

lemma position_level:
  "position (\<lambda>x. ro_id (snd x) = oid) (map (Pair p) q @ fl)
     = (case position (\<lambda>r. ro_id r = oid) q of Some i \<Rightarrow> Some i
        | None \<Rightarrow> map_option ((+) (length q)) (position (\<lambda>x. ro_id (snd x) = oid) fl))"
  by (induction q) (auto split: option.splits simp: option.map_comp option.map_ident_strong comp_def intro!: option.map_cong)

lemma retain_cancel_spec:
  assumes "wf_half before ls" "retain_cancel oid False ls = (found, ls')"
  shows "wf_half before ls' \<and> fst ` set ls' \<subseteq> fst ` set ls
    \<and> flat ls' = (case position (\<lambda>x. ro_id (snd x) = oid) (flat ls) of
          None \<Rightarrow> flat ls | Some i \<Rightarrow> remove_at i (flat ls))
    \<and> found = (\<exists>x \<in> set (flat ls). ro_id (snd x) = oid)"
  using assms
proof (induction ls arbitrary: found ls')
  case (Cons l ls)
  obtain p q where l: "l = (p, q)" by (cases l)
  have nonempty: "filter (\<lambda>l. snd l \<noteq> []) ls = ls"
    using Cons.prems(1) l by (auto simp: wf_half_def filter_id_conv)
  show ?case
  proof (cases "position (\<lambda>r. ro_id r = oid) q")
    case None
    obtain f1 ls1 where rec: "retain_cancel oid False ls = (f1, ls1)" by fastforce
    have noq: "\<forall>r \<in> set q. ro_id r \<noteq> oid" using None by (simp add: position_None)
    have app: "remove_at (length q + i) (map (Pair p) q @ fl) = map (Pair p) q @ remove_at i fl" for i and fl :: flat
      by (simp add: remove_at_def)
    note IH = Cons.IH[OF _ rec]
    have "fst ` set ls1 \<subseteq> fst ` set ls" using IH Cons.prems(1) l by simp
    moreover have "\<forall>p' \<in> fst ` set ls. before p p'" using Cons.prems(1) l by simp
    ultimately have keys: "\<forall>p' \<in> fst ` set ls1. before p p'" by blast
    have res: "found = f1" "ls' = (p, q) # ls1" using Cons.prems rec None l by auto
    have sub: "fst ` set ls' \<subseteq> fst ` set (l # ls)" using IH Cons.prems(1) l res by auto
    have wf: "wf_half before ls'" using IH Cons.prems(1) l res keys by simp
    have fl: "flat ls' = (case position (\<lambda>x. ro_id (snd x) = oid) (flat (l # ls)) of
          None \<Rightarrow> flat (l # ls) | Some i \<Rightarrow> remove_at i (flat (l # ls)))"
      using IH Cons.prems(1) l res None
      by (cases "position (\<lambda>x. ro_id (snd x) = oid) (flat ls)") (simp_all add: position_level app)
    have "found = (\<exists>x \<in> set (flat (l # ls)). ro_id (snd x) = oid)"
      using IH Cons.prems(1) l res noq by auto
    with sub wf fl show ?thesis by blast
  next
    case (Some i)
    then obtain ys x zs where q: "q = ys @ x # zs" "ro_id x = oid" "remove_at i q = ys @ zs"
      using position_Some[OF Some] by blast
    have i: "i < length q" using Some by (induction q arbitrary: i) (auto split: if_splits)
    have flat': "remove_at i (map (Pair p) q @ flat ls) = map (Pair p) (remove_at i q) @ flat ls"
      using i by (simp add: remove_at_def take_map drop_map)
    have "(found, ls') = (True, if remove_at i q = [] then ls else (p, remove_at i q) # ls)"
      using Cons.prems(2) l Some nonempty by (simp add: retain_cancel_found split: if_splits)
    moreover have "position (\<lambda>x. ro_id (snd x) = oid) (flat (l # ls)) = Some i"
      using Some l by (simp add: position_level)
    moreover have "wf_half before (if remove_at i q = [] then ls else (p, remove_at i q) # ls)"
      "\<exists>x \<in> set (flat (l # ls)). ro_id (snd x) = oid"
      using Cons.prems(1) l q by auto
    ultimately show ?thesis using l flat' by auto
  qed
qed simp

end

interpretation ask_side: half_book "(<)" by unfold_locales auto
interpretation bid_side: half_book "(>)" by unfold_locales auto

section \<open>The book\<close>

type_synonym flat_book = "flat \<times> flat"

definition abs_book :: "book \<Rightarrow> flat_book" where
  "abs_book b = (flat (bids b), flat (asks b))"

definition stops :: "order \<Rightarrow> price \<Rightarrow> bool" where
  "stops ord p = (case ord_type ord of
      Market \<Rightarrow> False
    | Limit l \<Rightarrow> (case ord_side ord of Buy \<Rightarrow> p > l | Sell \<Rightarrow> p < l))"

text \<open>The specification of \<open>submit\<close>: match against the opposite side, then rest what is left of
  a limit order behind its price level.\<close>

definition spec_submit :: "flat_book \<Rightarrow> order \<Rightarrow> flat_book \<times> fill_result" where
  "spec_submit fb ord =
     (let (bf, af) = fb;
          (fl, r, fs) = match_flat (stops ord) ord
                          (case ord_side ord of Buy \<Rightarrow> af | Sell \<Rightarrow> bf) (ord_qty ord);
          resting = \<lparr>ro_id = ord_id ord, ro_account = ord_account ord, ro_qty = r\<rparr>
      in (case ord_type ord of
            Market \<Rightarrow> (case ord_side ord of Buy \<Rightarrow> (bf, fl) | Sell \<Rightarrow> (fl, af))
          | Limit l \<Rightarrow> (case ord_side ord of
               Buy \<Rightarrow> ((if r > 0 then insert_flat (>) l resting bf else bf), fl)
             | Sell \<Rightarrow> (fl, (if r > 0 then insert_flat (<) l resting af else af))),
          \<lparr>fills = fs, remaining_qty = (case ord_type ord of Market \<Rightarrow> r | Limit _ \<Rightarrow> 0)\<rparr>))"

definition side_qty :: "side \<Rightarrow> book \<Rightarrow> int" where
  "side_qty s b = flat_qty (flat (case s of Buy \<Rightarrow> bids b | Sell \<Rightarrow> asks b))"

lemma flat_qty_insert [simp]: "flat_qty (insert_flat before p r fl) = flat_qty fl + ro_qty r"
proof -
  let ?P = "\<lambda>x. fst x = p \<or> before (fst x) p"
  have "flat_qty fl = flat_qty (takeWhile ?P fl) + flat_qty (dropWhile ?P fl)"
    using flat_qty_simps(3)[of "takeWhile ?P fl" "dropWhile ?P fl"] by simp
  then show ?thesis by (simp add: insert_flat_def)
qed

text \<open>The bids stay strictly below the asks when the resting price does.\<close>

lemma book_ok_bid_push:
  assumes "wf_half (>) bs" "wf_half (<) as" "0 < ro_qty r"
    and "\<forall>p \<in> fst ` set bs. \<forall>q \<in> fst ` set as. p < q" "\<forall>q \<in> fst ` set as. l < q"
  shows "book_ok \<lparr>bids = entry_push (>) l r bs, asks = as\<rparr>"
  using assms by (simp add: book_ok_def bid_side.entry_push_wf bid_side.entry_push_keys)

lemma book_ok_ask_push:
  assumes "wf_half (>) bs" "wf_half (<) as" "0 < ro_qty r"
    and "\<forall>p \<in> fst ` set bs. \<forall>q \<in> fst ` set as. p < q" "\<forall>p \<in> fst ` set bs. p < l"
  shows "book_ok \<lparr>bids = bs, asks = entry_push (<) l r as\<rparr>"
  using assms by (simp add: book_ok_def ask_side.entry_push_wf ask_side.entry_push_keys)

lemma hd_best:
  assumes "wf_half before ls" "ls = [] \<or> before l (fst (hd ls))"
    "\<And>p q. before l p \<Longrightarrow> before p q \<Longrightarrow> before l q"
  shows "\<forall>q \<in> fst ` set ls. before l q"
  using assms by (cases ls; cases "hd ls") auto

lemma submit_spec_buy:
  assumes ok: "book_ok b" and q: "0 \<le> ord_qty ord" and side: "ord_side ord = Buy"
  shows "\<exists>b' res. submit b ord = Some (b', res) \<and> book_ok b'
    \<and> spec_submit (abs_book b) ord = (abs_book b', res)"
proof -
  have wf: "wf_half (>) (bids b)" "wf_half (<) (asks b)"
    and sep: "\<forall>p \<in> fst ` set (bids b). \<forall>q \<in> fst ` set (asks b). p < q"
    using ok by (simp_all add: book_ok_def)
  from ask_side.match_loop_refines[OF wf(2) q, of "stops ord" ord "[]"]
  obtain ls r fs where
    loop: "match_loop (stops ord) ord (asks b) (ord_qty ord) [] = Some (ls, r, fs)"
    and spec: "match_flat (stops ord) ord (flat (asks b)) (ord_qty ord) = (flat ls, r, fs)"
    and wf': "wf_half (<) ls" "0 \<le> r" "fst ` set ls \<subseteq> fst ` set (asks b)"
    and stop: "r = 0 \<or> ls = [] \<or> stops ord (fst (hd ls))" by auto
  have sep': "\<forall>p \<in> fst ` set (bids b). \<forall>q \<in> fst ` set ls. p < q" using sep wf'(3) by blast
  show ?thesis
  proof (cases "ord_type ord")
    case (Limit l)
    have st: "stops ord = (\<lambda>p. p > l)" using Limit side by (simp add: stops_def fun_eq_iff)
    have "r = 0 \<or> (\<forall>q \<in> fst ` set ls. l < q)"
      using hd_best[OF wf'(1), of l] stop st by auto
    then have "0 < r \<Longrightarrow> book_ok \<lparr>bids = entry_push (>) l
        \<lparr>ro_id = ord_id ord, ro_account = ord_account ord, ro_qty = r\<rparr> (bids b), asks = ls\<rparr>"
      by (intro book_ok_bid_push wf wf' sep') auto
    moreover have "book_ok \<lparr>bids = bids b, asks = ls\<rparr>" using wf wf' sep' by (simp add: book_ok_def)
    ultimately show ?thesis using loop spec Limit side st wf
      by (cases b) (auto simp: submit_def submit_limit_def spec_submit_def abs_book_def Let_def
          bid_side.entry_push_flat)
  next
    case Market
    have "stops ord = (\<lambda>_. False)" using Market by (simp add: stops_def fun_eq_iff)
    then show ?thesis using loop spec Market side wf wf' sep'
      by (cases b) (auto simp: submit_def submit_market_def spec_submit_def abs_book_def book_ok_def)
  qed
qed

lemma submit_spec_sell:
  assumes ok: "book_ok b" and q: "0 \<le> ord_qty ord" and side: "ord_side ord = Sell"
  shows "\<exists>b' res. submit b ord = Some (b', res) \<and> book_ok b'
    \<and> spec_submit (abs_book b) ord = (abs_book b', res)"
proof -
  have wf: "wf_half (>) (bids b)" "wf_half (<) (asks b)"
    and sep: "\<forall>p \<in> fst ` set (bids b). \<forall>q \<in> fst ` set (asks b). p < q"
    using ok by (simp_all add: book_ok_def)
  from bid_side.match_loop_refines[OF wf(1) q, of "stops ord" ord "[]"]
  obtain ls r fs where
    loop: "match_loop (stops ord) ord (bids b) (ord_qty ord) [] = Some (ls, r, fs)"
    and spec: "match_flat (stops ord) ord (flat (bids b)) (ord_qty ord) = (flat ls, r, fs)"
    and wf': "wf_half (>) ls" "0 \<le> r" "fst ` set ls \<subseteq> fst ` set (bids b)"
    and stop: "r = 0 \<or> ls = [] \<or> stops ord (fst (hd ls))" by auto
  have sep': "\<forall>p \<in> fst ` set ls. \<forall>q \<in> fst ` set (asks b). p < q" using sep wf'(3) by blast
  show ?thesis
  proof (cases "ord_type ord")
    case (Limit l)
    have st: "stops ord = (\<lambda>p. p < l)" using Limit side by (simp add: stops_def fun_eq_iff)
    have "r = 0 \<or> (\<forall>q \<in> fst ` set ls. q < l)"
      using hd_best[OF wf'(1), of l] stop st by auto
    then have "0 < r \<Longrightarrow> book_ok \<lparr>bids = ls, asks = entry_push (<) l
        \<lparr>ro_id = ord_id ord, ro_account = ord_account ord, ro_qty = r\<rparr> (asks b)\<rparr>"
      by (intro book_ok_ask_push wf wf' sep') auto
    moreover have "book_ok \<lparr>bids = ls, asks = asks b\<rparr>" using wf wf' sep' by (simp add: book_ok_def)
    ultimately show ?thesis using loop spec Limit side st wf
      by (cases b) (auto simp: submit_def submit_limit_def spec_submit_def abs_book_def Let_def
          ask_side.entry_push_flat)
  next
    case Market
    have "stops ord = (\<lambda>_. False)" using Market by (simp add: stops_def fun_eq_iff)
    then show ?thesis using loop spec Market side wf wf' sep'
      by (cases b) (auto simp: submit_def submit_market_def spec_submit_def abs_book_def book_ok_def)
  qed
qed

lemma submit_spec:
  assumes "book_ok b" "0 \<le> ord_qty ord"
  shows "\<exists>b' res. submit b ord = Some (b', res) \<and> book_ok b'
    \<and> spec_submit (abs_book b) ord = (abs_book b', res)"
  using submit_spec_buy[OF assms] submit_spec_sell[OF assms] by (cases "ord_side ord") auto

lemma submit_SomeE:
  assumes "submit b ord = Some (b', res)" "book_ok b" "0 \<le> ord_qty ord"
  obtains "book_ok b'" "spec_submit (abs_book b) ord = (abs_book b', res)"
  using submit_spec[OF assms(2,3)] assms(1) by auto

lemma new_book_ok [simp]: "book_ok new_book"
  by (simp add: book_ok_def new_book_def)

lemma abs_book_pos:
  "book_ok b \<Longrightarrow> x \<in> set (fst (abs_book b)) \<union> set (snd (abs_book b)) \<Longrightarrow> 0 < ro_qty (snd x)"
  by (auto simp: abs_book_def book_ok_def dest: wf_half_flat_pos)

section \<open>Properties\<close>

text \<open>C2: the book invariant. From a well-formed book (levels strictly sorted best first, no empty
  level, every resting quantity positive, best bid strictly below best ask), submitting any order
  never reaches one of the \<open>expect\<close> panics and gives a well-formed, uncrossed book again.\<close>

theorem submit_keeps_book_ok:
  assumes "book_ok b" "0 \<le> ord_qty ord"
  shows "\<exists>b' res. submit b ord = Some (b', res) \<and> book_ok b'"
  using submit_spec[OF assms] by blast

definition demo_book :: book where
  "demo_book = \<lparr>bids = [(99, [\<lparr>ro_id = 1, ro_account = 10, ro_qty = 5\<rparr>])],
     asks = [(100, [\<lparr>ro_id = 2, ro_account = 20, ro_qty = 3\<rparr>, \<lparr>ro_id = 3, ro_account = 30, ro_qty = 4\<rparr>]),
             (101, [\<lparr>ro_id = 4, ro_account = 20, ro_qty = 8\<rparr>])]\<rparr>"

definition demo_order :: order where
  "demo_order = \<lparr>ord_id = 9, ord_account = 40, ord_side = Buy, ord_qty = 10, ord_type = Limit 100\<rparr>"

lemma demo_book_ok: "book_ok demo_book"
  by (simp add: demo_book_def book_ok_def wf_half_def)

lemmas demo_simps = demo_book_def demo_order_def submit_def submit_limit_def match_loop.simps Let_def

theorem submit_keeps_book_ok_witness:
  "\<exists>b' res. submit demo_book demo_order = Some (b', res) \<and> book_ok b'"
  by (rule submit_keeps_book_ok) (simp_all add: demo_book_ok demo_order_def)

text \<open>C1: refinement. Read as the list of resting orders in price-time priority, the book implements
  the specification: the loops over price levels fill exactly the makers the reference matcher
  \<open>match_flat\<close> takes (each used up before the next one is touched), and a limit
  order's rest is queued behind every order of a better or equal price.\<close>

theorem submit_refines_price_time_priority:
  assumes "book_ok b" "0 \<le> ord_qty ord" "submit b ord = Some (b', res)"
  shows "spec_submit (abs_book b) ord = (abs_book b', res)"
  using submit_SomeE[OF assms(3,1,2)] by blast

theorem submit_refines_price_time_priority_witness:
  "\<exists>b' res. submit demo_book demo_order = Some (b', res)
     \<and> spec_submit (abs_book demo_book) demo_order = (abs_book b', res) \<and> length (fills res) = 2"
proof -
  have "\<exists>b' res. submit demo_book demo_order = Some (b', res) \<and> length (fills res) = 2"
    by (simp add: demo_simps)
  then obtain b' res where s: "submit demo_book demo_order = Some (b', res)" "length (fills res) = 2"
    by blast
  with submit_refines_price_time_priority[OF demo_book_ok _ s(1)] show ?thesis
    by (auto simp: demo_order_def)
qed

lemma spec_submit_qty:
  assumes "spec_submit (abs_book b) ord = (abs_book b', res)" "0 \<le> r"
    and m: "match_flat (stops ord) ord
      (case ord_side ord of Buy \<Rightarrow> flat (asks b) | Sell \<Rightarrow> flat (bids b)) (ord_qty ord) = (fl, r, fs)"
  shows "fills res = fs \<and> remaining_qty res = (if ord_type ord = Market then r else 0)
    \<and> side_qty (opposite (ord_side ord)) b' = flat_qty fl
    \<and> side_qty (ord_side ord) b' = side_qty (ord_side ord) b + (if ord_type ord = Market then 0 else r)"
proof (cases "ord_side ord")
  case Buy
  then show ?thesis using assms
    by (cases "ord_type ord"; cases "r = 0")
      (auto simp: spec_submit_def abs_book_def side_qty_def Let_def dest!: arg_cong[where f = flat_qty])
next
  case Sell
  then show ?thesis using assms
    by (cases "ord_type ord"; cases "r = 0")
      (auto simp: spec_submit_def abs_book_def side_qty_def Let_def dest!: arg_cong[where f = flat_qty])
qed

lemma submit_fills_facts:
  assumes "book_ok b" "0 \<le> ord_qty ord" "submit b ord = Some (b', res)"
  shows "filled_qty (fills res) \<le> ord_qty ord"
    and "f \<in> set (fills res) \<Longrightarrow> 0 < fill_qty f"
    and "f \<in> set (fills res) \<Longrightarrow> fill_price f \<in> fst ` (set (bids b) \<union> set (asks b))"
proof -
  let ?side = "case ord_side ord of Buy \<Rightarrow> flat (asks b) | Sell \<Rightarrow> flat (bids b)"
  obtain fl r fs where m: "match_flat (stops ord) ord ?side (ord_qty ord) = (fl, r, fs)"
    using prod_cases3 by blast
  have pos: "\<forall>x \<in> set ?side. 0 < ro_qty (snd x)"
    using abs_book_pos[OF assms(1)] by (auto simp: abs_book_def split: side.splits)
  have r: "0 \<le> r" using match_flat_remaining[OF m assms(2)] pos by auto
  have fs: "fills res = fs"
    using spec_submit_qty[OF _ r m, of b' res] submit_SomeE[OF assms(3,1,2)] by blast
  show "filled_qty (fills res) \<le> ord_qty ord" using match_flat_conserves[OF m] r fs by simp
  have keys: "fst ` set ?side \<subseteq> fst ` (set (bids b) \<union> set (asks b))"
    using assms(1) fst_flat[of "(<)" "asks b"] fst_flat[of "(>)" "bids b"]
    by (auto simp: book_ok_def split: side.splits)
  show "f \<in> set (fills res) \<Longrightarrow> 0 < fill_qty f"
    "f \<in> set (fills res) \<Longrightarrow> fill_price f \<in> fst ` (set (bids b) \<union> set (asks b))"
    using match_flat_fills[OF m assms(2) pos, of f] fs keys by blast+
qed

text \<open>C18: conservation of quantity. What the taker fills leaves the opposite side; what it does not
  fill is returned (market) or rests on its own side (limit), and nothing else moves. The
  \<open>u64\<close> sum of \<open>total_filled\<close> is exact.\<close>

theorem submit_conserves_quantity:
  assumes "book_ok b" "in_u64 (ord_qty ord)" "submit b ord = Some (b', res)"
  shows "side_qty (opposite (ord_side ord)) b' = side_qty (opposite (ord_side ord)) b - total_filled res
    \<and> side_qty (ord_side ord) b' =
        side_qty (ord_side ord) b + (if ord_type ord = Market then 0 else ord_qty ord - total_filled res)
    \<and> remaining_qty res = (if ord_type ord = Market then ord_qty ord - total_filled res else 0)
    \<and> 0 \<le> total_filled res \<and> total_filled res \<le> ord_qty ord"
proof -
  have q: "0 \<le> ord_qty ord" using assms(2) by (simp add: in_u64_def)
  let ?side = "case ord_side ord of Buy \<Rightarrow> flat (asks b) | Sell \<Rightarrow> flat (bids b)"
  obtain fl r fs where m: "match_flat (stops ord) ord ?side (ord_qty ord) = (fl, r, fs)"
    using prod_cases3 by blast
  have pos: "\<forall>x \<in> set ?side. 0 < ro_qty (snd x)"
    using abs_book_pos[OF assms(1)] by (auto simp: abs_book_def split: side.splits)
  note cons = match_flat_conserves[OF m]
  have r: "0 \<le> r" "r \<le> ord_qty ord" using match_flat_remaining[OF m q] pos by auto
  have spec: "spec_submit (abs_book b) ord = (abs_book b', res)"
    using submit_SomeE[OF assms(3,1) q] by blast
  note qty = spec_submit_qty[OF spec r(1) m]
  have tf: "total_filled res = ord_qty ord - r"
    using cons r assms(2) qty by (simp add: total_filled_def filled_qty_def in_u64_def)
  have "flat_qty ?side = side_qty (opposite (ord_side ord)) b"
    by (simp add: side_qty_def split: side.splits)
  with qty cons tf r show ?thesis by auto
qed

theorem submit_conserves_quantity_witness:
  "\<exists>b' res. submit demo_book demo_order = Some (b', res) \<and> total_filled res = 7
     \<and> side_qty Sell b' = side_qty Sell demo_book - 7 \<and> side_qty Buy b' = side_qty Buy demo_book + 3"
proof -
  have "\<exists>b' res. submit demo_book demo_order = Some (b', res) \<and> total_filled res = 7"
    by (simp add: demo_simps total_filled_def wrap_u64_def)
  then obtain b' res where s: "submit demo_book demo_order = Some (b', res)" "total_filled res = 7"
    by blast
  with submit_conserves_quantity[OF demo_book_ok _ s(1)] show ?thesis
    by (auto simp: demo_order_def in_u64_def)
qed

text \<open>Every fill trades at a resting order's own price, which is no worse than the taker's limit,
  for a positive quantity, and names the taker and the maker's side correctly.\<close>

theorem submit_fills_within_limit:
  assumes "book_ok b" "0 \<le> ord_qty ord" "submit b ord = Some (b', res)" "f \<in> set (fills res)"
  shows "0 < fill_qty f
    \<and> fill_price f \<in> fst ` set (case ord_side ord of Buy \<Rightarrow> asks b | Sell \<Rightarrow> bids b)
    \<and> (case (ord_type ord, ord_side ord) of
         (Limit l, Buy) \<Rightarrow> fill_price f \<le> l | (Limit l, Sell) \<Rightarrow> l \<le> fill_price f | _ \<Rightarrow> True)
    \<and> taker_order_id f = ord_id ord \<and> taker_account f = ord_account ord
    \<and> maker_side f = opposite (ord_side ord)"
proof -
  let ?side = "case ord_side ord of Buy \<Rightarrow> flat (asks b) | Sell \<Rightarrow> flat (bids b)"
  obtain fl r fs where m: "match_flat (stops ord) ord ?side (ord_qty ord) = (fl, r, fs)"
    using prod_cases3 by blast
  have pos: "\<forall>x \<in> set ?side. 0 < ro_qty (snd x)"
    using abs_book_pos[OF assms(1)] by (auto simp: abs_book_def split: side.splits)
  have r: "0 \<le> r" using match_flat_remaining[OF m assms(2)] pos by auto
  have "fills res = fs"
    using spec_submit_qty[OF _ r m, of b' res] submit_SomeE[OF assms(3,1,2)] by blast
  moreover have "fst ` set ?side = fst ` set (case ord_side ord of Buy \<Rightarrow> asks b | Sell \<Rightarrow> bids b)"
    using assms(1) fst_flat[of "(<)" "asks b"] fst_flat[of "(>)" "bids b"]
    by (simp add: book_ok_def split: side.splits)
  moreover have "\<not> stops ord (fill_price f) \<Longrightarrow> (case (ord_type ord, ord_side ord) of
         (Limit l, Buy) \<Rightarrow> fill_price f \<le> l | (Limit l, Sell) \<Rightarrow> l \<le> fill_price f | _ \<Rightarrow> True)"
    by (auto simp: stops_def split: order_type.splits side.splits)
  ultimately show ?thesis using match_flat_fills[OF m assms(2) pos, of f] assms(4) by simp
qed

theorem submit_fills_within_limit_witness:
  "\<exists>b' res f. submit demo_book demo_order = Some (b', res) \<and> f \<in> set (fills res)
     \<and> 0 < fill_qty f \<and> fill_price f \<le> 100"
proof -
  have "\<exists>b' res f. submit demo_book demo_order = Some (b', res) \<and> f \<in> set (fills res)"
    by (simp add: demo_simps) blast
  then obtain b' res f where s: "submit demo_book demo_order = Some (b', res)" "f \<in> set (fills res)"
    by blast
  with submit_fills_within_limit[OF demo_book_ok _ s] show ?thesis
    by (intro exI[of _ b'] exI[of _ res] exI[of _ f]) (simp add: demo_order_def)
qed

definition spec_cancel :: "flat_book \<Rightarrow> order_id \<Rightarrow> bool \<times> flat_book" where
  "spec_cancel fb oid =
     (case position (\<lambda>x. ro_id (snd x) = oid) (fst fb) of
        Some i \<Rightarrow> (True, remove_at i (fst fb), snd fb)
      | None \<Rightarrow> (case position (\<lambda>x. ro_id (snd x) = oid) (snd fb) of
          Some i \<Rightarrow> (True, fst fb, remove_at i (snd fb))
        | None \<Rightarrow> (False, fb)))"

text \<open>C28: cancellation removes exactly the first order with that id in price-time priority, bids
  before asks, and nothing else; it reports whether there was one, and keeps the book well-formed.\<close>

theorem cancel_refines:
  assumes "book_ok b" "cancel b oid = (found, b')"
  shows "book_ok b' \<and> spec_cancel (abs_book b) oid = (found, abs_book b')"
proof -
  obtain fb bs where rb: "retain_cancel oid False (bids b) = (fb, bs)" by fastforce
  obtain fa as where ra: "retain_cancel oid False (asks b) = (fa, as)" by fastforce
  have wf: "wf_half (>) (bids b)" "wf_half (<) (asks b)" using assms(1) by (simp_all add: book_ok_def)
  note B = bid_side.retain_cancel_spec[OF wf(1) rb] and A = ask_side.retain_cancel_spec[OF wf(2) ra]
  have sep: "\<forall>p \<in> fst ` set (bids b). \<forall>q \<in> fst ` set (asks b). p < q"
    using assms(1) by (simp add: book_ok_def)
  have "fb \<longleftrightarrow> position (\<lambda>x. ro_id (snd x) = oid) (flat (bids b)) \<noteq> None"
    "fa \<longleftrightarrow> position (\<lambda>x. ro_id (snd x) = oid) (flat (asks b)) \<noteq> None"
    using A B by (auto simp: position_None)
  moreover have sub: "fst ` set bs \<subseteq> fst ` set (bids b)" "fst ` set as \<subseteq> fst ` set (asks b)"
    using A B by blast+
  have "\<forall>p \<in> fst ` set bs. \<forall>q \<in> fst ` set (asks b). p < q"
    "\<forall>p \<in> fst ` set bs. \<forall>q \<in> fst ` set as. p < q" using sep sub by blast+
  then have "book_ok (b\<lparr>bids := bs\<rparr>)" "book_ok (b\<lparr>bids := bs, asks := as\<rparr>)"
    using A B wf by (simp_all add: book_ok_def)
  ultimately show ?thesis using A B rb ra assms(2)
    by (cases fb; cases fa) (auto simp: cancel_def spec_cancel_def abs_book_def split: option.splits)
qed

theorem cancel_refines_witness:
  "book_ok (snd (cancel demo_book 2)) \<and> spec_cancel (abs_book demo_book) 2 = (True, abs_book (snd (cancel demo_book 2)))"
proof -
  have c: "cancel demo_book 2 = (True, snd (cancel demo_book 2))"
    by (simp add: cancel_def demo_book_def remove_at_def)
  show ?thesis using cancel_refines[OF demo_book_ok c] by simp
qed

end
