(* ===== verification/Funding.thy ===== *)
theory Funding
  imports Clob
begin

text \<open>
  The funding crate (\<open>crates/funding\<close>): premium, capped rate, per-position settlements
  (\<open>compute.rs\<close>) and the clock that decides when to settle (\<open>clock.rs\<close>).
\<close>

type_synonym mark_price = int
type_synonym index_price = int

record funding_params =
  interval_secs :: int
  rate_cap :: int
  divisor :: int

record fund_position =
  pos_account :: account_id
  pos_size :: int

record settlement =
  st_account :: account_id
  st_delta :: int

definition RATE_SCALE :: int where
  "RATE_SCALE = 1000000000"

definition funding_hyperliquid_default :: funding_params where
  "funding_hyperliquid_default = \<lparr>interval_secs = 3600, rate_cap = 40000000, divisor = 8\<rparr>"

definition saturate_i128_to_i64 :: "int \<Rightarrow> int" where
  "saturate_i128_to_i64 v = (if in_i64 v then v else if v > 0 then i64_max else i64_min)"

definition compute_premium :: "mark_price \<Rightarrow> index_price \<Rightarrow> int" where
  "compute_premium mark index =
     (if index = 0 then 0
      else let diff = mark - index;
               scaled = sat_i128 (diff * RATE_SCALE);
               premium = scaled sdiv index
           in saturate_i128_to_i64 premium)"

text \<open>\<open>rate_cap.abs()\<close> and \<open>-cap\<close> are plain \<open>i64\<close> operations and wrap for \<open>i64::MIN\<close>.\<close>

definition compute_rate :: "int \<Rightarrow> funding_params \<Rightarrow> int" where
  "compute_rate premium params =
     (if divisor params = 0 then 0
      else let raw = premium sdiv divisor params;
               cap = wrap_i64 \<bar>rate_cap params\<bar>
           in sat (wrap_i64 (- cap)) cap raw)"

text \<open>\<open>- delta_unscaled\<close> is a plain \<open>i128\<close> negation of a saturated product.\<close>

definition settle_position :: "mark_price \<Rightarrow> int \<Rightarrow> fund_position \<Rightarrow> settlement" where
  "settle_position mark rate pos =
     (let notional = sat_i128 (pos_size pos * mark);
          delta_unscaled = sat_i128 (notional * rate);
          delta_scaled = wrap_i128 (- delta_unscaled) sdiv RATE_SCALE
      in \<lparr>st_account = pos_account pos, st_delta = saturate_i128_to_i64 delta_scaled\<rparr>)"

definition apply_funding :: "fund_position list \<Rightarrow> mark_price \<Rightarrow> int \<Rightarrow> settlement list" where
  "apply_funding positions mark rate =
     (if rate = 0 then []
      else map (settle_position mark rate) (filter (\<lambda>p. pos_size p \<noteq> 0) positions))"

record funding_clock =
  clock_params :: funding_params
  last_settled_at :: int

record funding_tick =
  settled_at :: int
  tick_premium :: int
  tick_rate :: int
  settlements :: "settlement list"

definition new_funding_clock :: "funding_params \<Rightarrow> int \<Rightarrow> funding_clock" where
  "new_funding_clock params genesis_time = \<lparr>clock_params = params, last_settled_at = genesis_time\<rparr>"

definition clock_tick ::
  "funding_clock \<Rightarrow> int \<Rightarrow> mark_price \<Rightarrow> index_price \<Rightarrow> fund_position list \<Rightarrow> funding_clock \<times> funding_tick option" where
  "clock_tick c now mark index positions =
     (if now < sat_u64 (last_settled_at c + interval_secs (clock_params c)) then (c, None)
      else let premium = compute_premium mark index;
               rate = compute_rate premium (clock_params c);
               ss = apply_funding positions mark rate
           in (c\<lparr>last_settled_at := now\<rparr>,
               Some \<lparr>settled_at = now, tick_premium = premium, tick_rate = rate, settlements = ss\<rparr>))"

section \<open>Arithmetic facts\<close>

lemma saturate_eq [simp]: "saturate_i128_to_i64 v = sat_i64 v"
  by (auto simp: saturate_i128_to_i64_def sat_def in_i64_def)

lemma premium_scaled_exact:
  "in_u64 mark \<Longrightarrow> in_u64 index \<Longrightarrow> sat_i128 ((mark - index) * RATE_SCALE) = (mark - index) * RATE_SCALE"
  by (rule i128.sat_id) (simp_all add: in_u64_def RATE_SCALE_def)

lemma notional_exact:
  assumes "in_i64 sz" "in_u64 mark"
  shows "sat_i128 (sz * mark) = sz * mark"
proof (rule i128.sat_id)
  have "\<bar>sz\<bar> * mark \<le> 9223372036854775808 * 18446744073709551615"
    using assms by (intro mult_mono) (auto simp: in_i64_def in_u64_def)
  then have "\<bar>sz * mark\<bar> \<le> 9223372036854775808 * 18446744073709551615"
    using assms(2) by (simp add: abs_mult in_u64_def)
  then show "i128_min \<le> sz * mark" "sz * mark \<le> i128_max" by linarith+
qed

text \<open>Under the bound that keeps the scaled product inside \<open>i128\<close>, a settlement is the exact
  truncated quotient.\<close>

lemma settle_position_exact:
  assumes "in_i64 (pos_size p)" "in_u64 mark" "\<bar>pos_size p * mark * rate\<bar> \<le> i128_max"
  shows "settle_position mark rate p =
    \<lparr>st_account = pos_account p, st_delta = sat_i64 ((- (pos_size p * mark * rate)) sdiv RATE_SCALE)\<rparr>"
proof -
  let ?x = "pos_size p * mark * rate"
  have "sat_i128 ?x = ?x" using assms(3) by (intro i128.sat_id) linarith+
  moreover have "wrap_i128 (- ?x) = - ?x" using assms(3) by (intro wrap_i128_id) linarith+
  ultimately show ?thesis using notional_exact[OF assms(1,2)] by (simp add: settle_position_def)
qed

section \<open>Properties\<close>



lemma settlement_sum_error:
  assumes "\<forall>p \<in> set ps. in_i64 ((- (pos_size p * k)) sdiv RATE_SCALE)"
  shows "\<bar>RATE_SCALE * (\<Sum>p \<leftarrow> ps. sat_i64 ((- (pos_size p * k)) sdiv RATE_SCALE)) + k * (\<Sum>p \<leftarrow> ps. pos_size p)\<bar>
    \<le> RATE_SCALE * int (length ps) - int (length ps)"
  using assms
proof (induction ps)
  case (Cons p ps)
  let ?d = "(- (pos_size p * k)) sdiv RATE_SCALE"
  have "\<bar>- (pos_size p * k) - RATE_SCALE * ?d\<bar> < RATE_SCALE"
    by (rule sdiv_error) (simp add: RATE_SCALE_def)
  moreover have "sat_i64 ?d = ?d" using Cons.prems by simp
  moreover have "RATE_SCALE * (?d + (\<Sum>p \<leftarrow> ps. sat_i64 ((- (pos_size p * k)) sdiv RATE_SCALE)))
      + k * (pos_size p + (\<Sum>p \<leftarrow> ps. pos_size p))
    = (RATE_SCALE * ?d + pos_size p * k)
      + (RATE_SCALE * (\<Sum>p \<leftarrow> ps. sat_i64 ((- (pos_size p * k)) sdiv RATE_SCALE))
          + k * (\<Sum>p \<leftarrow> ps. pos_size p))"
    by (simp add: algebra_simps)
  ultimately show ?case using Cons by (simp add: algebra_simps)
qed simp

lemma sum_nonflat: "(\<Sum>p \<leftarrow> filter (\<lambda>p. pos_size p \<noteq> 0) ps. pos_size p) = (\<Sum>p \<leftarrow> ps. pos_size p)"
  by (induction ps) auto



text \<open>Direction. With a positive rate longs pay and shorts receive; with a negative rate the
  reverse, whenever the scaled product fits into \<open>i128\<close>. Flat positions get no settlement and the
  others are settled in input order.\<close>

theorem funding_direction:
  assumes "p \<in> set positions" "pos_size p \<noteq> 0" "rate \<noteq> 0" "in_i64 (pos_size p)" "in_u64 mark"
    and "\<bar>pos_size p * mark * rate\<bar> \<le> i128_max"
  shows "settle_position mark rate p \<in> set (apply_funding positions mark rate)
    \<and> map st_account (apply_funding positions mark rate)
        = map pos_account (filter (\<lambda>p. pos_size p \<noteq> 0) positions)
    \<and> (0 < pos_size p * rate \<longrightarrow> st_delta (settle_position mark rate p) \<le> 0)
    \<and> (pos_size p * rate < 0 \<longrightarrow> 0 \<le> st_delta (settle_position mark rate p))"
proof -
  have m: "0 \<le> mark" using assms(5) by (simp add: in_u64_def)
  have acc: "map st_account (apply_funding positions mark rate)
        = map pos_account (filter (\<lambda>p. pos_size p \<noteq> 0) positions)"
    using assms(3) by (simp add: apply_funding_def settle_position_def Let_def)
  have x: "pos_size p * mark * rate = mark * (pos_size p * rate)" by simp
  have "0 < pos_size p * rate \<Longrightarrow> - (pos_size p * mark * rate) \<le> 0"
    "pos_size p * rate < 0 \<Longrightarrow> 0 \<le> - (pos_size p * mark * rate)"
    unfolding x using m by (simp_all add: mult_nonneg_nonpos)
  then have "0 < pos_size p * rate \<Longrightarrow> st_delta (settle_position mark rate p) \<le> 0"
    "pos_size p * rate < 0 \<Longrightarrow> 0 \<le> st_delta (settle_position mark rate p)"
    unfolding settle_position_exact[OF assms(4-6)] settlement.select_convs
    by (auto intro!: i64.sat_nonpos i64.sat_nonneg sdiv_nonpos_nonpos sdiv_nonneg_nonneg
        simp: RATE_SCALE_def simp del: sat_i64_eq)
  moreover have "settle_position mark rate p \<in> set (apply_funding positions mark rate)"
    using assms(1-3) by (simp add: apply_funding_def)
  ultimately show ?thesis using acc by blast
qed

theorem funding_direction_witness:
  "let ps = [\<lparr>pos_account = 1, pos_size = 7\<rparr>, \<lparr>pos_account = 2, pos_size = - 7\<rparr>]
   in st_delta (settle_position 1000 40000000 (ps ! 0)) \<le> 0 \<and> 0 \<le> st_delta (settle_position 1000 40000000 (ps ! 1))"
  using funding_direction[of "\<lparr>pos_account = 1, pos_size = 7\<rparr>" "[\<lparr>pos_account = 1, pos_size = 7\<rparr>]" 40000000 1000]
    funding_direction[of "\<lparr>pos_account = 2, pos_size = - 7\<rparr>" "[\<lparr>pos_account = 2, pos_size = - 7\<rparr>]" 40000000 1000]
  by (simp add: in_i64_def in_u64_def)

type_synonym tick_call = "int \<times> mark_price \<times> index_price \<times> fund_position list"

fun run_clock :: "funding_clock \<Rightarrow> tick_call list \<Rightarrow> funding_tick list" where
  "run_clock c [] = []"
| "run_clock c ((now, mark, index, ps) # calls) =
     (case clock_tick c now mark index ps of
        (c', None) \<Rightarrow> run_clock c' calls
      | (c', Some t) \<Rightarrow> t # run_clock c' calls)"

lemma clock_tick_cases:
  "clock_tick c now mark index ps = (c', res) \<Longrightarrow> now < u64_max \<Longrightarrow>
     (c' = c \<and> res = None)
   \<or> (c' = c\<lparr>last_settled_at := now\<rparr> \<and> (\<exists>t. res = Some t \<and> settled_at t = now)
      \<and> last_settled_at c + interval_secs (clock_params c) \<le> now)"
  by (auto simp: clock_tick_def Let_def sat_def split: if_splits)

lemma run_clock_spaced:
  assumes "\<forall>call \<in> set calls. fst call < u64_max" "0 \<le> interval_secs (clock_params c)"
  shows "sorted_wrt (\<lambda>a b. a + interval_secs (clock_params c) \<le> b)
    (last_settled_at c # map settled_at (run_clock c calls))"
  using assms
proof (induction c calls rule: run_clock.induct)
  case (2 c now mark index ps calls)
  obtain c' res where t: "clock_tick c now mark index ps = (c', res)" by fastforce
  have now: "now < u64_max" using "2.prems"(1) by simp
  show ?case
  proof (cases res)
    case None
    then have "c' = c" using clock_tick_cases[OF t now] by auto
    then show ?thesis using 2 t None by simp
  next
    case (Some tk)
    then have c': "c' = c\<lparr>last_settled_at := now\<rparr>" "settled_at tk = now"
      "last_settled_at c + interval_secs (clock_params c) \<le> now"
      using clock_tick_cases[OF t now] by auto
    then have "sorted_wrt (\<lambda>a b. a + interval_secs (clock_params c) \<le> b)
      (now # map settled_at (run_clock c' calls))" using 2 t Some by simp
    then show ?thesis using t Some c' "2.prems"(2) by auto
  qed
qed simp



text \<open>The negation of the saturated product is the one place where the funding math does not
  saturate. For the largest short position at the largest mark, a rate of 2 ppb drives the product
  to \<open>i128::MIN\<close>; its plain negation wraps (or panics with overflow checks on),
  and the short, whom the positive rate should pay, is charged the largest possible amount.\<close>

theorem funding_negation_overflow:
  "st_delta (settle_position u64_max 2 \<lparr>pos_account = 1, pos_size = i64_min\<rparr>) = i64_min
   \<and> 0 < (- (i64_min * u64_max * 2)) sdiv RATE_SCALE"
proof -
  have "sat_i128 (i64_min * u64_max) = i64_min * u64_max"
    by (rule i128.sat_id) simp_all
  moreover have "sat_i128 (i64_min * u64_max * 2) = i128_min" by (simp add: sat_def)
  moreover have "wrap_i128 (- i128_min) = i128_min" by (simp add: wrap_i128_def)
  moreover have "sat_i64 (i128_min sdiv RATE_SCALE) = i64_min"
    by (simp add: RATE_SCALE_def sdiv_neg sat_def)
  moreover have "0 < (- (i64_min * u64_max * 2)) sdiv RATE_SCALE"
    by (simp add: RATE_SCALE_def sdiv_pos_iff)
  ultimately show ?thesis by (simp add: settle_position_def)
qed

end
