(* ===== verification/Clearing.thy ===== *)
theory Clearing
  imports Funding
begin

text \<open>
  The clearing crate (\<open>crates/clearing\<close>): one account's position under fills (\<open>apply_fill\<close>) and
  the margin arithmetic of withdrawals (\<open>initial_margin_requirement_at\<close>, \<open>unrealized_pnl\<close>,
  \<open>free_collateral\<close>). The specification of \<open>apply_fill\<close> is \<open>exact_equity\<close>, mark-to-market
  equity over unbounded integers: a fill must move it by \<open>\<plusminus> qty * (mark - price)\<close>.
\<close>

definition MARGIN_SCALE :: int where "MARGIN_SCALE = 10000"
definition DEFAULT_INITIAL_MARGIN_BPS :: int where "DEFAULT_INITIAL_MARGIN_BPS = 1000"
definition DEFAULT_MAINTENANCE_MARGIN_BPS :: int where "DEFAULT_MAINTENANCE_MARGIN_BPS = 200"

record account =
  acct_id :: account_id
  position_size :: int
  avg_entry :: mark_price
  collateral :: int

definition flat_account :: "account_id \<Rightarrow> account" where
  "flat_account a = \<lparr>acct_id = a, position_size = 0, avg_entry = 0, collateral = 0\<rparr>"

fun side_sign :: "side \<Rightarrow> int" where
  "side_sign Buy = 1"
| "side_sign Sell = - 1"

text \<open>\<open>apply_fill\<close> mutates the account and returns the realized profit: here, a pair.\<close>

definition apply_fill :: "account \<Rightarrow> price \<Rightarrow> qty \<Rightarrow> side \<Rightarrow> account \<times> int" where
  "apply_fill a p q sd =
     (let old_size = position_size a;
          old_avg = avg_entry a;
          signed_delta = sat_i128 (q * side_sign sd);
          opposite_sign = (sgn old_size \<noteq> 0 \<and> sgn old_size \<noteq> side_sign sd);
          closed_qty = (if opposite_sign then min \<bar>old_size\<bar> q else 0);
          opened_qty = q - closed_qty;
          realized = (if closed_qty > 0
                      then let basis_delta = p - old_avg;
                               signed = sat_i128 (sat_i128 (sgn old_size * closed_qty) * basis_delta)
                           in sat_i64 signed
                      else 0);
          new_size = sat_i128 (old_size + signed_delta);
          new_avg = (if new_size = 0 then old_avg
                     else if old_size = 0 then p
                     else if sgn old_size = sgn new_size then
                       (if opposite_sign then old_avg
                        else let old_abs = \<bar>old_size\<bar>;
                                 new_notional = sat_i128 (sat_i128 (old_abs * old_avg) + sat_i128 (opened_qty * p));
                                 total_abs = sat_i128 (old_abs + opened_qty)
                             in if total_abs = 0 then old_avg else new_notional sdiv total_abs)
                     else p)
      in (a\<lparr>position_size := sat_i64 new_size, avg_entry := sat_u64 new_avg\<rparr>, realized))"

definition initial_margin_requirement_at :: "account \<Rightarrow> mark_price \<Rightarrow> int \<Rightarrow> int" where
  "initial_margin_requirement_at acct mark im_bps =
     (let scaled = sat_i128 (sat_i128 (\<bar>position_size acct\<bar> * mark) * im_bps);
          req = scaled sdiv MARGIN_SCALE
      in saturate_i128_to_i64 req)"

definition initial_margin_requirement :: "account \<Rightarrow> int \<Rightarrow> int" where
  "initial_margin_requirement acct im_bps = initial_margin_requirement_at acct (avg_entry acct) im_bps"

definition unrealized_pnl :: "account \<Rightarrow> mark_price \<Rightarrow> int" where
  "unrealized_pnl acct mark =
     (let diff = mark - avg_entry acct;
          pnl = sat_i128 (diff * position_size acct)
      in saturate_i128_to_i64 pnl)"

definition free_collateral :: "account \<Rightarrow> mark_price \<Rightarrow> int \<Rightarrow> int" where
  "free_collateral acct mark im_bps =
     (let upnl = unrealized_pnl acct mark;
          equity = sat_i128 (collateral acct + upnl);
          im_req = initial_margin_requirement_at acct mark im_bps
      in saturate_i128_to_i64 (equity - im_req))"

section \<open>Well-formed accounts\<close>

definition account_ok :: "account \<Rightarrow> bool" where
  "account_ok a \<longleftrightarrow> in_i64 (position_size a) \<and> in_u64 (avg_entry a) \<and> in_i64 (collateral a)"

lemma account_okD [dest]:
  "account_ok a \<Longrightarrow> in_i64 (position_size a)" "account_ok a \<Longrightarrow> in_u64 (avg_entry a)"
  "account_ok a \<Longrightarrow> in_i64 (collateral a)"
  by (simp_all add: account_ok_def)

lemma flat_account_ok [simp]: "account_ok (flat_account a)"
  by (simp add: account_ok_def flat_account_def)

lemma flat_account_simps [simp]:
  "acct_id (flat_account a) = a" "position_size (flat_account a) = 0" "avg_entry (flat_account a) = 0" "collateral (flat_account a) = 0"
  by (simp_all add: flat_account_def)

lemma side_sign_cases: "side_sign sd = 1 \<or> side_sign sd = - 1"
  by (cases sd) simp_all

lemma side_sign_opposite [simp]: "side_sign (opposite sd) = - side_sign sd"
  by (cases sd) simp_all

text \<open>Every result of \<open>apply_fill\<close> has this shape; the frame properties need no more.\<close>

lemma apply_fill_shape:
  obtains s v r where
    "apply_fill a p q sd = (a\<lparr>position_size := sat_i64 s, avg_entry := sat_u64 v\<rparr>, r)" "in_i64 r"
proof -
  have "\<exists>s v r. apply_fill a p q sd = (a\<lparr>position_size := sat_i64 s, avg_entry := sat_u64 v\<rparr>, r) \<and> in_i64 r"
    unfolding apply_fill_def Let_def
    by (intro exI conjI, rule refl) (split if_split, intro conjI impI in_i64_sat in_i64_0)
  with that show thesis by blast
qed

lemma apply_fill_frame [simp]:
  "acct_id (fst (apply_fill a p q sd)) = acct_id a"
  "collateral (fst (apply_fill a p q sd)) = collateral a"
  by (rule apply_fill_shape[of a p q sd]; simp)+

lemma apply_fill_account_ok: "account_ok a \<Longrightarrow> account_ok (fst (apply_fill a p q sd))"
  by (rule apply_fill_shape[of a p q sd]) (simp add: account_ok_def)

lemma apply_fill_realized_in_i64 [simp]: "in_i64 (snd (apply_fill a p q sd))"
  by (rule apply_fill_shape[of a p q sd]) simp

text \<open>The position is the exact sum whenever that sum is an \<open>i64\<close>.\<close>

lemma apply_fill_position:
  assumes "in_u64 q"
  shows "position_size (fst (apply_fill a p q sd)) = sat_i64 (position_size a + side_sign sd * q)"
proof -
  have q: "sat_i128 (q * side_sign sd) = q * side_sign sd"
    using assms side_sign_cases[of sd] by (intro i128.sat_id) (auto simp: in_u64_def)
  have "sat_i64 (sat_i128 x) = sat_i64 x" for x by (simp add: sat_def)
  with q show ?thesis by (simp add: apply_fill_def Let_def mult.commute)
qed

section \<open>The four cases of a fill\<close>

lemma apply_fill_open:
  assumes "position_size a = 0" "0 < q" "in_u64 q" "in_u64 p" "in_i64 (side_sign sd * q)"
  shows "apply_fill a p q sd = (a\<lparr>position_size := side_sign sd * q, avg_entry := p\<rparr>, 0)"
proof -
  have "side_sign sd * q \<noteq> 0" using assms(2) side_sign_cases[of sd] by auto
  moreover have "sat_i128 (side_sign sd * q) = side_sign sd * q"
    using assms(3) side_sign_cases[of sd] by (intro i128.sat_id) (auto simp: in_u64_def)
  ultimately show ?thesis
    using assms by (simp add: apply_fill_def Let_def mult.commute)
qed

text \<open>The weighted mean of an increase, over the exact integers.\<close>

definition mean_entry :: "int \<Rightarrow> int \<Rightarrow> int \<Rightarrow> int \<Rightarrow> int" where
  "mean_entry n avg q p = (n * avg + q * p) div (n + q)"

lemma mean_entry_bounds:
  assumes "0 < n" "0 \<le> q"
  shows "min avg p \<le> mean_entry n avg q p" "mean_entry n avg q p \<le> max avg p"
proof -
  have "(n + q) * min avg p \<le> n * avg + q * p"
    using assms by (simp add: distrib_right add_mono mult_left_mono)
  then have "((n + q) * min avg p) div (n + q) \<le> mean_entry n avg q p"
    unfolding mean_entry_def using assms by (intro zdiv_mono1) auto
  then show "min avg p \<le> mean_entry n avg q p" using assms by simp
  have "n * avg + q * p \<le> (n + q) * max avg p"
    using assms by (simp add: distrib_right add_mono mult_left_mono)
  then have "mean_entry n avg q p \<le> ((n + q) * max avg p) div (n + q)"
    unfolding mean_entry_def using assms by (intro zdiv_mono1) auto
  then show "mean_entry n avg q p \<le> max avg p" using assms by simp
qed

lemma mean_entry_rounding:
  assumes "0 < n" "0 \<le> q"
  shows "0 \<le> n * avg + q * p - (n + q) * mean_entry n avg q p"
    "n * avg + q * p - (n + q) * mean_entry n avg q p < n + q"
proof -
  have "n * avg + q * p - (n + q) * mean_entry n avg q p = (n * avg + q * p) mod (n + q)"
    unfolding mean_entry_def by (simp add: minus_mult_div_eq_mod)
  moreover have "0 < n + q" using assms by simp
  ultimately show "0 \<le> n * avg + q * p - (n + q) * mean_entry n avg q p"
    "n * avg + q * p - (n + q) * mean_entry n avg q p < n + q"
    by simp_all
qed

lemma mult_abs_bound: "\<bar>x::int\<bar> \<le> A \<Longrightarrow> \<bar>y\<bar> \<le> B \<Longrightarrow> \<bar>x * y\<bar> \<le> A * B"
  by (simp add: abs_mult mult_mono')

lemma apply_fill_increase:
  assumes ok: "account_ok a" and s: "sgn (position_size a) = side_sign sd"
    and q: "in_u64 q" and p: "in_u64 p"
    and new: "in_i64 (position_size a + side_sign sd * q)"
  shows "apply_fill a p q sd =
    (a\<lparr>position_size := position_size a + side_sign sd * q,
       avg_entry := mean_entry \<bar>position_size a\<bar> (avg_entry a) q p\<rparr>, 0)"
proof -
  let ?s = "position_size a" and ?n = "\<bar>position_size a\<bar>" and ?avg = "avg_entry a"
  have n0: "0 < ?n" using s side_sign_cases[of sd] by (auto simp: sgn_if split: if_splits)
  have avg: "0 \<le> ?avg" "?avg \<le> u64_max" using account_okD(2)[OF ok] by (simp_all add: in_u64_def)
  have p': "0 \<le> p" "p \<le> u64_max" and q': "0 \<le> q" using p q by (simp_all add: in_u64_def)
  have signs: "sgn (?s + side_sign sd * q) = sgn ?s" "\<bar>?s + side_sign sd * q\<bar> = ?n + q"
    using s q' by (cases sd; auto simp: sgn_if split: if_splits)+
  have tot: "?n + q \<le> 9223372036854775808" using new signs(2) by (auto simp: in_i64_def)
  have "?n * ?avg \<le> ?n * u64_max" "q * p \<le> q * u64_max"
    using avg p' q' by (simp_all add: mult_left_mono)
  then have sum: "?n * ?avg + q * p \<le> 9223372036854775808 * u64_max" using tot by simp
  have pos: "0 \<le> ?n * ?avg" "0 \<le> q * p" using avg p' q' by simp_all
  have sats: "sat_i128 (?n * ?avg) = ?n * ?avg" "sat_i128 (q * p) = q * p"
    "sat_i128 (?n * ?avg + q * p) = ?n * ?avg + q * p" "sat_i128 (?n + q) = ?n + q"
    using sum pos tot n0 q' by (simp_all add: i128.sat_id)
  have sz: "sat_i128 (q * side_sign sd) = side_sign sd * q"
      "sat_i128 (?s + side_sign sd * q) = ?s + side_sign sd * q"
    using q new side_sign_cases[of sd] by (auto intro!: i128.sat_id simp: in_u64_def in_i64_def)
  have div: "(?n * ?avg + q * p) sdiv (?n + q) = mean_entry ?n ?avg q p"
    using pos n0 q' by (simp add: mean_entry_def sdiv_nonneg)
  have "in_u64 (mean_entry ?n ?avg q p)"
    using mean_entry_bounds[OF n0 q', of ?avg p] avg p' by (auto simp: in_u64_def)
  moreover have "?s + side_sign sd * q \<noteq> 0" "?n + q \<noteq> 0" "?s \<noteq> 0" using signs(2) n0 q' by auto
  ultimately show ?thesis
    using s signs(1) new by (simp add: apply_fill_def Let_def sats sz div)
qed

lemma realized_exact:
  assumes "in_i64 x" "0 \<le> c" "c \<le> \<bar>x\<bar>" "\<bar>x * d\<bar> \<le> i64_max"
  shows "sat_i64 (sat_i128 (sat_i128 (sgn x * c) * d)) = sgn x * c * d"
proof -
  have "\<bar>sgn x * c\<bar> \<le> \<bar>x\<bar>" using assms by (auto simp: abs_mult sgn_if)
  then have "\<bar>sgn x * c * d\<bar> \<le> i64_max"
    using assms(4) mult_right_mono[of "\<bar>sgn x * c\<bar>" "\<bar>x\<bar>" "\<bar>d\<bar>"] by (simp add: abs_mult)
  moreover have "sat_i128 (sgn x * c) = sgn x * c"
    using \<open>\<bar>sgn x * c\<bar> \<le> \<bar>x\<bar>\<close> assms(1) by (intro i128.sat_id) (auto simp: in_i64_def)
  ultimately show ?thesis by (simp add: i128.sat_id i64.sat_id)
qed

lemma apply_fill_reduce_fst:
  assumes ok: "account_ok a" and s: "sgn (position_size a) = - side_sign sd" and q0: "0 < q"
    and q: "in_u64 q" and p: "in_u64 p"
    and new: "in_i64 (position_size a + side_sign sd * q)"
  shows "fst (apply_fill a p q sd) =
    a\<lparr>position_size := position_size a + side_sign sd * q,
      avg_entry := (if q \<le> \<bar>position_size a\<bar> then avg_entry a else p)\<rparr>"
proof -
  let ?s = "position_size a"
  have s0: "?s \<noteq> 0" using s side_sign_cases[of sd] by auto
  have sz: "sat_i128 (q * side_sign sd) = side_sign sd * q"
      "sat_i128 (?s + side_sign sd * q) = ?s + side_sign sd * q"
    using q new side_sign_cases[of sd] by (auto intro!: i128.sat_id simp: in_u64_def in_i64_def)
  have signs: "?s + side_sign sd * q \<noteq> 0 \<Longrightarrow> sgn ?s = sgn (?s + side_sign sd * q) \<longleftrightarrow> q \<le> \<bar>?s\<bar>"
    "?s + side_sign sd * q = 0 \<Longrightarrow> q = \<bar>?s\<bar>"
    using s s0 q0 by (cases sd; auto simp: sgn_if split: if_splits)+
  have opp: "sgn ?s \<noteq> 0" "sgn ?s \<noteq> side_sign sd" using s side_sign_cases[of sd] by auto
  have u: "sat_u64 (avg_entry a) = avg_entry a" "sat_u64 p = p" using account_okD(2)[OF ok] p by simp_all
  show ?thesis
  proof (cases "?s + side_sign sd * q = 0")
    case True
    then have "q \<le> \<bar>?s\<bar>" using signs(2) by simp
    with True show ?thesis using opp u by (simp add: apply_fill_def Let_def sz)
  next
    case False
    with signs(1) show ?thesis using opp u s0 new by (auto simp: apply_fill_def Let_def sz)
  qed
qed

lemma apply_fill_reduce_realized:
  assumes ok: "account_ok a" and s: "sgn (position_size a) = - side_sign sd" and q0: "0 < q"
    and fits: "\<bar>position_size a * (p - avg_entry a)\<bar> \<le> i64_max"
  shows "snd (apply_fill a p q sd)
    = sgn (position_size a) * min \<bar>position_size a\<bar> q * (p - avg_entry a)"
proof -
  let ?s = "position_size a" and ?c = "min \<bar>position_size a\<bar> q"
  have opp: "sgn ?s \<noteq> 0" "sgn ?s \<noteq> side_sign sd" using s side_sign_cases[of sd] by auto
  have c: "0 < ?c" "?c \<le> \<bar>?s\<bar>" using opp(1) q0 by auto
  have "sat_i64 (sat_i128 (sat_i128 (sgn ?s * ?c) * (p - avg_entry a))) = sgn ?s * ?c * (p - avg_entry a)"
    using realized_exact[OF account_okD(1)[OF ok] _ c(2) fits] c(1) by simp
  then show ?thesis using opp c by (simp add: apply_fill_def Let_def)
qed

text \<open>Case analysis on the direction of the fill against the position.\<close>

lemma fill_direction_cases:
  fixes a :: account
  obtains (open_flat) "position_size a = 0"
    | (increase) "position_size a \<noteq> 0" "sgn (position_size a) = side_sign sd"
    | (reduce) "position_size a \<noteq> 0" "sgn (position_size a) = - side_sign sd"
  by (cases "position_size a" "0 :: int" rule: linorder_cases; cases sd) auto

section \<open>Margin arithmetic\<close>

lemma im_req_nonneg:
  assumes "0 \<le> mark" "0 \<le> bps"
  shows "0 \<le> initial_margin_requirement_at a mark bps"
  using assms by (auto intro!: i64.sat_nonneg sdiv_nonneg_nonneg i128.sat_nonneg mult_nonneg_nonneg
      simp: initial_margin_requirement_at_def Let_def MARGIN_SCALE_def simp del: sat_i64_eq)

lemma im_req_in_i64 [simp]: "in_i64 (initial_margin_requirement_at a mark bps)"
  by (simp add: initial_margin_requirement_at_def Let_def)

lemma unrealized_pnl_in_i64 [simp]: "in_i64 (unrealized_pnl a mark)"
  by (simp add: unrealized_pnl_def Let_def)

lemma margin_ignores_collateral [simp]:
  "initial_margin_requirement_at (a\<lparr>collateral := c\<rparr>) mark bps = initial_margin_requirement_at a mark bps"
  "unrealized_pnl (a\<lparr>collateral := c\<rparr>) mark = unrealized_pnl a mark"
  by (simp_all add: initial_margin_requirement_at_def unrealized_pnl_def)

text \<open>Free collateral is one saturation of the exact sum.\<close>

lemma free_collateral_eq:
  assumes "in_i64 (collateral a)"
  shows "free_collateral a mark bps
    = sat_i64 (collateral a + unrealized_pnl a mark - initial_margin_requirement_at a mark bps)"
proof -
  have "sat_i128 (collateral a + unrealized_pnl a mark) = collateral a + unrealized_pnl a mark"
    using assms unrealized_pnl_in_i64[of a mark] by (intro i128.sat_id) (auto simp: in_i64_def)
  then show ?thesis by (simp add: free_collateral_def Let_def)
qed

lemma withdrawal_exact:
  assumes "in_i64 (collateral a)" "0 \<le> mark" "0 \<le> bps" "0 \<le> amount" "amount \<le> free_collateral a mark bps"
  shows "in_i64 (collateral a - amount)"
    and "0 \<le> free_collateral (a\<lparr>collateral := collateral a - amount\<rparr>) mark bps"
    and "amount \<le> collateral a + unrealized_pnl a mark - initial_margin_requirement_at a mark bps"
proof -
  let ?x = "collateral a + unrealized_pnl a mark - initial_margin_requirement_at a mark bps"
  have "amount \<le> sat_i64 ?x" using assms by (simp add: free_collateral_eq)
  then show le: "amount \<le> ?x" using assms(4) by (auto simp: sat_def split: if_splits)
  have up: "unrealized_pnl a mark \<le> i64_max"
    using unrealized_pnl_in_i64[of a mark] unfolding in_i64_def by simp
  then show ok: "in_i64 (collateral a - amount)"
    using le im_req_nonneg[OF assms(2,3), of a] assms(1,4) by (simp add: in_i64_def)
  show "0 \<le> free_collateral (a\<lparr>collateral := collateral a - amount\<rparr>) mark bps"
    using ok le by (simp add: free_collateral_eq i64.sat_nonneg del: sat_i64_eq)
qed

text \<open>The same without a mark: profit counts for nothing and the requirement is at the entry price.\<close>

lemma withdrawal_at_entry:
  assumes "account_ok a" "0 \<le> bps" "0 \<le> amount"
    and "amount \<le> sat_i64 (collateral a - initial_margin_requirement a bps)"
  shows "in_i64 (collateral a - amount) \<and>
    0 \<le> sat_i64 (collateral a - amount - initial_margin_requirement (a\<lparr>collateral := collateral a - amount\<rparr>) bps)"
proof -
  have im: "0 \<le> initial_margin_requirement a bps"
    using im_req_nonneg[of "avg_entry a" bps a] account_okD(2)[OF assms(1)] assms(2)
    by (simp add: initial_margin_requirement_def in_u64_def)
  have same: "initial_margin_requirement (a\<lparr>collateral := collateral a - amount\<rparr>) bps = initial_margin_requirement a bps"
    by (simp add: initial_margin_requirement_def)
  have "amount \<le> collateral a - initial_margin_requirement a bps"
    using assms(3,4) by (auto simp: sat_def split: if_splits)
  then show ?thesis
    using im account_okD(3)[OF assms(1)] assms(3) same by (auto simp: in_i64_def intro!: i64.sat_nonneg)
qed

section \<open>Properties\<close>

text \<open>The mark-to-market value of a position over unbounded integers.\<close>

definition position_value :: "account \<Rightarrow> mark_price \<Rightarrow> int" where
  "position_value a m = (m - avg_entry a) * position_size a"

lemma apply_fill_error:
  assumes "account_ok a" "in_u64 p" "in_u64 q" "0 < q"
    and "in_i64 (position_size a + side_sign sd * q)"
    and "\<bar>position_size a * (p - avg_entry a)\<bar> \<le> i64_max"
  shows "let err = snd (apply_fill a p q sd) + position_value (fst (apply_fill a p q sd)) m
            - (position_value a m + side_sign sd * q * (m - p))
    in 0 \<le> side_sign sd * err \<and> side_sign sd * err < max 1 \<bar>position_size (fst (apply_fill a p q sd))\<bar>
      \<and> (sgn (position_size a) \<noteq> side_sign sd \<longrightarrow> err = 0)"
proof (cases rule: fill_direction_cases[of a _ sd])
  case open_flat
  then show ?thesis using apply_fill_open[of a q p sd] assms by (simp add: position_value_def)
next
  case increase
  let ?n = "\<bar>position_size a\<bar>" and ?x = "mean_entry \<bar>position_size a\<bar> (avg_entry a) q p"
  have n0: "0 < ?n" using increase by simp
  have r: "0 \<le> ?n * avg_entry a + q * p - (?n + q) * ?x" "?n * avg_entry a + q * p - (?n + q) * ?x < ?n + q"
    using mean_entry_rounding[OF n0, of q] assms(4) by simp_all
  have s: "position_size a = side_sign sd * ?n" using sgn_mult_abs[of "position_size a"] increase(2) by simp
  have abs: "\<bar>position_size a + side_sign sd * q\<bar> = ?n + q"
    using s assms(4) n0 by (cases sd) auto
  have err: "side_sign sd * ((m - ?x) * (position_size a + side_sign sd * q)
      - ((m - avg_entry a) * position_size a + side_sign sd * q * (m - p)))
    = ?n * avg_entry a + q * p - (?n + q) * ?x"
    by (subst (1 3) s) (cases sd; simp add: algebra_simps)
  show ?thesis
    using apply_fill_increase[OF assms(1) increase(2) assms(3,2,5)] r err abs n0 assms(4) increase(2)
    by (simp add: position_value_def)
next
  case reduce
  let ?s = "position_size a"
  have s: "?s = - side_sign sd * \<bar>?s\<bar>" using sgn_mult_abs[of ?s] reduce(2) by (simp add: mult.commute)
  have "sgn ?s * min \<bar>?s\<bar> q * (p - avg_entry a)
      + (m - (if q \<le> \<bar>?s\<bar> then avg_entry a else p)) * (?s + side_sign sd * q)
    = (m - avg_entry a) * ?s + side_sign sd * q * (m - p)"
  proof (cases "q \<le> \<bar>?s\<bar>")
    case True
    then show ?thesis using reduce(2) by (simp add: algebra_simps)
  next
    case False
    then have min: "min \<bar>?s\<bar> q = \<bar>?s\<bar>" by simp
    have "sgn ?s * \<bar>?s\<bar> = ?s" by (rule sgn_mult_abs)
    with False min show ?thesis by (simp add: algebra_simps)
  qed
  then show ?thesis
    using apply_fill_reduce_fst[OF assms(1) reduce(2) assms(4,3,2,5)]
      apply_fill_reduce_realized[OF assms(1) reduce(2) assms(4,6)]
    by (simp add: position_value_def case_prod_beta)
qed

text \<open>C32: a fill is value-preserving accounting. At every mark, realized profit plus the value of
  the new position equals the value of the old position plus what trading \<open>q\<close> contracts at price
  \<open>p\<close> is worth, \<open>\<plusminus> q * (mark - p)\<close>. This is exact for opening, reducing, closing and
  flipping; when a position is increased, the truncated mean entry price favours the long side by
  less than one minor unit per contract of the new position.\<close>

theorem apply_fill_equity:
  assumes "account_ok a" "in_u64 p" "in_u64 q" "0 < q"
    and "in_i64 (position_size a + side_sign sd * q)"
    and "\<bar>position_size a * (p - avg_entry a)\<bar> \<le> i64_max"
  shows "(case apply_fill a p q sd of (a', realized) \<Rightarrow>
    let err = realized + position_value a' m - (position_value a m + side_sign sd * q * (m - p))
    in 0 \<le> side_sign sd * err \<and> side_sign sd * err < max 1 \<bar>position_size a'\<bar>
      \<and> (sgn (position_size a) \<noteq> side_sign sd \<longrightarrow> err = 0))"
  using apply_fill_error[OF assms, of m] by (simp add: case_prod_beta)

theorem apply_fill_equity_witness:
  "case apply_fill \<lparr>acct_id = 1, position_size = 10, avg_entry = 100, collateral = 0\<rparr> 120 15 Sell of
     (a', realized) \<Rightarrow> realized = 200 \<and> position_size a' = - 5 \<and> avg_entry a' = 120
       \<and> realized + position_value a' 90
         = position_value \<lparr>acct_id = 1, position_size = 10, avg_entry = 100, collateral = 0\<rparr> 90 - 15 * (90 - 120)"
  using apply_fill_equity[of "\<lparr>acct_id = 1, position_size = 10, avg_entry = 100, collateral = 0\<rparr>" 120 15 Sell 90]
  by (simp add: account_ok_def in_i64_def in_u64_def apply_fill_def Let_def sat_def)

text \<open>Position and entry price. A fill keeps the account well-formed, changes neither
  its id nor its collateral, moves the position by the signed quantity, and sets the entry price to the
  fill price when opening or flipping, keeps it when reducing or closing, and puts
  it between the old entry price and the fill price when increasing.\<close>

theorem apply_fill_basis:
  assumes "account_ok a" "in_u64 p" "in_u64 q" "0 < q"
    and "in_i64 (position_size a + side_sign sd * q)"
  shows "(let a' = fst (apply_fill a p q sd)
    in account_ok a' \<and> acct_id a' = acct_id a \<and> collateral a' = collateral a
      \<and> position_size a' = position_size a + side_sign sd * q
      \<and> (position_size a = 0 \<longrightarrow> avg_entry a' = p)
      \<and> (sgn (position_size a) = side_sign sd \<longrightarrow>
           min (avg_entry a) p \<le> avg_entry a' \<and> avg_entry a' \<le> max (avg_entry a) p)
      \<and> (sgn (position_size a) = - side_sign sd \<longrightarrow>
           avg_entry a' = (if q \<le> \<bar>position_size a\<bar> then avg_entry a else p)))"
proof -
  have base: "account_ok (fst (apply_fill a p q sd))"
    "position_size (fst (apply_fill a p q sd)) = position_size a + side_sign sd * q"
    using apply_fill_account_ok[OF assms(1)] apply_fill_position[OF assms(3)] assms(5) by auto
  have ss: "side_sign sd \<noteq> 0" "side_sign sd \<noteq> - side_sign sd" using side_sign_cases[of sd] by auto
  show ?thesis
  proof (cases rule: fill_direction_cases[of a _ sd])
    case open_flat
    then show ?thesis using base apply_fill_open[of a q p sd] assms ss by (simp add: Let_def)
  next
    case increase
    then have "0 < \<bar>position_size a\<bar>" by simp
    then show ?thesis
      using mean_entry_bounds[of "\<bar>position_size a\<bar>" q "avg_entry a" p] base assms(4) increase ss
        apply_fill_increase[OF assms(1) increase(2) assms(3,2,5)] by (simp add: Let_def)
  next
    case reduce
    then show ?thesis
      using base apply_fill_reduce_fst[OF assms(1) reduce(2) assms(4,3,2,5)] ss by (simp add: Let_def)
  qed
qed

theorem apply_fill_basis_witness:
  "avg_entry (fst (apply_fill \<lparr>acct_id = 1, position_size = 10, avg_entry = 100, collateral = 0\<rparr> 121 10 Buy)) = 110
   \<and> avg_entry (fst (apply_fill \<lparr>acct_id = 1, position_size = 10, avg_entry = 100, collateral = 0\<rparr> 121 10 Buy)) \<le> 121"
  using apply_fill_basis[of "\<lparr>acct_id = 1, position_size = 10, avg_entry = 100, collateral = 0\<rparr>" 121 10 Buy]
  by (simp add: account_ok_def in_i64_def in_u64_def apply_fill_def Let_def sat_def sdiv_nonneg)

end
