(* ===== verification/Vault.thy ===== *)
theory Vault
  imports Rust_Int
begin

text \<open>
  The vault crate (\<open>crates/vault\<close>): share/asset conversion (\<open>compute.rs\<close>) and the pooled vault
  (\<open>state.rs\<close>). Errors are values of the two error types of \<open>types.rs\<close>, in the left summand. The step relation
  \<open>vault_step\<close> closes the operations under arbitrary sequences; the
  properties compare share prices by cross-multiplication.
\<close>

section \<open>Types and conversions\<close>

record vault_params =
  min_deposit :: int

definition SHARE_PRICE_BPS_SCALE :: int where "SHARE_PRICE_BPS_SCALE = 10000"
definition production_default :: vault_params where "production_default = \<lparr>min_deposit = 100\<rparr>"
definition permissive :: vault_params where "permissive = \<lparr>min_deposit = 0\<rparr>"

datatype deposit_error =
    NonPositiveAssets int
  | BelowMinimum int int
  | DepositInsolventVault int int
  | SharesRoundToZero int

datatype withdraw_error =
    ZeroShares
  | InsufficientShares int int
  | WithdrawInsolventVault int int

record deposit_result =
  shares_minted :: int
  dep_total_shares :: int
  dep_total_assets :: int

record withdraw_result =
  assets_returned :: int
  wd_total_shares :: int
  wd_total_assets :: int

definition assets_to_shares :: "int \<Rightarrow> int \<Rightarrow> int \<Rightarrow> int option" where
  "assets_to_shares assets tshares tassets =
     (if assets \<le> 0 then None
      else if tshares = 0 then Some (min assets u64_max)
      else if tassets \<le> 0 then None
      else let raw = sat_i128 (assets * tshares) sdiv tassets
           in if raw < 0 then None else Some (min raw u64_max))"

definition shares_to_assets :: "int \<Rightarrow> int \<Rightarrow> int \<Rightarrow> int option" where
  "shares_to_assets shares tshares tassets =
     (if shares = 0 \<or> tshares = 0 \<or> tassets \<le> 0 then None
      else let raw = sat_i128 (shares * tassets) sdiv tshares
           in if in_i64 raw then Some raw else None)"

definition share_price_bps :: "int \<Rightarrow> int \<Rightarrow> int option" where
  "share_price_bps tshares tassets =
     (if tshares = 0 then Some SHARE_PRICE_BPS_SCALE
      else if tassets \<le> 0 then None
      else let raw = sat_i128 (tassets * SHARE_PRICE_BPS_SCALE) sdiv tshares
           in if in_i64 raw then Some raw else None)"

section \<open>The vault\<close>

record vault_state =
  v_params :: vault_params
  total_shares :: int
  total_assets :: int

definition new_vault :: "vault_params \<Rightarrow> vault_state" where
  "new_vault ps = \<lparr>v_params = ps, total_shares = 0, total_assets = 0\<rparr>"

definition restore_vault :: "vault_params \<Rightarrow> int \<Rightarrow> int \<Rightarrow> vault_state" where
  "restore_vault ps tshares tassets = \<lparr>v_params = ps, total_shares = tshares, total_assets = tassets\<rparr>"

definition vault_share_price_bps :: "vault_state \<Rightarrow> int option" where
  "vault_share_price_bps v = share_price_bps (total_shares v) (total_assets v)"

definition is_insolvent :: "vault_state \<Rightarrow> bool" where
  "is_insolvent v \<longleftrightarrow> total_shares v > 0 \<and> total_assets v \<le> 0"

definition vault_deposit :: "vault_state \<Rightarrow> int \<Rightarrow> vault_state \<times> (deposit_error + deposit_result)" where
  "vault_deposit v assets =
     (if assets \<le> 0 then (v, Inl (NonPositiveAssets assets))
      else if assets < min_deposit (v_params v) then (v, Inl (BelowMinimum assets (min_deposit (v_params v))))
      else if is_insolvent v then (v, Inl (DepositInsolventVault (total_assets v) (total_shares v)))
      else case assets_to_shares assets (total_shares v) (total_assets v) of
          None \<Rightarrow> (v, Inl (DepositInsolventVault (total_assets v) (total_shares v)))
        | Some minted \<Rightarrow>
            if minted = 0 then (v, Inl (SharesRoundToZero assets))
            else let v' = v\<lparr>total_shares := sat_u64 (total_shares v + minted),
                            total_assets := sat_i64 (total_assets v + assets)\<rparr>
                 in (v', Inr \<lparr>shares_minted = minted, dep_total_shares = total_shares v',
                              dep_total_assets = total_assets v'\<rparr>))"

definition vault_withdraw :: "vault_state \<Rightarrow> int \<Rightarrow> vault_state \<times> (withdraw_error + withdraw_result)" where
  "vault_withdraw v shares =
     (if shares = 0 then (v, Inl ZeroShares)
      else if shares > total_shares v then (v, Inl (InsufficientShares shares (total_shares v)))
      else if is_insolvent v then (v, Inl (WithdrawInsolventVault (total_assets v) (total_shares v)))
      else case shares_to_assets shares (total_shares v) (total_assets v) of
          None \<Rightarrow> (v, Inl (WithdrawInsolventVault (total_assets v) (total_shares v)))
        | Some returned \<Rightarrow>
            let v' = v\<lparr>total_shares := total_shares v - shares,
                       total_assets := sat_i64 (total_assets v - returned)\<rparr>
            in (v', Inr \<lparr>assets_returned = returned, wd_total_shares = total_shares v',
                         wd_total_assets = total_assets v'\<rparr>))"

definition mark_to_market :: "vault_state \<Rightarrow> int \<Rightarrow> vault_state" where
  "mark_to_market v new_total_assets = v\<lparr>total_assets := new_total_assets\<rparr>"

section \<open>Conversions are floors\<close>

definition vault_ok :: "vault_state \<Rightarrow> bool" where
  "vault_ok v \<longleftrightarrow> in_u64 (total_shares v) \<and> in_i64 (total_assets v)"

lemma asset_share_product:
  assumes "in_i64 x" "0 < x" "in_u64 y"
  shows "sat_i128 (x * y) = x * y"
proof (rule i128.sat_id)
  have "x * y \<le> 9223372036854775807 * 18446744073709551615"
    using assms by (intro mult_mono) (auto simp: in_i64_def in_u64_def)
  then show "x * y \<le> i128_max" by simp
  have "0 \<le> x * y" using assms by (simp add: in_u64_def)
  then show "i128_min \<le> x * y" by simp
qed

lemma assets_to_shares_floor:
  assumes "in_i64 a" "0 < a" "in_u64 s" "0 < s" "in_i64 t" "0 < t"
  shows "assets_to_shares a s t = Some (min (a * s div t) u64_max)"
proof -
  have "0 \<le> a * s div t" using assms by (simp add: pos_imp_zdiv_nonneg_iff)
  then show ?thesis
    using assms asset_share_product[of a s] by (simp add: assets_to_shares_def Let_def sdiv_nonneg)
qed

lemma shares_to_assets_floor:
  assumes "in_i64 t" "0 < t" "in_u64 s" "0 < x" "x \<le> s"
  shows "shares_to_assets x s t = Some (x * t div s)" "0 \<le> x * t div s" "x * t div s \<le> t"
proof -
  have x: "in_u64 x" using assms by (simp add: in_u64_def)
  have nn: "0 \<le> x * t" using assms by simp
  then show ge: "0 \<le> x * t div s" using assms by (simp add: pos_imp_zdiv_nonneg_iff)
  have "x * t \<le> s * t" using assms by (simp add: mult_right_mono)
  then have "x * t div s \<le> s * t div s" using assms by (intro zdiv_mono1) auto
  then show le: "x * t div s \<le> t" using assms by simp
  have "in_i64 (x * t div s)" using ge le assms(1) by (simp add: in_i64_def)
  then show "shares_to_assets x s t = Some (x * t div s)"
    using assms asset_share_product[OF assms(1,2) x] nn
    by (simp add: shares_to_assets_def Let_def sdiv_nonneg mult.commute)
qed

lemma floor_mult_le: "0 < t \<Longrightarrow> (x div t) * t \<le> (x::int)"
  using pos_mod_sign[of t x] minus_div_mult_eq_mod[of x t] by linarith

lemma vault_deposit_cases:
  assumes ok: "vault_ok v" and a: "in_i64 assets" and r: "vault_deposit v assets = (v', Inr d)"
  shows "0 < assets" "min_deposit (v_params v) \<le> assets" "\<not> is_insolvent v" "0 < shares_minted d"
    and "shares_minted d = (if total_shares v = 0 then assets
           else min (assets * total_shares v div total_assets v) u64_max)"
    and "v' = v\<lparr>total_shares := sat_u64 (total_shares v + shares_minted d),
                 total_assets := sat_i64 (total_assets v + assets)\<rparr>"
proof -
  have s: "0 \<le> total_shares v" "in_u64 (total_shares v)" "in_i64 (total_assets v)"
    using ok by (auto simp: vault_ok_def in_u64_def)
  have g: "0 < assets" "min_deposit (v_params v) \<le> assets" "\<not> is_insolvent v"
    using r by (auto simp: vault_deposit_def split: if_splits)
  have conv: "assets_to_shares assets (total_shares v) (total_assets v)
    = Some (if total_shares v = 0 then assets else min (assets * total_shares v div total_assets v) u64_max)"
  proof (cases "total_shares v = 0")
    case True
    then show ?thesis using g(1) a by (simp add: assets_to_shares_def in_i64_def)
  next
    case False
    then have "0 < total_assets v" "0 < total_shares v" using g(3) s by (auto simp: is_insolvent_def)
    then show ?thesis using assets_to_shares_floor[OF a g(1) s(2)] s False by simp
  qed
  have "(if total_shares v = 0 then assets else min (assets * total_shares v div total_assets v) u64_max) \<ge> 0"
    using g s by (auto simp: is_insolvent_def intro!: div_int_pos_iff[THEN iffD2])
  with r g conv show "0 < shares_minted d"
    and "shares_minted d = (if total_shares v = 0 then assets
           else min (assets * total_shares v div total_assets v) u64_max)"
    and "v' = v\<lparr>total_shares := sat_u64 (total_shares v + shares_minted d),
                 total_assets := sat_i64 (total_assets v + assets)\<rparr>"
    by (auto simp: vault_deposit_def Let_def split: if_splits)
  show "0 < assets" "min_deposit (v_params v) \<le> assets" "\<not> is_insolvent v" using g by simp_all
qed

lemma vault_withdraw_cases:
  assumes ok: "vault_ok v" and x: "in_u64 shares" and r: "vault_withdraw v shares = (v', Inr d)"
  shows "0 < shares" "shares \<le> total_shares v" "0 < total_assets v"
    and "assets_returned d = shares * total_assets v div total_shares v"
    and "0 \<le> assets_returned d" "assets_returned d \<le> total_assets v"
    and "v' = v\<lparr>total_shares := total_shares v - shares, total_assets := total_assets v - assets_returned d\<rparr>"
proof -
  have g: "0 < shares" "shares \<le> total_shares v" "\<not> is_insolvent v"
    using r x by (auto simp: vault_withdraw_def in_u64_def split: if_splits)
  then show "0 < shares" "shares \<le> total_shares v" by simp_all
  from g show ta: "0 < total_assets v" by (auto simp: is_insolvent_def)
  have in_t: "in_i64 (total_assets v)" "in_u64 (total_shares v)" using ok by (simp_all add: vault_ok_def)
  note fl = shares_to_assets_floor[OF in_t(1) ta in_t(2) g(1,2)]
  then have d: "assets_returned d = shares * total_assets v div total_shares v"
    "v' = v\<lparr>total_shares := total_shares v - shares, total_assets := sat_i64 (total_assets v - assets_returned d)\<rparr>"
    using r g by (auto simp: vault_withdraw_def Let_def)
  moreover have "in_i64 (total_assets v - assets_returned d)"
    using fl(2,3) d(1) in_t(1) by (simp add: in_i64_def)
  ultimately show "assets_returned d = shares * total_assets v div total_shares v"
    "0 \<le> assets_returned d" "assets_returned d \<le> total_assets v"
    "v' = v\<lparr>total_shares := total_shares v - shares, total_assets := total_assets v - assets_returned d\<rparr>"
    using fl by simp_all
qed

lemma vault_error_unchanged:
  "vault_deposit v a = (v', Inl e) \<Longrightarrow> v' = v" "vault_withdraw v x = (v', Inl e') \<Longrightarrow> v' = v"
  by (auto simp: vault_deposit_def vault_withdraw_def Let_def split: if_splits option.splits)

section \<open>Sequences of operations\<close>

text \<open>One successful deposit or withdrawal of a vault that stays in use (shares outstanding
  before and after) and whose totals do not saturate.\<close>

inductive vault_step :: "vault_state \<Rightarrow> vault_state \<Rightarrow> bool" where
  deposit: "vault_deposit v a = (v', Inr d) \<Longrightarrow> in_i64 a \<Longrightarrow>
    total_shares v + shares_minted d \<le> u64_max \<Longrightarrow> total_assets v + a \<le> i64_max \<Longrightarrow>
    0 < total_shares v \<Longrightarrow> vault_step v v'"
| withdraw: "vault_withdraw v x = (v', Inr w) \<Longrightarrow> in_u64 x \<Longrightarrow> 0 < total_shares v' \<Longrightarrow> vault_step v v'"

definition solvent :: "vault_state \<Rightarrow> bool" where
  "solvent v \<longleftrightarrow> vault_ok v \<and> 0 < total_shares v \<and> 0 < total_assets v"

lemma deposit_step_exact:
  assumes "solvent v" "in_i64 a" "vault_deposit v a = (v', Inr d)"
    and "total_shares v + shares_minted d \<le> u64_max" "total_assets v + a \<le> i64_max"
  shows "v' = v\<lparr>total_shares := total_shares v + shares_minted d, total_assets := total_assets v + a\<rparr>"
    and "shares_minted d * total_assets v \<le> a * total_shares v" and "0 < a" and "0 < shares_minted d"
proof -
  have ok: "vault_ok v" "0 < total_shares v" "0 < total_assets v" using assms(1) by (simp_all add: solvent_def)
  note c = vault_deposit_cases[OF ok(1) assms(2,3)]
  then show "0 < a" "0 < shares_minted d" by simp_all
  have "in_u64 (total_shares v + shares_minted d)" "in_i64 (total_assets v + a)"
    using ok c(1,4) assms(4,5) by (simp_all add: in_u64_def in_i64_def)
  then show "v' = v\<lparr>total_shares := total_shares v + shares_minted d, total_assets := total_assets v + a\<rparr>"
    using c(6) by simp
  have "shares_minted d \<le> a * total_shares v div total_assets v" using c(5) ok(2) by simp
  then have "shares_minted d * total_assets v \<le> (a * total_shares v div total_assets v) * total_assets v"
    using ok(3) by (simp add: mult_right_mono)
  then show "shares_minted d * total_assets v \<le> a * total_shares v"
    using floor_mult_le[OF ok(3), of "a * total_shares v"] by linarith
qed

lemma withdraw_step_exact:
  assumes "vault_ok v" "in_u64 x" "vault_withdraw v x = (v', Inr w)"
  shows "assets_returned w * total_shares v \<le> x * total_assets v"
proof -
  note c = vault_withdraw_cases[OF assms]
  have "0 < total_shares v" using c(1,2) by simp
  then show ?thesis using c(4) floor_mult_le[of "total_shares v" "x * total_assets v"] by simp
qed

lemma vault_step_price:
  assumes "vault_step v v'" "solvent v"
  shows "solvent v'" "total_assets v * total_shares v' \<le> total_assets v' * total_shares v"
proof -
  have "solvent v' \<and> total_assets v * total_shares v' \<le> total_assets v' * total_shares v"
    using assms
  proof (induction rule: vault_step.induct)
    case (deposit v a v' d)
    note e = deposit_step_exact[OF deposit(6,2,1,3,4)]
    show ?case using e deposit(3,4,6)
      by (simp add: solvent_def vault_ok_def in_u64_def in_i64_def algebra_simps)
  next
    case (withdraw v x v' w)
    then have ok: "vault_ok v" by (simp add: solvent_def)
    note c = vault_withdraw_cases[OF ok withdraw(2,1)]
    note e = withdraw_step_exact[OF ok withdraw(2,1)]
    have lt: "x < total_shares v" using withdraw(3) c(7) by simp
    have "assets_returned w < total_assets v"
    proof -
      have "assets_returned w * total_shares v < total_shares v * total_assets v"
        using e lt c(3) mult_strict_right_mono[OF lt c(3)] by linarith
      then show ?thesis using c(1,2) by (simp add: mult.commute)
    qed
    then show ?case using c e ok lt
      by (simp add: solvent_def vault_ok_def in_u64_def in_i64_def algebra_simps)
  qed
  then show "solvent v'" "total_assets v * total_shares v' \<le> total_assets v' * total_shares v" by simp_all
qed

lemma cross_mult_trans:
  fixes a b c d e f :: int
  assumes "a * d \<le> c * b" "c * f \<le> e * d" "0 < d" "0 < b" "0 < f"
  shows "a * f \<le> e * b"
proof -
  have "(a * d) * f \<le> (c * b) * f" using assms by (simp add: mult_right_mono)
  also have "\<dots> = (c * f) * b" by simp
  also have "\<dots> \<le> (e * d) * b" using assms by (simp add: mult_right_mono)
  finally have "d * (a * f) \<le> d * (e * b)" by (simp add: algebra_simps)
  then show ?thesis using assms(3) by simp
qed

section \<open>Properties\<close>

text \<open>C9: no dilution. Along any sequence of deposits and withdrawals by anyone, the vault stays
  solvent and the assets behind each share never decrease (compared by cross-multiplication): rounding always
  favours the holders who stay.\<close>

theorem vault_no_dilution:
  assumes "vault_step\<^sup>*\<^sup>* v w" "solvent v"
  shows "solvent w \<and> total_assets v * total_shares w \<le> total_assets w * total_shares v"
  using assms
proof (induction rule: rtranclp_induct)
  case (step u w)
  then have u: "solvent u" "total_assets v * total_shares u \<le> total_assets u * total_shares v" by simp_all
  note p = vault_step_price[OF step(2) u(1)]
  have "0 < total_shares u" "0 < total_shares v" "0 < total_shares w"
    using u(1) p(1) step.prems by (simp_all add: solvent_def)
  then show ?case using p cross_mult_trans[OF u(2) p(2)] by simp
qed simp

theorem vault_no_dilution_witness:
  "vault_step\<^sup>*\<^sup>* (restore_vault permissive 100 150) (restore_vault permissive 106 160)
   \<and> solvent (restore_vault permissive 106 160) \<and> 150 * 106 \<le> 160 * (100 :: int)"
proof -
  have "vault_step (restore_vault permissive 100 150) (restore_vault permissive 106 160)"
    by (rule vault_step.deposit[where a = 10 and d = "\<lparr>shares_minted = 6, dep_total_shares = 106, dep_total_assets = 160\<rparr>"])
      (simp_all add: vault_deposit_def restore_vault_def permissive_def is_insolvent_def
        assets_to_shares_def in_i64_def sat_def sdiv_nonneg)
  then have s: "vault_step\<^sup>*\<^sup>* (restore_vault permissive 100 150) (restore_vault permissive 106 160)" by simp
  have "solvent (restore_vault permissive 100 150)"
    by (simp add: solvent_def restore_vault_def vault_ok_def in_u64_def in_i64_def)
  from vault_no_dilution[OF s this] s show ?thesis by (simp add: restore_vault_def)
qed

text \<open>No profit from a round trip. Whoever deposits into a solvent vault and at once withdraws
  the minted shares gets at most the deposit back.\<close>

theorem vault_round_trip:
  assumes "solvent v" "in_i64 a"
    and "vault_deposit v a = (v1, Inr d)" and "vault_withdraw v1 (shares_minted d) = (v2, Inr w)"
    and "total_shares v + shares_minted d \<le> u64_max" "total_assets v + a \<le> i64_max"
  shows "assets_returned w \<le> a \<and> total_shares v2 = total_shares v \<and> total_assets v \<le> total_assets v2"
proof -
  note e = deposit_step_exact[OF assms(1-3,5,6)]
  let ?S = "total_shares v" and ?A = "total_assets v" and ?m = "shares_minted d"
  have pos: "0 < ?S" "0 < ?A" "vault_ok v" using assms(1) by (simp_all add: solvent_def)
  have ok1: "vault_ok v1" using e(1,3,4) pos assms(5,6)
    by (simp add: vault_ok_def in_u64_def in_i64_def)
  have m: "in_u64 ?m" using e(4) assms(5) pos by (simp add: in_u64_def)
  note c = vault_withdraw_cases[OF ok1 m assms(4)]
  have "assets_returned w * (?S + ?m) \<le> ?m * (?A + a)"
    using withdraw_step_exact[OF ok1 m assms(4)] e(1) by simp
  also have "\<dots> \<le> a * (?S + ?m)" using e(2) by (simp add: algebra_simps)
  finally have "assets_returned w \<le> a" using pos e(4) by simp
  then show ?thesis using c(7) e(1) by simp
qed

theorem vault_round_trip_witness:
  "let v = restore_vault permissive 100 150; (v1, d) = vault_deposit v 10
   in (case d of Inr d \<Rightarrow> shares_minted d = 6
        \<and> (case snd (vault_withdraw v1 6) of Inr w \<Rightarrow> assets_returned w = 9 \<and> assets_returned w \<le> 10 | Inl e \<Rightarrow> False)
      | Inl e \<Rightarrow> False)"
proof -
  let ?v = "restore_vault permissive 100 150" and ?v1 = "restore_vault permissive 106 160"
  let ?d = "\<lparr>shares_minted = 6, dep_total_shares = 106, dep_total_assets = 160\<rparr>"
  let ?w = "\<lparr>assets_returned = 9, wd_total_shares = 100, wd_total_assets = 151\<rparr>"
  have d: "vault_deposit ?v 10 = (?v1, Inr ?d)"
    by (simp add: vault_deposit_def restore_vault_def permissive_def is_insolvent_def
        assets_to_shares_def sat_def sdiv_nonneg)
  have w: "vault_withdraw ?v1 6 = (restore_vault permissive 100 151, Inr ?w)"
    by (simp add: vault_withdraw_def restore_vault_def permissive_def is_insolvent_def
        shares_to_assets_def sat_def sdiv_nonneg in_i64_def)
  have "assets_returned ?w \<le> 10"
    using vault_round_trip[of ?v 10 ?v1 ?d "restore_vault permissive 100 151" ?w] d w
    by (simp add: solvent_def restore_vault_def vault_ok_def in_u64_def in_i64_def)
  with d w show ?thesis by simp
qed

text \<open>Which requests are accepted. On a well-formed vault a deposit succeeds exactly when it is
  positive, reaches the minimum, the vault is not insolvent and the deposit is worth at least one share; a withdrawal
  succeeds exactly when it is of some but not too many shares of a solvent vault. A rejected request
  changes nothing, and withdrawing every share pays out every asset.\<close>

theorem vault_accepts:
  assumes "vault_ok v" "in_i64 a" "in_u64 x"
  shows "(isl (snd (vault_deposit v a)) \<longleftrightarrow>
        \<not> (0 < a \<and> min_deposit (v_params v) \<le> a
           \<and> (total_shares v = 0 \<or> 0 < total_assets v \<and> total_assets v \<le> a * total_shares v)))
    \<and> (isl (snd (vault_withdraw v x)) \<longleftrightarrow> \<not> (0 < x \<and> x \<le> total_shares v \<and> 0 < total_assets v))
    \<and> (isl (snd (vault_deposit v a)) \<longrightarrow> fst (vault_deposit v a) = v)
    \<and> (isl (snd (vault_withdraw v x)) \<longrightarrow> fst (vault_withdraw v x) = v)
    \<and> (\<forall>v' w. vault_withdraw v (total_shares v) = (v', Inr w) \<longrightarrow>
         assets_returned w = total_assets v \<and> total_shares v' = 0 \<and> total_assets v' = 0)"
proof (intro conjI allI impI)
  have s: "0 \<le> total_shares v" "in_u64 (total_shares v)" "in_i64 (total_assets v)"
    using assms(1) by (auto simp: vault_ok_def in_u64_def)
  show "isl (snd (vault_deposit v a)) \<longleftrightarrow>
        \<not> (0 < a \<and> min_deposit (v_params v) \<le> a
           \<and> (total_shares v = 0 \<or> 0 < total_assets v \<and> total_assets v \<le> a * total_shares v))"
  proof (cases "0 < a \<and> 0 < total_shares v \<and> 0 < total_assets v")
    case True
    then have "assets_to_shares a (total_shares v) (total_assets v)
        = Some (min (a * total_shares v div total_assets v) u64_max)"
      using assets_to_shares_floor assms(2) s by simp
    moreover have "a * total_shares v div total_assets v = 0 \<longleftrightarrow> \<not> total_assets v \<le> a * total_shares v"
      using True by (auto simp: zdiv_eq_0_iff)
    ultimately show ?thesis using True by (auto simp: vault_deposit_def is_insolvent_def Let_def min_def)
  next
    case False
    then show ?thesis using assms(2) s(1)
      by (auto simp: vault_deposit_def is_insolvent_def Let_def assets_to_shares_def in_i64_def)
  qed
  show "isl (snd (vault_withdraw v x)) \<longleftrightarrow> \<not> (0 < x \<and> x \<le> total_shares v \<and> 0 < total_assets v)"
  proof (cases "0 < x \<and> x \<le> total_shares v \<and> 0 < total_assets v")
    case True
    then show ?thesis using shares_to_assets_floor(1)[of "total_assets v" "total_shares v" x] s
      by (simp add: vault_withdraw_def is_insolvent_def Let_def)
  next
    case False
    then show ?thesis using assms(3)
      by (auto simp: vault_withdraw_def is_insolvent_def in_u64_def Let_def shares_to_assets_def split: option.splits)
  qed
  show "fst (vault_deposit v a) = v" if "isl (snd (vault_deposit v a))"
    using that vault_error_unchanged(1)[of v a] by (metis isl_def prod.collapse)
  show "fst (vault_withdraw v x) = v" if "isl (snd (vault_withdraw v x))"
    using that vault_error_unchanged(2)[of v x] by (metis isl_def prod.collapse)
  fix v' w
  assume r: "vault_withdraw v (total_shares v) = (v', Inr w)"
  note c = vault_withdraw_cases[OF assms(1) s(2) r]
  show "assets_returned w = total_assets v" "total_shares v' = 0" "total_assets v' = 0"
    using c by auto
qed

theorem vault_accepts_witness:
  "isl (snd (vault_deposit (restore_vault production_default 100 150) 99))
   \<and> \<not> isl (snd (vault_withdraw (restore_vault production_default 100 150) 100))"
  using vault_accepts[of "restore_vault production_default 100 150" 99 100]
  by (simp add: restore_vault_def production_default_def vault_ok_def in_u64_def in_i64_def)

end
