(* ===== verification/Margin.thy ===== *)
theory Margin
  imports Clearing
begin

text \<open>
  The types and the pure computations of the liquidation crate (\<open>crates/liquidation\<close>,
  \<open>types.rs\<close> and \<open>compute.rs\<close>): notional, equity, margin ratio and its
  classification, close orders, fees, and the decomposition of a close. \<open>margin_health\<close> is ordered from
  \<open>Underwater\<close> to \<open>Safe\<close>.
\<close>

section \<open>Types\<close>

definition liq_MARGIN_SCALE :: int where "liq_MARGIN_SCALE = 10000"

datatype margin_health_class = Safe | AtRisk | Liquidatable | Underwater

fun health_rank :: "margin_health_class \<Rightarrow> nat" where
  "health_rank Underwater = 0"
| "health_rank Liquidatable = 1"
| "health_rank AtRisk = 2"
| "health_rank Safe = 3"

instantiation margin_health_class :: linorder
begin

definition less_eq_margin_health_class :: "margin_health_class \<Rightarrow> margin_health_class \<Rightarrow> bool" where
  "less_eq_margin_health_class x y \<longleftrightarrow> health_rank x \<le> health_rank y"

definition less_margin_health_class :: "margin_health_class \<Rightarrow> margin_health_class \<Rightarrow> bool" where
  "less_margin_health_class x y \<longleftrightarrow> health_rank x < health_rank y"

instance
proof
  fix x y z :: margin_health_class
  show "x \<le> y \<Longrightarrow> y \<le> x \<Longrightarrow> x = y"
    by (cases x; cases y) (simp_all add: less_eq_margin_health_class_def)
qed (auto simp: less_eq_margin_health_class_def less_margin_health_class_def)

end

record account_snapshot =
  snap_account :: account_id
  snap_position_size :: int
  snap_avg_entry :: mark_price
  snap_collateral :: int

record liquidation_params =
  initial_margin_bps :: int
  maintenance_margin_bps :: int
  liquidation_fee_bps :: int

definition liquidation_hyperliquid_default :: liquidation_params where
  "liquidation_hyperliquid_default =
     \<lparr>initial_margin_bps = 1000, maintenance_margin_bps = 200, liquidation_fee_bps = 150\<rparr>"

record close_order_spec =
  co_account :: account_id
  co_side :: side
  co_qty :: qty

record solvent_close =
  sc_fee_to_fund :: int
  residual_to_account :: int

record underwater_close =
  uw_fee_to_fund :: int
  shortfall_to_fund :: int

section \<open>Computations\<close>

definition notional_value :: "account_snapshot \<Rightarrow> mark_price \<Rightarrow> int" where
  "notional_value s mark = sat_u64 (\<bar>snap_position_size s\<bar> * mark)"

definition liq_unrealized_pnl :: "account_snapshot \<Rightarrow> mark_price \<Rightarrow> int" where
  "liq_unrealized_pnl s mark =
     (let diff = mark - snap_avg_entry s;
          pnl = sat_i128 (diff * snap_position_size s)
      in saturate_i128_to_i64 pnl)"

definition account_equity :: "account_snapshot \<Rightarrow> mark_price \<Rightarrow> int" where
  "account_equity s mark = sat_i64 (snap_collateral s + liq_unrealized_pnl s mark)"

definition margin_ratio :: "account_snapshot \<Rightarrow> mark_price \<Rightarrow> int" where
  "margin_ratio s mark =
     (let notional = notional_value s mark
      in if notional = 0 then i64_max
         else let equity = account_equity s mark;
                  scaled = sat_i128 (equity * liq_MARGIN_SCALE);
                  ratio = scaled sdiv notional
              in saturate_i128_to_i64 ratio)"

definition margin_health :: "account_snapshot \<Rightarrow> mark_price \<Rightarrow> liquidation_params \<Rightarrow> margin_health_class" where
  "margin_health s mark params =
     (let ratio = margin_ratio s mark
      in if ratio < 0 then Underwater
         else if ratio < maintenance_margin_bps params then Liquidatable
         else if ratio < initial_margin_bps params then AtRisk
         else Safe)"

definition close_order_spec_of :: "account_snapshot \<Rightarrow> close_order_spec" where
  "close_order_spec_of s =
     \<lparr>co_account = snap_account s,
      co_side = (if snap_position_size s > 0 then Sell else Buy),
      co_qty = \<bar>snap_position_size s\<bar>\<rparr>"

definition liquidation_fee :: "int \<Rightarrow> liquidation_params \<Rightarrow> int" where
  "liquidation_fee closed_notional params =
     (if closed_notional = 0 then 0
      else let scaled = sat_i128 (closed_notional * liquidation_fee_bps params);
               fee = scaled sdiv liq_MARGIN_SCALE
           in saturate_i128_to_i64 fee)"

definition solvent_close_outcome :: "account_snapshot \<Rightarrow> mark_price \<Rightarrow> liquidation_params \<Rightarrow> solvent_close" where
  "solvent_close_outcome s close_price params =
     (let notional = notional_value s close_price;
          fee = liquidation_fee notional params;
          post_close_equity = account_equity s close_price
      in \<lparr>sc_fee_to_fund = fee, residual_to_account = sat_i64 (post_close_equity - fee)\<rparr>)"

definition underwater_close_outcome :: "account_snapshot \<Rightarrow> mark_price \<Rightarrow> liquidation_params \<Rightarrow> underwater_close" where
  "underwater_close_outcome s close_price params =
     (let notional = notional_value s close_price;
          fee = liquidation_fee notional params;
          post_close_equity = account_equity s close_price
      in if post_close_equity > 0
         then \<lparr>uw_fee_to_fund = post_close_equity, shortfall_to_fund = sat_i64 (fee - post_close_equity)\<rparr>
         else \<lparr>uw_fee_to_fund = 0, shortfall_to_fund = sat_i64 (fee - post_close_equity)\<rparr>)"

section \<open>Ranges\<close>

definition snapshot_ok :: "account_snapshot \<Rightarrow> bool" where
  "snapshot_ok s \<longleftrightarrow> in_i64 (snap_position_size s) \<and> in_u64 (snap_avg_entry s) \<and> in_i64 (snap_collateral s)"

definition params_ok :: "liquidation_params \<Rightarrow> bool" where
  "params_ok p \<longleftrightarrow> in_u32 (initial_margin_bps p) \<and> in_u32 (maintenance_margin_bps p)
     \<and> in_u32 (liquidation_fee_bps p)"

lemma params_default_ok [simp]: "params_ok liquidation_hyperliquid_default"
  by (simp add: params_ok_def liquidation_hyperliquid_default_def in_u32_def)

lemma liq_unrealized_pnl_in_i64 [simp]: "in_i64 (liq_unrealized_pnl s mark)"
  by (simp add: liq_unrealized_pnl_def Let_def)

lemma account_equity_in_i64 [simp]: "in_i64 (account_equity s mark)"
  by (simp add: account_equity_def)

lemma notional_in_u64 [simp]: "in_u64 (notional_value s mark)"
  by (simp add: notional_value_def)

lemma notional_pos_iff: "0 < notional_value s mark \<longleftrightarrow> notional_value s mark \<noteq> 0"
  using notional_in_u64[of s mark] by (auto simp: in_u64_def)

lemma fee_in_i64 [simp]: "in_i64 (liquidation_fee n params)"
  by (simp add: liquidation_fee_def Let_def)

lemma fee_nonneg: "0 \<le> n \<Longrightarrow> params_ok params \<Longrightarrow> 0 \<le> liquidation_fee n params"
  by (auto simp: liquidation_fee_def Let_def params_ok_def in_u32_def liq_MARGIN_SCALE_def
      intro!: i64.sat_nonneg sdiv_nonneg_nonneg i128.sat_nonneg simp del: sat_i64_eq)

lemma margin_ratio_eq:
  assumes "notional_value s mark \<noteq> 0"
  shows "margin_ratio s mark = sat_i64 ((account_equity s mark * 10000) sdiv notional_value s mark)"
proof -
  have "sat_i128 (account_equity s mark * liq_MARGIN_SCALE) = account_equity s mark * 10000"
    using account_equity_in_i64[of s mark] unfolding liq_MARGIN_SCALE_def in_i64_def
    by (intro i128.sat_id) linarith+
  then show ?thesis using assms by (simp add: margin_ratio_def Let_def)
qed

text \<open>Comparing a truncated quotient with a bound is comparing the product.\<close>

lemma sdiv_less_iff:
  assumes "0 < n" "0 < (k::int)"
  shows "x sdiv n < k \<longleftrightarrow> x < k * n"
proof (cases "0 \<le> x")
  case True
  then show ?thesis using assms div_less_iff[of n x k] by (simp add: sdiv_nonneg)
next
  case False
  then have "x sdiv n \<le> 0" using assms sdiv_nonpos_nonpos[of x n] by auto
  moreover have "0 < k * n" using assms by simp
  with False have "x < k * n" by linarith
  ultimately show ?thesis using assms by simp
qed

lemma sdiv_negative_iff: "0 < n \<Longrightarrow> x sdiv n < 0 \<longleftrightarrow> x \<le> - (n::int)"
  using sdiv_pos_iff[of n "- x"] by (simp add: sdiv_minus) linarith

lemma sat_i64_less_iff: "in_i64 k \<Longrightarrow> 0 \<le> k \<Longrightarrow> sat_i64 x < k \<longleftrightarrow> x < k"
  by (auto simp: sat_def in_i64_def)

lemma margin_health_cases:
  assumes "params_ok params" "notional_value s mark \<noteq> 0" "0 < maintenance_margin_bps params"
    and "maintenance_margin_bps params \<le> initial_margin_bps params"
  shows "margin_health s mark params =
    (let e = account_equity s mark * 10000; n = notional_value s mark
     in if e \<le> - n then Underwater
        else if e < maintenance_margin_bps params * n then Liquidatable
        else if e < initial_margin_bps params * n then AtRisk else Safe)"
proof -
  have n: "0 < notional_value s mark" using assms(2) notional_pos_iff by simp
  have "in_i64 (maintenance_margin_bps params)" "in_i64 (initial_margin_bps params)"
    using assms(1) by (auto simp: params_ok_def in_u32_def in_i64_def)
  then show ?thesis
    using assms n
    by (simp add: margin_health_def margin_ratio_eq Let_def sat_i64_less_iff sdiv_less_iff sdiv_negative_iff)
qed

lemma margin_health_flat:
  assumes "params_ok params" "notional_value s mark = 0"
  shows "margin_health s mark params = Safe"
  using assms by (simp add: margin_health_def margin_ratio_def params_ok_def in_u32_def)

section \<open>Decomposition of a close\<close>

lemma solvent_close_exact:
  assumes "params_ok params" "liquidation_fee (notional_value s mark) params \<le> account_equity s mark"
  shows "residual_to_account (solvent_close_outcome s mark params)
      = account_equity s mark - liquidation_fee (notional_value s mark) params"
    and "sc_fee_to_fund (solvent_close_outcome s mark params) = liquidation_fee (notional_value s mark) params"
proof -
  have "0 \<le> liquidation_fee (notional_value s mark) params"
    using fee_nonneg notional_in_u64[of s mark] assms(1) by (simp add: in_u64_def)
  then have "in_i64 (account_equity s mark - liquidation_fee (notional_value s mark) params)"
    using assms(2) account_equity_in_i64[of s mark] by (simp add: in_i64_def)
  then show "residual_to_account (solvent_close_outcome s mark params)
      = account_equity s mark - liquidation_fee (notional_value s mark) params"
    by (simp add: solvent_close_outcome_def Let_def)
  show "sc_fee_to_fund (solvent_close_outcome s mark params) = liquidation_fee (notional_value s mark) params"
    by (simp add: solvent_close_outcome_def Let_def)
qed

lemma underwater_close_eqs:
  "uw_fee_to_fund (underwater_close_outcome s mark params) = max 0 (account_equity s mark)"
  "shortfall_to_fund (underwater_close_outcome s mark params)
     = sat_i64 (liquidation_fee (notional_value s mark) params - account_equity s mark)"
  by (auto simp: underwater_close_outcome_def Let_def)

lemma underwater_shortfall_pos:
  assumes "account_equity s mark < liquidation_fee (notional_value s mark) params"
  shows "0 < shortfall_to_fund (underwater_close_outcome s mark params)"
  using assms by (simp add: underwater_close_eqs i64.sat_pos_iff del: sat_i64_eq)

section \<open>Snapshots of accounts\<close>

definition snapshot_of :: "account \<Rightarrow> account_snapshot" where
  "snapshot_of a = \<lparr>snap_account = acct_id a, snap_position_size = position_size a,
     snap_avg_entry = avg_entry a, snap_collateral = collateral a\<rparr>"

lemma snapshot_of_simps [simp]:
  "snap_account (snapshot_of a) = acct_id a" "snap_position_size (snapshot_of a) = position_size a"
  "snap_avg_entry (snapshot_of a) = avg_entry a" "snap_collateral (snapshot_of a) = collateral a"
  by (simp_all add: snapshot_of_def)

lemma unrealized_pnl_snapshot: "liq_unrealized_pnl (snapshot_of a) mark = unrealized_pnl a mark"
  by (simp add: liq_unrealized_pnl_def unrealized_pnl_def)

lemma snapshot_of_ok: "account_ok a \<Longrightarrow> snapshot_ok (snapshot_of a)"
  by (simp add: account_ok_def snapshot_ok_def)

section \<open>Properties\<close>



text \<open>The class of a slightly negative equity. The documentation of the ratio and of
  \<open>Underwater\<close> says that negative equity gives a negative ratio; the truncating
  division reports ratio \<open>0\<close> and class \<open>Liquidatable\<close> as long as the deficit is below one
  basis point of the notional.\<close>

theorem small_deficit_is_liquidatable:
  "let s = \<lparr>snap_account = 1, snap_position_size = 1000, snap_avg_entry = 1000, snap_collateral = - 1\<rparr>
   in account_equity s 1000 = - 1 \<and> margin_ratio s 1000 = 0
     \<and> margin_health s 1000 liquidation_hyperliquid_default = Liquidatable"
  by (simp add: liquidation_hyperliquid_default_def notional_value_def sat_def account_equity_def
      liq_unrealized_pnl_def margin_health_def margin_ratio_def liq_MARGIN_SCALE_def Let_def
      signed_divide_int_def)

text \<open>Where the money of a close goes. A solvent close splits the equity exactly into the fee and
  the residual, both non-negative. An underwater close hands what equity there is to the fund and asks
  the fund for the shortfall; the two together leave the fund short by the whole uncollected part of the fee on top of the
  account's deficit.\<close>

theorem close_outcome_accounting:
  assumes "params_ok params"
  shows "(liquidation_fee (notional_value s mark) params \<le> account_equity s mark \<longrightarrow>
       0 \<le> sc_fee_to_fund (solvent_close_outcome s mark params)
       \<and> 0 \<le> residual_to_account (solvent_close_outcome s mark params)
       \<and> sc_fee_to_fund (solvent_close_outcome s mark params)
           + residual_to_account (solvent_close_outcome s mark params) = account_equity s mark)
    \<and> (account_equity s mark < liquidation_fee (notional_value s mark) params
        \<and> liquidation_fee (notional_value s mark) params - account_equity s mark \<le> i64_max \<longrightarrow>
       0 \<le> uw_fee_to_fund (underwater_close_outcome s mark params)
       \<and> 0 < shortfall_to_fund (underwater_close_outcome s mark params)
       \<and> uw_fee_to_fund (underwater_close_outcome s mark params)
           - shortfall_to_fund (underwater_close_outcome s mark params)
         = account_equity s mark
           - (liquidation_fee (notional_value s mark) params - max 0 (account_equity s mark)))"
proof (intro conjI impI)
  let ?f = "liquidation_fee (notional_value s mark) params"
  have f: "0 \<le> ?f" using fee_nonneg notional_in_u64[of s mark] assms by (simp add: in_u64_def)
  show "0 \<le> sc_fee_to_fund (solvent_close_outcome s mark params)" if "?f \<le> account_equity s mark"
    using solvent_close_exact[OF assms that] f by simp
  show "0 \<le> residual_to_account (solvent_close_outcome s mark params)" if "?f \<le> account_equity s mark"
    using solvent_close_exact[OF assms that] that by simp
  show "sc_fee_to_fund (solvent_close_outcome s mark params)
      + residual_to_account (solvent_close_outcome s mark params) = account_equity s mark"
    if "?f \<le> account_equity s mark"
    using solvent_close_exact[OF assms that] by simp
  assume a: "account_equity s mark < ?f \<and> ?f - account_equity s mark \<le> i64_max"
  then have "in_i64 (?f - account_equity s mark)" by (simp add: in_i64_def)
  then show "uw_fee_to_fund (underwater_close_outcome s mark params)
      - shortfall_to_fund (underwater_close_outcome s mark params)
    = account_equity s mark - (?f - max 0 (account_equity s mark))"
    by (simp add: underwater_close_eqs)
  show "0 \<le> uw_fee_to_fund (underwater_close_outcome s mark params)"
    by (simp add: underwater_close_eqs)
  show "0 < shortfall_to_fund (underwater_close_outcome s mark params)"
    using underwater_shortfall_pos a by simp
qed

theorem close_outcome_accounting_witness:
  "let s = \<lparr>snap_account = 1, snap_position_size = 1000, snap_avg_entry = 1000, snap_collateral = 5000\<rparr>
   in uw_fee_to_fund (underwater_close_outcome s 1000 liquidation_hyperliquid_default) = 5000
     \<and> shortfall_to_fund (underwater_close_outcome s 1000 liquidation_hyperliquid_default) = 10000
     \<and> 0 < shortfall_to_fund (underwater_close_outcome s 1000 liquidation_hyperliquid_default)"
  using close_outcome_accounting[of liquidation_hyperliquid_default
      "\<lparr>snap_account = 1, snap_position_size = 1000, snap_avg_entry = 1000, snap_collateral = 5000\<rparr>" 1000]
  by (simp add: liquidation_hyperliquid_default_def params_ok_def in_u32_def notional_value_def sat_def
      account_equity_def liq_unrealized_pnl_def liquidation_fee_def underwater_close_outcome_def
      liq_MARGIN_SCALE_def Let_def sdiv_nonneg)

end
