(* ===== verification/Insurance.thy ===== *)
theory Insurance
  imports Margin
begin

text \<open>
  The insurance fund (\<open>crates/liquidation/src/insurance.rs\<close>). Its contract is the interface
  \<open>shortfall_pool\<close>: a balance that is never negative, deposits that add, and
  withdrawals that pay what they can and report the rest. The lemmas of the interface are about any
  sequence of flows through a pool and carry the ledger property of the scanner.
\<close>

section \<open>The interface\<close>

text \<open>A flow is a fee to deposit and a shortfall to absorb; \<open>run_flows\<close> returns the totals
  paid in, paid out and left unfilled.\<close>

locale shortfall_pool =
  fixes bal :: "'f \<Rightarrow> int" and cap :: int
    and dep :: "'f \<Rightarrow> int \<Rightarrow> 'f"
    and absorb :: "'f \<Rightarrow> int \<Rightarrow> 'f \<times> int \<times> int"
    and inv :: "'f \<Rightarrow> bool"
  assumes bal_nonneg: "inv f \<Longrightarrow> 0 \<le> bal f"
    and dep_inv: "inv f \<Longrightarrow> inv (dep f fee)"
    and dep_bal: "inv f \<Longrightarrow> 0 \<le> fee \<Longrightarrow> bal f + fee \<le> cap \<Longrightarrow> bal (dep f fee) = bal f + fee"
    and absorb_inv: "inv f \<Longrightarrow> absorb f s = (f', paid, unfilled) \<Longrightarrow> inv f'"
    and absorb_bal: "inv f \<Longrightarrow> 0 \<le> s \<Longrightarrow> absorb f s = (f', paid, unfilled) \<Longrightarrow>
      bal f' = bal f - paid \<and> paid + unfilled = s \<and> 0 \<le> paid \<and> 0 \<le> unfilled
      \<and> (0 < unfilled \<longrightarrow> bal f' = 0)"
begin

fun run_flows :: "'f \<Rightarrow> (int \<times> int) list \<Rightarrow> 'f \<times> int \<times> int" where
  "run_flows f [] = (f, 0, 0)"
| "run_flows f ((fee, s) # flows) =
     (let (f', paid, unfilled) = absorb (dep f fee) s;
          (f'', paid', unfilled') = run_flows f' flows
      in (f'', paid + paid', unfilled + unfilled'))"

lemma run_flows_ledger:
  assumes "inv f" "\<forall>(fee, s) \<in> set flows. 0 \<le> fee \<and> 0 \<le> s"
    and "bal f + sum_list (map fst flows) \<le> cap" and "run_flows f flows = (f', paid, unfilled)"
  shows "inv f' \<and> bal f' = bal f + sum_list (map fst flows) - paid
    \<and> paid + unfilled = sum_list (map snd flows) \<and> 0 \<le> paid \<and> 0 \<le> unfilled"
  using assms
proof (induction f flows arbitrary: f' paid unfilled rule: run_flows.induct)
  case (2 f fee s flows)
  obtain f1 p1 u1 where a: "absorb (dep f fee) s = (f1, p1, u1)" by (metis prod_cases3)
  obtain f2 p2 u2 where r: "run_flows f1 flows = (f2, p2, u2)" by (metis prod_cases3)
  have fs: "0 \<le> fee" "0 \<le> s" "\<forall>(fee, s) \<in> set flows. 0 \<le> fee \<and> 0 \<le> s" using "2.prems"(2) by auto
  then have pos: "0 \<le> sum_list (map fst flows)" by (intro sum_list_nonneg) fastforce
  have d: "inv (dep f fee)" "bal (dep f fee) = bal f + fee"
    using dep_inv dep_bal "2.prems"(1,3) fs(1) pos by simp_all
  have b: "inv f1" "bal f1 = bal f + fee - p1" "p1 + u1 = s" "0 \<le> p1" "0 \<le> u1"
    using absorb_inv[OF d(1) a] absorb_bal[OF d(1) fs(2) a] d(2) by auto
  have "bal f1 + sum_list (map fst flows) \<le> cap" using b "2.prems"(3) by simp
  from "2.IH"[OF a[symmetric] refl refl b(1) fs(3) this r] b a r "2.prems"(4)
  show ?case by auto
qed auto

text \<open>A shortfall is left unfilled only when the pool is exhausted.\<close>

lemma absorb_exhausted:
  assumes "inv f" "0 \<le> s" "absorb f s = (f', paid, unfilled)"
  shows "paid = min s (bal f)"
proof -
  have a: "bal f' = bal f - paid" "paid + unfilled = s" "0 \<le> paid" "0 \<le> unfilled"
    "0 < unfilled \<longrightarrow> bal f' = 0"
    using absorb_bal[OF assms] by auto
  moreover have "0 \<le> bal f'" using bal_nonneg[OF absorb_inv[OF assms(1,3)]] .
  ultimately show ?thesis by (auto simp: min_def)
qed

end

section \<open>The fund\<close>

record insurance_fund =
  balance :: int

datatype withdraw_outcome =
    Covered int
  | PartiallyDrained int int
  | Depleted int

definition new_fund :: "int \<Rightarrow> insurance_fund" where
  "new_fund initial_balance = \<lparr>balance = (if initial_balance > 0 then initial_balance else 0)\<rparr>"

definition empty_fund :: insurance_fund where
  "empty_fund = \<lparr>balance = 0\<rparr>"

definition fund_deposit :: "insurance_fund \<Rightarrow> int \<Rightarrow> insurance_fund \<times> int" where
  "fund_deposit f fee =
     (let f' = (if fee > 0 then f\<lparr>balance := sat_i64 (balance f + fee)\<rparr> else f)
      in (f', balance f'))"

definition withdraw_shortfall :: "insurance_fund \<Rightarrow> int \<Rightarrow> insurance_fund \<times> withdraw_outcome" where
  "withdraw_shortfall f shortfall =
     (if shortfall \<le> 0 then (f, Covered 0)
      else if balance f = 0 then (f, Depleted shortfall)
      else if balance f \<ge> shortfall then (f\<lparr>balance := balance f - shortfall\<rparr>, Covered shortfall)
      else let prior = balance f
           in (f\<lparr>balance := 0\<rparr>, PartiallyDrained prior (shortfall - prior)))"

text \<open>The scanner reads an outcome as the amounts paid and unfilled.\<close>

fun paid_unfilled :: "withdraw_outcome \<Rightarrow> int \<times> int" where
  "paid_unfilled (Covered amount) = (amount, 0)"
| "paid_unfilled (PartiallyDrained amount unfilled) = (amount, unfilled)"
| "paid_unfilled (Depleted unfilled) = (0, unfilled)"

definition fund_ok :: "insurance_fund \<Rightarrow> bool" where
  "fund_ok f \<longleftrightarrow> 0 \<le> balance f \<and> balance f \<le> i64_max"

definition fund_absorb :: "insurance_fund \<Rightarrow> int \<Rightarrow> insurance_fund \<times> int \<times> int" where
  "fund_absorb f s = (let (f', out) = withdraw_shortfall f s in (f', paid_unfilled out))"

lemma new_fund_ok [simp]: "x \<le> i64_max \<Longrightarrow> fund_ok (new_fund x)"
  by (simp add: fund_ok_def new_fund_def)

lemma empty_fund_ok [simp]: "fund_ok empty_fund"
  by (simp add: fund_ok_def empty_fund_def)

lemma fund_deposit_ok: "fund_ok f \<Longrightarrow> fund_ok (fst (fund_deposit f fee))"
  by (simp add: fund_ok_def fund_deposit_def Let_def sat_def)

lemma withdraw_shortfall_ok: "fund_ok f \<Longrightarrow> fund_ok (fst (withdraw_shortfall f s))"
  by (simp add: fund_ok_def withdraw_shortfall_def Let_def)

interpretation fund: shortfall_pool balance i64_max "\<lambda>f fee. fst (fund_deposit f fee)" fund_absorb fund_ok
proof
  fix f f' :: insurance_fund and fee s paid unfilled :: int
  show "fund_ok f \<Longrightarrow> 0 \<le> balance f" by (simp add: fund_ok_def)
  show "fund_ok f \<Longrightarrow> fund_ok (fst (fund_deposit f fee))" by (rule fund_deposit_ok)
  show "fund_ok f \<Longrightarrow> 0 \<le> fee \<Longrightarrow> balance f + fee \<le> i64_max
      \<Longrightarrow> balance (fst (fund_deposit f fee)) = balance f + fee"
    by (auto simp: fund_deposit_def fund_ok_def Let_def sat_def)
  show "fund_ok f \<Longrightarrow> fund_absorb f s = (f', paid, unfilled) \<Longrightarrow> fund_ok f'"
    using withdraw_shortfall_ok[of f s] by (auto simp: fund_absorb_def case_prod_beta Let_def)
  show "fund_ok f \<Longrightarrow> 0 \<le> s \<Longrightarrow> fund_absorb f s = (f', paid, unfilled) \<Longrightarrow>
      balance f' = balance f - paid \<and> paid + unfilled = s \<and> 0 \<le> paid \<and> 0 \<le> unfilled
      \<and> (0 < unfilled \<longrightarrow> balance f' = 0)"
    by (auto simp: fund_absorb_def withdraw_shortfall_def fund_ok_def Let_def split: if_splits)
qed

section \<open>Properties\<close>

text \<open>Absorbing a shortfall. The fund pays exactly \<open>min shortfall balance\<close>, reports the rest, and never
  goes negative; \<open>Depleted\<close>, \<open>PartiallyDrained\<close> and \<open>Covered\<close> are the answers for an empty, an insufficient and
  a sufficient balance.\<close>

theorem withdraw_shortfall_exact:
  assumes "fund_ok f" "0 < s"
  shows "(case withdraw_shortfall f s of (f', out) \<Rightarrow>
      fund_ok f' \<and> balance f' = balance f - min s (balance f)
      \<and> paid_unfilled out = (min s (balance f), s - min s (balance f))
      \<and> ((\<exists>u. out = Depleted u) \<longleftrightarrow> balance f = 0)
      \<and> ((\<exists>a. out = Covered a) \<longleftrightarrow> s \<le> balance f))"
proof -
  obtain f' out where w: "withdraw_shortfall f s = (f', out)" by fastforce
  obtain p u where pu: "paid_unfilled out = (p, u)" by fastforce
  have a: "fund_absorb f s = (f', p, u)" using w pu by (simp add: fund_absorb_def)
  have "p = min s (balance f)" using fund.absorb_exhausted[OF assms(1) _ a] assms(2) by simp
  moreover have "balance f' = balance f - p" "p + u = s" "fund_ok f'"
    using fund.absorb_bal[OF assms(1) _ a] fund.absorb_inv[OF assms(1) a] assms(2) by auto
  moreover have "(\<exists>u. out = Depleted u) \<longleftrightarrow> balance f = 0" "(\<exists>a. out = Covered a) \<longleftrightarrow> s \<le> balance f"
    using w assms by (auto simp: withdraw_shortfall_def Let_def fund_ok_def split: if_splits)
  ultimately show ?thesis using w pu by auto
qed

theorem withdraw_shortfall_exact_witness:
  "withdraw_shortfall (new_fund 300) 500 = (new_fund 0, PartiallyDrained 300 200)
   \<and> balance (fst (withdraw_shortfall (new_fund 300) 500)) = 300 - min 500 300"
  using withdraw_shortfall_exact[of "new_fund 300" 500]
  by (simp add: fund_ok_def new_fund_def withdraw_shortfall_def)

end
