(* ===== verification/Scanner.thy ===== *)
theory Scanner
  imports Insurance
begin

text \<open>
  The multi-account liquidation scanner (\<open>crates/liquidation/src/scanner.rs\<close>): one pass over the
  accounts, which classifies each at the mark, closes the unhealthy ones and settles with the insurance fund.
\<close>

datatype close_outcome_kind = SolventOutcome solvent_close | UnderwaterOutcome underwater_close

record liquidation_record =
  lr_account :: account_id
  lr_close_order :: close_order_spec
  classification :: margin_health_class
  lr_outcome :: close_outcome_kind

record scan_report =
  sr_records :: "liquidation_record list"
  fund_deposits :: int
  fund_withdrawals :: int
  unfilled_deficit :: int

definition default_scan_report :: scan_report where
  "default_scan_report = \<lparr>sr_records = [], fund_deposits = 0, fund_withdrawals = 0, unfilled_deficit = 0\<rparr>"

record liquidation_scanner =
  ls_params :: liquidation_params
  ls_fund :: insurance_fund

definition new_scanner :: "liquidation_params \<Rightarrow> insurance_fund \<Rightarrow> liquidation_scanner" where
  "new_scanner params fund = \<lparr>ls_params = params, ls_fund = fund\<rparr>"

definition with_empty_fund :: "liquidation_params \<Rightarrow> liquidation_scanner" where
  "with_empty_fund params = \<lparr>ls_params = params, ls_fund = empty_fund\<rparr>"

definition fund_balance :: "liquidation_scanner \<Rightarrow> int" where
  "fund_balance sc = balance (ls_fund sc)"

text \<open>The body of the loop of \<open>scan\<close>.\<close>

definition scan_account ::
  "liquidation_params \<Rightarrow> mark_price \<Rightarrow> account_snapshot \<Rightarrow> insurance_fund \<times> scan_report
     \<Rightarrow> insurance_fund \<times> scan_report" where
  "scan_account params mark s = (\<lambda>(fund, report).
     (let cls = margin_health s mark params
      in if cls = Safe \<or> cls = AtRisk then (fund, report)
         else if snap_position_size s = 0 then (fund, report)
         else let close_order = close_order_spec_of s;
                  notional = notional_value s mark;
                  fee_desired = liquidation_fee notional params;
                  post_close_equity = account_equity s mark;
                  (fund', report', outcome) =
                    (if post_close_equity \<ge> fee_desired
                     then let solvent = solvent_close_outcome s mark params;
                              (fund1, _) = fund_deposit fund (sc_fee_to_fund solvent)
                          in (fund1,
                              report\<lparr>fund_deposits := sat_i64 (fund_deposits report + sc_fee_to_fund solvent)\<rparr>,
                              SolventOutcome solvent)
                     else let underwater = underwater_close_outcome s mark params;
                              (fund1, report1) =
                                (if uw_fee_to_fund underwater > 0
                                 then (fst (fund_deposit fund (uw_fee_to_fund underwater)),
                                       report\<lparr>fund_deposits :=
                                         sat_i64 (fund_deposits report + uw_fee_to_fund underwater)\<rparr>)
                                 else (fund, report));
                              (fund2, withdraw) = withdraw_shortfall fund1 (shortfall_to_fund underwater);
                              (paid, unfilled) = paid_unfilled withdraw
                          in (fund2,
                              report1\<lparr>fund_withdrawals := sat_i64 (fund_withdrawals report1 + paid),
                                      unfilled_deficit := sat_i64 (unfilled_deficit report1 + unfilled)\<rparr>,
                              UnderwaterOutcome underwater))
              in (fund', report'\<lparr>sr_records := sr_records report' @
                    [\<lparr>lr_account = snap_account s, lr_close_order = close_order,
                      classification = cls, lr_outcome = outcome\<rparr>]\<rparr>)))"

definition scan :: "liquidation_scanner \<Rightarrow> account_snapshot list \<Rightarrow> mark_price \<Rightarrow> liquidation_scanner \<times> scan_report" where
  "scan sc accounts mark =
     (let (fund, report) = fold (scan_account (ls_params sc) mark) accounts (ls_fund sc, default_scan_report)
      in (sc\<lparr>ls_fund := fund\<rparr>, report))"

section \<open>One account\<close>

definition liquidated :: "liquidation_params \<Rightarrow> mark_price \<Rightarrow> account_snapshot \<Rightarrow> bool" where
  "liquidated params mark s \<longleftrightarrow> margin_health s mark params \<le> Liquidatable \<and> snap_position_size s \<noteq> 0"

definition desired_fee :: "liquidation_params \<Rightarrow> mark_price \<Rightarrow> account_snapshot \<Rightarrow> int" where
  "desired_fee params mark s = liquidation_fee (notional_value s mark) params"

text \<open>The record and the flow through the fund that a liquidated account gives.\<close>

definition record_of :: "liquidation_params \<Rightarrow> mark_price \<Rightarrow> account_snapshot \<Rightarrow> liquidation_record" where
  "record_of params mark s =
     \<lparr>lr_account = snap_account s, lr_close_order = close_order_spec_of s,
      classification = margin_health s mark params,
      lr_outcome = (if desired_fee params mark s \<le> account_equity s mark
                    then SolventOutcome (solvent_close_outcome s mark params)
                    else UnderwaterOutcome (underwater_close_outcome s mark params))\<rparr>"

definition flow_of :: "liquidation_params \<Rightarrow> mark_price \<Rightarrow> account_snapshot \<Rightarrow> int \<times> int" where
  "flow_of params mark s =
     (if desired_fee params mark s \<le> account_equity s mark then (desired_fee params mark s, 0)
      else (max 0 (account_equity s mark), shortfall_to_fund (underwater_close_outcome s mark params)))"

lemma health_above: "(cls = Safe \<or> cls = AtRisk) \<longleftrightarrow> \<not> cls \<le> Liquidatable"
  by (cases cls) (simp_all add: less_eq_margin_health_class_def)

lemma flow_of_nonneg:
  assumes "params_ok params"
  shows "0 \<le> fst (flow_of params mark s)" "0 \<le> snd (flow_of params mark s)"
proof -
  have "0 \<le> desired_fee params mark s"
    using fee_nonneg notional_in_u64[of s mark] assms by (simp add: desired_fee_def in_u64_def)
  then show "0 \<le> fst (flow_of params mark s)" by (simp add: flow_of_def)
  show "0 \<le> snd (flow_of params mark s)"
    using underwater_shortfall_pos[of s mark params] by (auto simp: flow_of_def desired_fee_def)
qed

lemma scan_account_skip:
  "\<not> liquidated params mark s \<Longrightarrow> scan_account params mark s (fund, report) = (fund, report)"
  by (auto simp: scan_account_def Let_def liquidated_def health_above)

text \<open>One liquidated account is one deposit followed by one withdrawal of its flow.\<close>

lemma scan_account_flow:
  assumes "params_ok params" "liquidated params mark s" "flow_of params mark s = (fee, short)"
    and "fund_absorb (fst (fund_deposit fund fee)) short = (fund', paid, unfilled)"
    and "0 \<le> fund_deposits report" "fund_deposits report \<le> i64_max"
    and "in_i64 (fund_withdrawals report)" "in_i64 (unfilled_deficit report)"
  shows "scan_account params mark s (fund, report) =
    (fund', \<lparr>sr_records = sr_records report @ [record_of params mark s],
             fund_deposits = sat_i64 (fund_deposits report + fee),
             fund_withdrawals = sat_i64 (fund_withdrawals report + paid),
             unfilled_deficit = sat_i64 (unfilled_deficit report + unfilled)\<rparr>)"
proof -
  have d: "in_i64 (fund_deposits report)" using assms(5,6) by (simp add: in_i64_def)
  have cls: "\<not> (margin_health s mark params = Safe \<or> margin_health s mark params = AtRisk)" "snap_position_size s \<noteq> 0"
    using assms(2) health_above by (auto simp: liquidated_def)
  show ?thesis
  proof (cases "desired_fee params mark s \<le> account_equity s mark")
    case True
    then have "fee = desired_fee params mark s" "short = 0" using assms(3) by (simp_all add: flow_of_def)
    then have "fund' = fst (fund_deposit fund fee)" "paid = 0" "unfilled = 0"
      using assms(4) by (auto simp: fund_absorb_def withdraw_shortfall_def)
    with True cls assms(7,8) \<open>fee = _\<close> show ?thesis
      using solvent_close_exact(2)[OF assms(1), of s mark]
      by (simp add: scan_account_def Let_def record_of_def desired_fee_def case_prod_beta)
  next
    case False
    then have f: "fee = max 0 (account_equity s mark)"
      "short = shortfall_to_fund (underwater_close_outcome s mark params)"
      using assms(3) by (simp_all add: flow_of_def)
    obtain out where w: "withdraw_shortfall (fst (fund_deposit fund fee)) short = (fund', out)"
      "paid_unfilled out = (paid, unfilled)"
      using assms(4) by (auto simp: fund_absorb_def case_prod_beta Let_def prod_eq_iff)
    have dep0: "fst (fund_deposit fund 0) = fund" by (simp add: fund_deposit_def)
    show ?thesis
    proof (cases "0 < account_equity s mark")
      case True
      with False f w cls show ?thesis
        by (simp add: scan_account_def Let_def record_of_def desired_fee_def underwater_close_eqs(1))
    next
      case neg: False
      with False f w cls dep0 d show ?thesis
        by (simp add: scan_account_def Let_def record_of_def desired_fee_def underwater_close_eqs(1))
    qed
  qed
qed

section \<open>The whole scan\<close>

definition flows_of :: "liquidation_params \<Rightarrow> mark_price \<Rightarrow> account_snapshot list \<Rightarrow> (int \<times> int) list" where
  "flows_of params mark accounts = map (flow_of params mark) (filter (liquidated params mark) accounts)"

lemma flows_of_simps [simp]:
  "flows_of params mark [] = []"
  "flows_of params mark (s # ss) =
     (if liquidated params mark s then flow_of params mark s # flows_of params mark ss else flows_of params mark ss)"
  by (simp_all add: flows_of_def)

lemma flows_of_nonneg:
  "params_ok params \<Longrightarrow> \<forall>(fee, s) \<in> set (flows_of params mark accounts). 0 \<le> fee \<and> 0 \<le> s"
  using flow_of_nonneg[of params mark] by (auto simp: flows_of_def) (metis fst_conv, metis snd_conv)

lemma sum_flows_nonneg:
  assumes "params_ok params"
  shows "0 \<le> sum_list (map fst (flows_of params mark accounts))"
    "0 \<le> sum_list (map snd (flows_of params mark accounts))"
  using flows_of_nonneg[OF assms, of mark accounts] by (intro sum_list_nonneg; fastforce)+

definition report_ok :: "scan_report \<Rightarrow> bool" where
  "report_ok r \<longleftrightarrow> 0 \<le> fund_deposits r \<and> 0 \<le> fund_withdrawals r \<and> 0 \<le> unfilled_deficit r"

lemma scan_fold:
  assumes "params_ok params" "fund_ok fund" "report_ok report"
    and "fund.run_flows fund (flows_of params mark accounts) = (fund', paid, unfilled)"
    and "fund_deposits report + sum_list (map fst (flows_of params mark accounts)) \<le> i64_max"
    and "balance fund + sum_list (map fst (flows_of params mark accounts)) \<le> i64_max"
    and "fund_withdrawals report + sum_list (map snd (flows_of params mark accounts)) \<le> i64_max"
    and "unfilled_deficit report + sum_list (map snd (flows_of params mark accounts)) \<le> i64_max"
  shows "fold (scan_account params mark) accounts (fund, report) =
    (fund', \<lparr>sr_records = sr_records report @ map (record_of params mark) (filter (liquidated params mark) accounts),
             fund_deposits = fund_deposits report + sum_list (map fst (flows_of params mark accounts)),
             fund_withdrawals = fund_withdrawals report + paid,
             unfilled_deficit = unfilled_deficit report + unfilled\<rparr>)"
  using assms
proof (induction accounts arbitrary: fund report paid unfilled)
  case (Cons s ss)
  show ?case
  proof (cases "liquidated params mark s")
    case True
    obtain fee short where fl: "flow_of params mark s = (fee, short)" by fastforce
    obtain f1 p1 u1 where ab: "fund_absorb (fst (fund_deposit fund fee)) short = (f1, p1, u1)" by (metis prod_cases3)
    obtain p2 u2 where r2: "fund.run_flows f1 (flows_of params mark ss) = (fund', p2, u2)"
      "paid = p1 + p2" "unfilled = u1 + u2"
      using Cons.prems(4) True fl ab by (auto simp: Let_def split: prod.splits)
    have nn: "0 \<le> fee" "0 \<le> short" using flow_of_nonneg[OF Cons.prems(1), of mark s] fl by simp_all
    note sums = sum_flows_nonneg[OF Cons.prems(1), of mark ss]
    have b1: "balance (fst (fund_deposit fund fee)) = balance fund + fee"
      using fund.dep_bal[OF Cons.prems(2) nn(1)] Cons.prems(6) sums True fl by simp
    have ok1: "fund_ok (fst (fund_deposit fund fee))" using fund_deposit_ok[OF Cons.prems(2)] .
    have b2: "fund_ok f1" "balance f1 = balance fund + fee - p1" "p1 + u1 = short" "0 \<le> p1" "0 \<le> u1"
      using fund.absorb_inv[OF ok1 ab] fund.absorb_bal[OF ok1 nn(2) ab] b1 by auto
    let ?r1 = "\<lparr>sr_records = sr_records report @ [record_of params mark s],
      fund_deposits = fund_deposits report + fee, fund_withdrawals = fund_withdrawals report + p1,
      unfilled_deficit = unfilled_deficit report + u1\<rparr>"
    have rng: "in_i64 (fund_deposits report + fee)" "in_i64 (fund_withdrawals report + p1)"
      "in_i64 (unfilled_deficit report + u1)" "in_i64 (fund_withdrawals report)" "in_i64 (unfilled_deficit report)"
      "0 \<le> fund_deposits report" "fund_deposits report \<le> i64_max"
      using Cons.prems(3,5,7,8) True fl nn sums b2 by (simp_all add: report_ok_def in_i64_def)
    have step: "scan_account params mark s (fund, report) = (f1, ?r1)"
      using scan_account_flow[OF Cons.prems(1) True fl ab rng(6,7,4,5)] rng(1-3) by simp
    have "report_ok ?r1" using Cons.prems(3) nn b2 by (simp add: report_ok_def)
    then have "fold (scan_account params mark) ss (f1, ?r1) =
      (fund', \<lparr>sr_records = sr_records ?r1 @ map (record_of params mark) (filter (liquidated params mark) ss),
             fund_deposits = fund_deposits ?r1 + sum_list (map fst (flows_of params mark ss)),
             fund_withdrawals = fund_withdrawals ?r1 + p2, unfilled_deficit = unfilled_deficit ?r1 + u2\<rparr>)"
      using Cons.prems True fl b2 r2 by (intro Cons.IH) simp_all
    with step True fl r2 show ?thesis by simp
  next
    case False
    with Cons show ?thesis by (simp add: scan_account_skip)
  qed
qed simp

lemma scan_exact:
  assumes "params_ok (ls_params sc)" "fund_ok (ls_fund sc)"
    and "fund.run_flows (ls_fund sc) (flows_of (ls_params sc) mark accounts) = (fund', paid, unfilled)"
    and "fund_balance sc + sum_list (map fst (flows_of (ls_params sc) mark accounts)) \<le> i64_max"
    and "sum_list (map snd (flows_of (ls_params sc) mark accounts)) \<le> i64_max"
  shows "scan sc accounts mark = (sc\<lparr>ls_fund := fund'\<rparr>,
     \<lparr>sr_records = map (record_of (ls_params sc) mark) (filter (liquidated (ls_params sc) mark) accounts),
      fund_deposits = sum_list (map fst (flows_of (ls_params sc) mark accounts)),
      fund_withdrawals = paid, unfilled_deficit = unfilled\<rparr>)"
proof -
  have "0 \<le> balance (ls_fund sc)" using assms(2) by (simp add: fund_ok_def)
  then show ?thesis
    using scan_fold[OF assms(1,2) _ assms(3), of default_scan_report] assms(4,5)
    by (simp add: scan_def default_scan_report_def report_ok_def fund_balance_def)
qed

text \<open>Without any bound on the amounts: the records of a scan and the invariant of the fund.\<close>

lemma scan_account_records:
  "sr_records (snd (scan_account params mark s (fund, report))) = sr_records report @
     (if liquidated params mark s then [record_of params mark s] else [])"
  by (auto simp: scan_account_def Let_def liquidated_def record_of_def desired_fee_def health_above
      split: prod.splits)

lemma scan_account_fund_ok:
  "fund_ok fund \<Longrightarrow> fund_ok (fst (scan_account params mark s (fund, report)))"
  using fund_deposit_ok[of fund] withdraw_shortfall_ok
  by (auto simp: scan_account_def Let_def split: prod.splits) (metis fst_conv)+

lemma scan_fold_records:
  "sr_records (snd (fold (scan_account params mark) accounts st)) = sr_records (snd st) @
     map (record_of params mark) (filter (liquidated params mark) accounts)"
proof (induction accounts arbitrary: st)
  case (Cons s ss)
  show ?case using Cons[of "scan_account params mark s st"] scan_account_records[of params mark s "fst st" "snd st"]
    by simp
qed simp

lemma scan_fold_fund_ok:
  "fund_ok (fst st) \<Longrightarrow> fund_ok (fst (fold (scan_account params mark) accounts st))"
proof (induction accounts arbitrary: st)
  case (Cons s ss)
  show ?case using Cons(1)[of "scan_account params mark s st"] scan_account_fund_ok[of "fst st" params mark s "snd st"] Cons(2)
    by simp
qed simp

lemma scan_records:
  "sr_records (snd (scan sc accounts mark)) =
     map (record_of (ls_params sc) mark) (filter (liquidated (ls_params sc) mark) accounts)"
  by (simp add: scan_def case_prod_beta scan_fold_records default_scan_report_def)

lemma scan_fund_ok: "fund_ok (ls_fund sc) \<Longrightarrow> fund_ok (ls_fund (fst (scan sc accounts mark)))"
  using scan_fold_fund_ok[of "(ls_fund sc, default_scan_report)"] by (simp add: scan_def case_prod_beta)

section \<open>Properties\<close>

text \<open>The ledger of a scan balances. Unless the totals exceed \<open>i64\<close>, the fund's
  balance changes by exactly the reported deposits less the reported withdrawals, it stays
  non-negative, and the withdrawals plus the unfilled deficit are exactly the shortfalls of
  the liquidated accounts.\<close>

theorem scan_ledger:
  assumes "params_ok (ls_params sc)" "fund_ok (ls_fund sc)"
    and "fund_balance sc + sum_list (map fst (flows_of (ls_params sc) mark accounts)) \<le> i64_max"
    and "sum_list (map snd (flows_of (ls_params sc) mark accounts)) \<le> i64_max"
  shows "(case scan sc accounts mark of (sc', r) \<Rightarrow>
      fund_balance sc' = fund_balance sc + fund_deposits r - fund_withdrawals r
      \<and> 0 \<le> fund_balance sc'
      \<and> fund_deposits r = sum_list (map fst (flows_of (ls_params sc) mark accounts))
      \<and> fund_withdrawals r + unfilled_deficit r = sum_list (map snd (flows_of (ls_params sc) mark accounts))
      \<and> 0 \<le> fund_withdrawals r \<and> 0 \<le> unfilled_deficit r)"
proof -
  obtain fund' paid unfilled where r:
    "fund.run_flows (ls_fund sc) (flows_of (ls_params sc) mark accounts) = (fund', paid, unfilled)"
    by (metis prod_cases3)
  have "fund_ok fund' \<and> balance fund' = fund_balance sc + sum_list (map fst (flows_of (ls_params sc) mark accounts)) - paid
    \<and> paid + unfilled = sum_list (map snd (flows_of (ls_params sc) mark accounts)) \<and> 0 \<le> paid \<and> 0 \<le> unfilled"
    using fund.run_flows_ledger[OF assms(2) flows_of_nonneg[OF assms(1)] _ r] assms(3)
    by (simp add: fund_balance_def)
  with scan_exact[OF assms(1,2) r assms(3,4)] show ?thesis
    using fund.bal_nonneg[of fund'] by (auto simp: fund_balance_def)
qed

theorem scan_ledger_witness:
  "let s = \<lparr>snap_account = 1, snap_position_size = 1000, snap_avg_entry = 1000, snap_collateral = 5000\<rparr>;
       sc = new_scanner liquidation_hyperliquid_default (new_fund 2000)
   in case scan sc [s] 1000 of (sc', r) \<Rightarrow> fund_balance sc' = 2000 + fund_deposits r - fund_withdrawals r
      \<and> fund_deposits r = 5000 \<and> fund_withdrawals r + unfilled_deficit r = 10000"
proof -
  let ?s = "\<lparr>snap_account = 1, snap_position_size = 1000, snap_avg_entry = 1000, snap_collateral = 5000\<rparr>"
  let ?sc = "new_scanner liquidation_hyperliquid_default (new_fund 2000)"
  have "flows_of (ls_params ?sc) 1000 [?s] = [(5000, 10000)]"
    by (simp add: new_scanner_def liquidation_hyperliquid_default_def flow_of_def liquidated_def desired_fee_def
        margin_health_def margin_ratio_def notional_value_def account_equity_def liq_unrealized_pnl_def
        liquidation_fee_def underwater_close_outcome_def less_eq_margin_health_class_def
        liq_MARGIN_SCALE_def sat_def sdiv_nonneg Let_def)
  with scan_ledger[of ?sc 1000 "[?s]"] show ?thesis
    by (simp add: new_scanner_def fund_balance_def new_fund_def fund_ok_def case_prod_beta)
qed

text \<open>C13: who is liquidated. The records list, in the order of the input, exactly the accounts with an open
  position whose class is \<open>Liquidatable\<close> or \<open>Underwater\<close>; each close order is for the whole position in the opposite
  direction; an outcome is solvent exactly when the equity covers the fee, so the preconditions asserted by
  the two decompositions hold; and the invariant of the fund survives whatever the amounts are.\<close>

theorem scan_liquidates_exactly:
  "let (sc', r) = scan sc accounts mark; params = ls_params sc
   in map lr_account (sr_records r) = map snap_account (filter (liquidated params mark) accounts)
    \<and> map classification (sr_records r) = map (\<lambda>s. margin_health s mark params) (filter (liquidated params mark) accounts)
    \<and> list_all2 (\<lambda>s lr. co_account (lr_close_order lr) = snap_account s
          \<and> snap_position_size s + side_sign (co_side (lr_close_order lr)) * co_qty (lr_close_order lr) = 0
          \<and> 0 < co_qty (lr_close_order lr)
          \<and> (case lr_outcome lr of
               SolventOutcome c \<Rightarrow> liquidation_fee (notional_value s mark) params \<le> account_equity s mark
             | UnderwaterOutcome c \<Rightarrow> account_equity s mark < liquidation_fee (notional_value s mark) params))
        (filter (liquidated params mark) accounts) (sr_records r)
    \<and> (fund_ok (ls_fund sc) \<longrightarrow> fund_ok (ls_fund sc'))"
proof -
  have one: "co_account (lr_close_order (record_of params mark s)) = snap_account s
          \<and> snap_position_size s + side_sign (co_side (lr_close_order (record_of params mark s)))
              * co_qty (lr_close_order (record_of params mark s)) = 0
          \<and> 0 < co_qty (lr_close_order (record_of params mark s))
          \<and> (case lr_outcome (record_of params mark s) of
               SolventOutcome c \<Rightarrow> liquidation_fee (notional_value s mark) params \<le> account_equity s mark
             | UnderwaterOutcome c \<Rightarrow> account_equity s mark < liquidation_fee (notional_value s mark) params)"
    if "liquidated params mark s" for params s
    using that by (auto simp: record_of_def close_order_spec_of_def desired_fee_def liquidated_def)
  have o: "lr_account \<circ> record_of params mark = snap_account"
      "classification \<circ> record_of params mark = (\<lambda>s. margin_health s mark params)" for params
    by (auto simp: record_of_def)
  let ?l = "filter (liquidated (ls_params sc) mark) accounts"
  have "list_all2 (\<lambda>s lr. co_account (lr_close_order lr) = snap_account s
          \<and> snap_position_size s + side_sign (co_side (lr_close_order lr)) * co_qty (lr_close_order lr) = 0
          \<and> 0 < co_qty (lr_close_order lr)
          \<and> (case lr_outcome lr of
               SolventOutcome c \<Rightarrow> liquidation_fee (notional_value s mark) (ls_params sc) \<le> account_equity s mark
             | UnderwaterOutcome c \<Rightarrow> account_equity s mark < liquidation_fee (notional_value s mark) (ls_params sc)))
        ?l (map (record_of (ls_params sc) mark) ?l)"
    unfolding list_all2_map2 by (rule list_all2_same[THEN iffD2]) (use one in force)
  then show ?thesis
    using scan_records[of sc accounts mark] scan_fund_ok[of sc accounts mark]
    by (simp add: Let_def case_prod_beta o)
qed

theorem scan_liquidates_exactly_witness:
  "let s = \<lparr>snap_account = 1, snap_position_size = 1000, snap_avg_entry = 1000, snap_collateral = 5000\<rparr>;
       t = \<lparr>snap_account = 2, snap_position_size = - 1000, snap_avg_entry = 1000, snap_collateral = 500000\<rparr>;
       sc = new_scanner liquidation_hyperliquid_default (new_fund 2000)
   in map lr_account (sr_records (snd (scan sc [s, t] 1000))) = [1] \<and> fund_ok (ls_fund (fst (scan sc [s, t] 1000)))"
proof -
  let ?s = "\<lparr>snap_account = 1, snap_position_size = 1000, snap_avg_entry = 1000, snap_collateral = 5000\<rparr>"
  let ?t = "\<lparr>snap_account = 2, snap_position_size = - 1000, snap_avg_entry = 1000, snap_collateral = 500000\<rparr>"
  let ?p = "liquidation_hyperliquid_default"
  have "liquidated ?p 1000 ?s" "\<not> liquidated ?p 1000 ?t"
    by (simp_all add: liquidation_hyperliquid_default_def liquidated_def margin_health_def margin_ratio_def
        notional_value_def account_equity_def liq_unrealized_pnl_def less_eq_margin_health_class_def
        liq_MARGIN_SCALE_def sat_def sdiv_nonneg Let_def)
  with scan_liquidates_exactly[of "new_scanner ?p (new_fund 2000)" "[?s, ?t]" 1000]
  show ?thesis by (simp add: new_scanner_def Let_def case_prod_beta)
qed

end
