(* ===== verification/Adl.thy ===== *)
theory Adl
  imports Margin
begin

text \<open>
  Auto-deleveraging (\<open>crates/liquidation/src/adl.rs\<close>): the score of a profitable account, the
  ranking (score descending, account id ascending, a stable sort) and the loop that cuts the winners'
  profits until the deficit is absorbed.
\<close>

record adl_record =
  ar_account :: account_id
  ar_close_order :: close_order_spec
  pnl_gross :: int
  haircut :: int
  pnl_paid :: int
  ar_score :: int

record adl_report =
  adl_records :: "adl_record list"
  deficit_absorbed :: int
  deficit_remaining :: int

definition adl_score :: "account_snapshot \<Rightarrow> mark_price \<Rightarrow> int option" where
  "adl_score s mark =
     (if snap_position_size s = 0 then None
      else let pnl = liq_unrealized_pnl s mark
           in if pnl \<le> 0 then None
              else if snap_collateral s \<le> 0 then None
              else let equity = account_equity s mark
                   in if equity \<le> 0 then None
                      else let notional = notional_value s mark;
                               pnl_pct = sat_i128 (pnl * liq_MARGIN_SCALE) sdiv snap_collateral s;
                               leverage = sat_i128 (notional * liq_MARGIN_SCALE) sdiv equity;
                               raw = sat_i128 (pnl_pct * leverage) sdiv liq_MARGIN_SCALE
                           in Some (saturate_i128_to_i64 raw))"

type_synonym ranked = "account_snapshot \<times> int \<times> int"

text \<open>The closure of \<open>filter_map\<close>, and the ranking: \<open>sort_by\<close> is stable, as \<open>sort_key\<close> is.\<close>

definition rank_candidate :: "mark_price \<Rightarrow> account_snapshot \<Rightarrow> ranked option" where
  "rank_candidate mark s =
     (case adl_score s mark of None \<Rightarrow> None | Some score \<Rightarrow> Some (s, score, liq_unrealized_pnl s mark))"

definition rank_key :: "ranked \<Rightarrow> int \<times> account_id" where
  "rank_key = (\<lambda>(s, score, pnl). (- score, snap_account s))"

definition rank_candidates :: "account_snapshot list \<Rightarrow> mark_price \<Rightarrow> ranked list" where
  "rank_candidates candidates mark = sort_key rank_key (List.map_filter (rank_candidate mark) candidates)"

fun adl_loop :: "ranked list \<Rightarrow> int \<Rightarrow> adl_report \<Rightarrow> int \<times> adl_report" where
  "adl_loop [] remaining report = (remaining, report)"
| "adl_loop ((s, score, pnl) # rest) remaining report =
     (if remaining \<le> 0 then (remaining, report)
      else let cut = min remaining pnl;
               paid = sat_i64 (pnl - cut);
               report' = report\<lparr>adl_records := adl_records report @
                   [\<lparr>ar_account = snap_account s, ar_close_order = close_order_spec_of s,
                     pnl_gross = pnl, haircut = cut, pnl_paid = paid, ar_score = score\<rparr>],
                 deficit_absorbed := sat_i64 (deficit_absorbed report + cut)\<rparr>
           in adl_loop rest (sat_i64 (remaining - cut)) report')"

definition execute_adl :: "account_snapshot list \<Rightarrow> mark_price \<Rightarrow> int \<Rightarrow> adl_report" where
  "execute_adl candidates mark deficit =
     (if deficit \<le> 0
      then \<lparr>adl_records = [], deficit_absorbed = 0, deficit_remaining = max deficit 0\<rparr>
      else let ranked = rank_candidates candidates mark;
               (remaining, report) =
                 adl_loop ranked deficit \<lparr>adl_records = [], deficit_absorbed = 0, deficit_remaining = 0\<rparr>
           in report\<lparr>deficit_remaining := remaining\<rparr>)"

section \<open>The loop over exact integers\<close>

text \<open>The specification: cut the first winners completely, the last one partly.\<close>

fun cut_in_order :: "int list \<Rightarrow> int \<Rightarrow> int list" where
  "cut_in_order [] d = []"
| "cut_in_order (p # ps) d = (if d \<le> 0 then [] else min d p # cut_in_order ps (d - min d p))"

lemma cut_in_order_done [simp]: "d \<le> 0 \<Longrightarrow> cut_in_order ps d = []"
  by (cases ps) simp_all

lemma cut_in_order_length: "length (cut_in_order ps d) \<le> length ps"
  by (induction ps d rule: cut_in_order.induct) auto

lemma cut_in_order_sum:
  assumes "\<forall>p \<in> set ps. 0 < p" "0 \<le> d"
  shows "sum_list (cut_in_order ps d) = min d (sum_list ps)"
  using assms
proof (induction ps d rule: cut_in_order.induct)
  case (2 p ps d)
  have "0 \<le> sum_list ps" using 2(2) by (intro sum_list_nonneg) (auto simp: less_imp_le)
  then show ?case using 2 by (auto simp: min_def)
qed simp

lemma cut_in_order_bounds:
  assumes "\<forall>p \<in> set ps. 0 < p" "i < length (cut_in_order ps d)"
  shows "0 < cut_in_order ps d ! i" "cut_in_order ps d ! i \<le> ps ! i"
    and "Suc i < length (cut_in_order ps d) \<Longrightarrow> cut_in_order ps d ! i = ps ! i"
proof -
  have "0 < cut_in_order ps d ! i \<and> cut_in_order ps d ! i \<le> ps ! i
      \<and> (Suc i < length (cut_in_order ps d) \<longrightarrow> cut_in_order ps d ! i = ps ! i)"
    using assms
  proof (induction ps d arbitrary: i rule: cut_in_order.induct)
    case (2 p ps d)
    then show ?case
      by (cases i) (auto split: if_splits simp: min_def dest: less_le_trans[OF _ cut_in_order_length])
  qed simp
  then show "0 < cut_in_order ps d ! i" "cut_in_order ps d ! i \<le> ps ! i"
    "Suc i < length (cut_in_order ps d) \<Longrightarrow> cut_in_order ps d ! i = ps ! i" by auto
qed

definition adl_record_of :: "ranked \<Rightarrow> int \<Rightarrow> adl_record" where
  "adl_record_of = (\<lambda>(s, score, pnl) cut.
     \<lparr>ar_account = snap_account s, ar_close_order = close_order_spec_of s, pnl_gross = pnl,
      haircut = cut, pnl_paid = pnl - cut, ar_score = score\<rparr>)"

lemma adl_loop_exact:
  assumes "\<forall>(s, score, pnl) \<in> set ranked. 0 < pnl \<and> pnl \<le> i64_max"
    and "0 \<le> d" "d \<le> i64_max" "0 \<le> deficit_absorbed report" "deficit_absorbed report + d \<le> i64_max"
  shows "adl_loop ranked d report =
    (d - sum_list (cut_in_order (map (snd \<circ> snd) ranked) d),
     report\<lparr>adl_records := adl_records report @ map2 adl_record_of ranked (cut_in_order (map (snd \<circ> snd) ranked) d),
       deficit_absorbed := deficit_absorbed report + sum_list (cut_in_order (map (snd \<circ> snd) ranked) d)\<rparr>)"
  using assms
proof (induction ranked d report rule: adl_loop.induct)
  case (2 s score pnl rest d report)
  show ?case
  proof (cases "d \<le> 0")
    case False
    have p: "0 < pnl" "pnl \<le> i64_max" using "2.prems"(1) by auto
    then have sats: "sat_i64 (pnl - min d pnl) = pnl - min d pnl" "sat_i64 (d - min d pnl) = d - min d pnl"
      "sat_i64 (deficit_absorbed report + min d pnl) = deficit_absorbed report + min d pnl"
      using "2.prems" by (auto intro!: sat_i64_eq simp: in_i64_def)
    from 2 False sats p show ?thesis by (simp add: Let_def adl_record_of_def)
  qed simp
qed simp

section \<open>Eligible candidates\<close>

definition eligible :: "mark_price \<Rightarrow> account_snapshot \<Rightarrow> bool" where
  "eligible mark s \<longleftrightarrow> adl_score s mark \<noteq> None"

lemma eligible_iff:
  "eligible mark s \<longleftrightarrow> snap_position_size s \<noteq> 0 \<and> 0 < liq_unrealized_pnl s mark
     \<and> 0 < snap_collateral s \<and> 0 < account_equity s mark"
  by (auto simp: eligible_def adl_score_def Let_def)

lemma rank_candidate_Some:
  "rank_candidate mark s = Some r \<longleftrightarrow>
     eligible mark s \<and> r = (s, the (adl_score s mark), liq_unrealized_pnl s mark)"
  by (auto simp: rank_candidate_def eligible_def split: option.splits)

lemma map_filter_rank:
  "List.map_filter (rank_candidate mark) candidates =
     map (\<lambda>s. (s, the (adl_score s mark), liq_unrealized_pnl s mark)) (filter (eligible mark) candidates)"
  by (induction candidates) (auto simp: rank_candidate_Some rank_candidate_def eligible_def split: option.splits)

lemma rank_candidates_mset:
  "mset (rank_candidates candidates mark) =
     image_mset (\<lambda>s. (s, the (adl_score s mark), liq_unrealized_pnl s mark)) (mset (filter (eligible mark) candidates))"
  by (simp add: rank_candidates_def map_filter_rank)

lemma rank_candidates_set:
  "r \<in> set (rank_candidates candidates mark) \<Longrightarrow>
     \<exists>s \<in> set candidates. eligible mark s \<and> r = (s, the (adl_score s mark), liq_unrealized_pnl s mark)"
  by (auto simp: rank_candidates_def map_filter_rank)

lemma rank_candidates_pnl:
  "\<forall>(s, score, pnl) \<in> set (rank_candidates candidates mark). 0 < pnl \<and> pnl \<le> i64_max"
proof -
  have "liq_unrealized_pnl s mark \<le> i64_max" for s
    using liq_unrealized_pnl_in_i64[of s mark] unfolding in_i64_def by simp
  then show ?thesis by (auto dest!: rank_candidates_set simp: eligible_iff)
qed

lemma sum_pnl_rank:
  "sum_list (map (snd \<circ> snd) (rank_candidates candidates mark)) =
     sum_list (map (\<lambda>s. liq_unrealized_pnl s mark) (filter (eligible mark) candidates))"
proof -
  have "sum_mset (image_mset (snd \<circ> snd) (mset (rank_candidates candidates mark)))
      = sum_mset (image_mset (\<lambda>s. liq_unrealized_pnl s mark) (mset (filter (eligible mark) candidates)))"
    by (simp only: rank_candidates_mset multiset.map_comp comp_def) simp
  then show ?thesis by (simp only: mset_map[symmetric] sum_mset_sum_list)
qed

lemma execute_adl_exact:
  assumes "0 < deficit" "deficit \<le> i64_max"
  shows "execute_adl candidates mark deficit =
    (let ranked = rank_candidates candidates mark; cuts = cut_in_order (map (snd \<circ> snd) ranked) deficit
     in \<lparr>adl_records = map2 adl_record_of ranked cuts, deficit_absorbed = sum_list cuts,
         deficit_remaining = deficit - sum_list cuts\<rparr>)"
  using adl_loop_exact[OF rank_candidates_pnl, of deficit
      "\<lparr>adl_records = [], deficit_absorbed = 0, deficit_remaining = 0\<rparr>" candidates mark] assms
  by (simp add: execute_adl_def Let_def)

section \<open>Properties\<close>

text \<open>C19: the deficit is fully accounted for. What is absorbed and what remains add up to the
  deficit; the absorbed amount is the deficit or, if smaller, the sum of the profits of all eligible
  candidates, so that a remainder means that every winner has been cut completely.\<close>

theorem adl_absorbs:
  assumes "0 < deficit" "deficit \<le> i64_max"
  shows "(let r = execute_adl candidates mark deficit;
         gains = sum_list (map (\<lambda>s. liq_unrealized_pnl s mark) (filter (eligible mark) candidates))
     in deficit_absorbed r + deficit_remaining r = deficit
      \<and> deficit_absorbed r = min deficit gains
      \<and> deficit_absorbed r = sum_list (map haircut (adl_records r))
      \<and> 0 \<le> deficit_remaining r)"
proof -
  let ?ps = "map (snd \<circ> snd) (rank_candidates candidates mark)" and ?rk = "rank_candidates candidates mark"
  have pos: "\<forall>p \<in> set ?ps. 0 < p" using rank_candidates_pnl[of candidates mark] by fastforce
  have "map haircut (map2 adl_record_of ?rk (cut_in_order ?ps deficit)) = cut_in_order ?ps deficit"
    using cut_in_order_length[of ?ps deficit]
    by (intro nth_equalityI) (auto simp: adl_record_of_def case_prod_beta)
  moreover have "sum_list (cut_in_order ?ps deficit) = min deficit (sum_list ?ps)"
    using cut_in_order_sum[OF pos] assms(1) by simp
  ultimately show ?thesis
    using execute_adl_exact[OF assms, of candidates mark] sum_pnl_rank[of candidates mark] assms(1)
    by (simp add: Let_def)
qed

theorem adl_absorbs_witness:
  "let s = \<lparr>snap_account = 1, snap_position_size = 10, snap_avg_entry = 100, snap_collateral = 500\<rparr>;
       r = execute_adl [s] 150 700
   in deficit_absorbed r = 500 \<and> deficit_remaining r = 200"
  using adl_absorbs[of 700
      "[\<lparr>snap_account = 1, snap_position_size = 10, snap_avg_entry = 100, snap_collateral = 500\<rparr>]" 150]
  by (simp add: Let_def eligible_iff liq_unrealized_pnl_def account_equity_def sat_def)

text \<open>Priority and fairness. The records follow the ranking (score descending, then account id
  ascending); every winner but the last is cut completely; each cut is positive and at most
  the winner's profit, and the winner receives the rest.\<close>

theorem adl_priority:
  assumes "0 < deficit" "deficit \<le> i64_max"
  shows "(let rs = adl_records (execute_adl candidates mark deficit)
     in sorted (map (\<lambda>r. (- ar_score r, ar_account r)) rs)
      \<and> (\<forall>i < length rs. 0 < haircut (rs ! i) \<and> haircut (rs ! i) \<le> pnl_gross (rs ! i)
           \<and> pnl_paid (rs ! i) = pnl_gross (rs ! i) - haircut (rs ! i)
           \<and> (Suc i < length rs \<longrightarrow> pnl_paid (rs ! i) = 0)))"
proof -
  let ?rk = "rank_candidates candidates mark"
  let ?cs = "cut_in_order (map (snd \<circ> snd) ?rk) deficit"
  let ?rs = "map2 adl_record_of ?rk ?cs"
  have pos: "\<forall>p \<in> set (map (snd \<circ> snd) ?rk). 0 < p" using rank_candidates_pnl[of candidates mark] by fastforce
  have len: "length ?cs \<le> length ?rk" "length ?rs = length ?cs"
    using cut_in_order_length[of "map (snd \<circ> snd) ?rk" deficit] by simp_all
  have "map (\<lambda>r. (- ar_score r, ar_account r)) ?rs = take (length ?cs) (map rank_key ?rk)"
    using len by (intro nth_equalityI) (auto simp: adl_record_of_def rank_key_def case_prod_beta)
  moreover have "sorted (map rank_key ?rk)" by (simp add: rank_candidates_def)
  ultimately have "sorted (map (\<lambda>r. (- ar_score r, ar_account r)) ?rs)" by (simp only: sorted_wrt_take)
  moreover have "0 < haircut (?rs ! i) \<and> haircut (?rs ! i) \<le> pnl_gross (?rs ! i)
           \<and> pnl_paid (?rs ! i) = pnl_gross (?rs ! i) - haircut (?rs ! i)
           \<and> (Suc i < length ?rs \<longrightarrow> pnl_paid (?rs ! i) = 0)" if "i < length ?rs" for i
    using cut_in_order_bounds[OF pos, of i deficit] that len
    by (auto simp: adl_record_of_def case_prod_beta)
  moreover have recs: "adl_records (execute_adl candidates mark deficit) = ?rs"
    using execute_adl_exact[OF assms, of candidates mark] by (simp add: Let_def)
  ultimately show ?thesis unfolding Let_def recs by blast
qed

theorem adl_priority_witness:
  "let s = \<lparr>snap_account = 1, snap_position_size = 10, snap_avg_entry = 100, snap_collateral = 500\<rparr>
   in sorted (map (\<lambda>r. (- ar_score r, ar_account r)) (adl_records (execute_adl [s] 150 700)))"
  using adl_priority[of 700
      "[\<lparr>snap_account = 1, snap_position_size = 10, snap_avg_entry = 100, snap_collateral = 500\<rparr>]" 150]
  by (simp add: Let_def)

text \<open>C20: determinism across validators. With distinct account ids, the report does not depend on the
  order in which the candidates are handed in.\<close>

theorem adl_order_independent:
  assumes "mset candidates = mset candidates'" "distinct (map snap_account candidates)"
  shows "execute_adl candidates mark deficit = execute_adl candidates' mark deficit"
proof -
  have "mset (filter (eligible mark) candidates) = mset (filter (eligible mark) candidates')"
    using assms(1) by simp
  then have m: "mset (List.map_filter (rank_candidate mark) candidates) = mset (List.map_filter (rank_candidate mark) candidates')"
    unfolding map_filter_rank by simp
  have "inj_on snap_account (set candidates)" using assms(2) by (simp add: distinct_map)
  then have "inj_on rank_key (set (List.map_filter (rank_candidate mark) candidates))"
    by (auto simp: map_filter_rank rank_key_def inj_on_def)
  with m have "rank_candidates candidates mark = rank_candidates candidates' mark"
    unfolding rank_candidates_def by (rule sort_key_perm)
  then show ?thesis by (simp add: execute_adl_def)
qed

theorem adl_order_independent_witness:
  "let s = \<lparr>snap_account = 1, snap_position_size = 10, snap_avg_entry = 100, snap_collateral = 500\<rparr>;
       t = \<lparr>snap_account = 2, snap_position_size = 10, snap_avg_entry = 100, snap_collateral = 500\<rparr>
   in execute_adl [s, t] 150 700 = execute_adl [t, s] 150 700"
  using adl_order_independent[of
      "[\<lparr>snap_account = 1, snap_position_size = 10, snap_avg_entry = 100, snap_collateral = 500\<rparr>,
        \<lparr>snap_account = 2, snap_position_size = 10, snap_avg_entry = 100, snap_collateral = 500\<rparr>]"
      "[\<lparr>snap_account = 2, snap_position_size = 10, snap_avg_entry = 100, snap_collateral = 500\<rparr>,
        \<lparr>snap_account = 1, snap_position_size = 10, snap_avg_entry = 100, snap_collateral = 500\<rparr>]" 150 700]
  by (simp add: Let_def add_mset_commute)

end
