(* ===== verification/Containers.thy ===== *)
theory Containers
  imports Rust_Int "HOL-Library.AList"
begin

text \<open>
  Shared data: byte encodings of integers (\<open>to_be_bytes\<close>, \<open>to_le_bytes\<close>) and the
  two dictionaries of the source. A \<open>BTreeMap\<close> is an association list with strictly
  increasing keys, a \<open>HashMap\<close> is an association list in no particular
  order; both are instances of one interface, \<open>dict\<close>, whose lemmas on bulk insertion are what
  loading a snapshot relies on.
\<close>

section \<open>Bytes\<close>

type_synonym bytes = "int list"

fun to_le_bytes :: "nat \<Rightarrow> int \<Rightarrow> bytes" where
  "to_le_bytes 0 x = []"
| "to_le_bytes (Suc n) x = x mod 256 # to_le_bytes n (x div 256)"

fun from_le_bytes :: "bytes \<Rightarrow> int" where
  "from_le_bytes [] = 0"
| "from_le_bytes (b # bs) = b + 256 * from_le_bytes bs"

definition to_be_bytes :: "nat \<Rightarrow> int \<Rightarrow> bytes" where
  "to_be_bytes n x = rev (to_le_bytes n x)"

definition from_be_bytes :: "bytes \<Rightarrow> int" where
  "from_be_bytes bs = from_le_bytes (rev bs)"

definition bytes_ok :: "bytes \<Rightarrow> bool" where
  "bytes_ok bs \<longleftrightarrow> (\<forall>b \<in> set bs. in_u8 b)"

lemma length_to_le_bytes [simp]: "length (to_le_bytes n x) = n"
  by (induction n x rule: to_le_bytes.induct) simp_all

lemma length_to_be_bytes [simp]: "length (to_be_bytes n x) = n"
  by (simp add: to_be_bytes_def)

lemma from_to_le_bytes: "0 \<le> x \<Longrightarrow> x < 256 ^ n \<Longrightarrow> from_le_bytes (to_le_bytes n x) = x"
proof (induction n x rule: to_le_bytes.induct)
  case (2 n x)
  then have "x div 256 < 256 ^ n" "0 \<le> x div 256" by simp_all
  then have "from_le_bytes (to_le_bytes n (x div 256)) = x div 256" using 2(1) by simp
  then show ?case by simp
qed simp

lemma from_to_be_bytes: "0 \<le> x \<Longrightarrow> x < 256 ^ n \<Longrightarrow> from_be_bytes (to_be_bytes n x) = x"
  by (simp add: from_be_bytes_def to_be_bytes_def from_to_le_bytes)

lemma to_le_bytes_inj:
  "to_le_bytes n x = to_le_bytes n y \<Longrightarrow> 0 \<le> x \<Longrightarrow> x < 256 ^ n \<Longrightarrow> 0 \<le> y \<Longrightarrow> y < 256 ^ n \<Longrightarrow> x = y"
  by (metis from_to_le_bytes)

lemma to_be_bytes_inj:
  "to_be_bytes n x = to_be_bytes n y \<Longrightarrow> 0 \<le> x \<Longrightarrow> x < 256 ^ n \<Longrightarrow> 0 \<le> y \<Longrightarrow> y < 256 ^ n \<Longrightarrow> x = y"
  by (metis from_to_be_bytes)

lemma to_le_bytes_ok: "bytes_ok (to_le_bytes n x)"
proof (induction n x rule: to_le_bytes.induct)
  case (2 n x)
  have "0 \<le> x mod 256" "x mod 256 < 256" by simp_all
  then have "in_u8 (x mod 256)" unfolding in_u8_def by linarith
  then show ?case using 2 by (simp add: bytes_ok_def)
qed (simp add: bytes_ok_def)

lemma to_be_bytes_ok: "bytes_ok (to_be_bytes n x)"
  using to_le_bytes_ok[of n x] by (simp add: bytes_ok_def to_be_bytes_def)

lemma from_le_bytes_bounds:
  "bytes_ok bs \<Longrightarrow> 0 \<le> from_le_bytes bs \<and> from_le_bytes bs < 256 ^ length bs"
proof (induction bs)
  case (Cons b bs)
  then have b: "0 \<le> b" "b \<le> 255" and r: "0 \<le> from_le_bytes bs" "from_le_bytes bs < 256 ^ length bs"
    by (auto simp: bytes_ok_def in_u8_def)
  then show ?case by simp
qed simp

lemma to_from_le_bytes: "bytes_ok bs \<Longrightarrow> to_le_bytes (length bs) (from_le_bytes bs) = bs"
proof (induction bs)
  case (Cons b bs)
  then have b: "0 \<le> b" "b \<le> 255" "bytes_ok bs" by (auto simp: bytes_ok_def in_u8_def)
  then have "(b + 256 * from_le_bytes bs) mod 256 = b" "(b + 256 * from_le_bytes bs) div 256 = from_le_bytes bs"
    by simp_all
  then show ?case using Cons.IH[OF b(3)] by simp
qed simp

lemmas byte_bounds = in_u64_def in_u32_def in_i64_def

text \<open>Fixed-width fields of one message: equal concatenations have equal fields.\<close>

lemma append_fields_inj: "xs @ ys = xs' @ ys' \<Longrightarrow> length xs = length xs' \<Longrightarrow> xs = xs' \<and> ys = ys'"
  by simp

section \<open>The interface of a dictionary\<close>

locale dict =
  fixes get :: "'d \<Rightarrow> 'k \<Rightarrow> 'v option"
    and ins :: "'k \<Rightarrow> 'v \<Rightarrow> 'd \<Rightarrow> 'd"
    and emp :: 'd and inv :: "'d \<Rightarrow> bool"
  assumes emp_inv: "inv emp" and get_emp: "get emp k = None"
    and ins_inv: "inv d \<Longrightarrow> inv (ins k v d)"
    and get_ins: "inv d \<Longrightarrow> get (ins k v d) k' = (if k' = k then Some v else get d k')"
begin

definition bulk :: "('a \<Rightarrow> 'k) \<Rightarrow> ('a \<Rightarrow> 'v) \<Rightarrow> 'a list \<Rightarrow> 'd \<Rightarrow> 'd" where
  "bulk kf vf xs d = fold (\<lambda>x. ins (kf x) (vf x)) xs d"

lemma bulk_inv: "inv d \<Longrightarrow> inv (bulk kf vf xs d)"
  unfolding bulk_def by (induction xs arbitrary: d) (auto intro: ins_inv)

lemma get_bulk_other: "inv d \<Longrightarrow> k \<notin> kf ` set xs \<Longrightarrow> get (bulk kf vf xs d) k = get d k"
  unfolding bulk_def by (induction xs arbitrary: d) (auto simp: ins_inv get_ins)

text \<open>Inserting entries with distinct keys into the empty dictionary stores exactly them.\<close>

lemma get_bulk:
  assumes "inv d" "distinct (map kf xs)"
  shows "get (bulk kf vf xs d) k =
    (if k \<in> kf ` set xs then map_of (map (\<lambda>x. (kf x, vf x)) xs) k else get d k)"
  using assms
proof (induction xs arbitrary: d)
  case (Cons x xs)
  have inv': "inv (ins (kf x) (vf x) d)" using Cons.prems(1) by (rule ins_inv)
  have "get (bulk kf vf (x # xs) d) k = get (bulk kf vf xs (ins (kf x) (vf x) d)) k" by (simp add: bulk_def)
  also have "\<dots> = (if k \<in> kf ` set xs then map_of (map (\<lambda>x. (kf x, vf x)) xs) k
      else get (ins (kf x) (vf x) d) k)"
    using Cons.IH[OF inv'] Cons.prems(2) by simp
  finally show ?case using Cons.prems by (auto simp: get_ins)
qed (simp add: bulk_def)

lemma get_bulk_emp:
  assumes "distinct (map kf xs)"
  shows "get (bulk kf vf xs emp) = map_of (map (\<lambda>x. (kf x, vf x)) xs)"
proof
  fix k
  have "k \<notin> kf ` set xs \<Longrightarrow> map_of (map (\<lambda>x. (kf x, vf x)) xs) k = None"
    by (auto simp: map_of_eq_None_iff image_image)
  then show "get (bulk kf vf xs emp) k = map_of (map (\<lambda>x. (kf x, vf x)) xs) k"
    using get_bulk[OF emp_inv assms, of vf k] by (simp add: get_emp)
qed

end

section \<open>\<open>BTreeMap\<close>\<close>

type_synonym ('k, 'v) btree = "('k \<times> 'v) list"

definition bt_ok :: "('k::linorder, 'v) btree \<Rightarrow> bool" where
  "bt_ok m \<longleftrightarrow> sorted_wrt (<) (map fst m)"

fun bt_insert :: "'k::linorder \<Rightarrow> 'v \<Rightarrow> ('k, 'v) btree \<Rightarrow> ('k, 'v) btree" where
  "bt_insert k v [] = [(k, v)]"
| "bt_insert k v ((k', v') # m) =
     (if k < k' then (k, v) # (k', v') # m else if k = k' then (k, v) # m else (k', v') # bt_insert k v m)"

definition bt_remove :: "'k::linorder \<Rightarrow> ('k, 'v) btree \<Rightarrow> ('k, 'v) btree" where
  "bt_remove k m = filter (\<lambda>(k', _). k' \<noteq> k) m"

lemma bt_insert_keys: "set (map fst (bt_insert k v m)) = insert k (set (map fst m))"
  by (induction k v m rule: bt_insert.induct) auto

lemma bt_insert_ok: "bt_ok m \<Longrightarrow> bt_ok (bt_insert k v m)"
proof (induction k v m rule: bt_insert.induct)
  case (2 k v k' v' m)
  then show ?case using bt_insert_keys[of k v m] by (auto simp: bt_ok_def)
qed (simp add: bt_ok_def)

lemma map_of_bt_insert: "bt_ok m \<Longrightarrow> map_of (bt_insert k v m) = (map_of m)(k \<mapsto> v)"
proof (induction k v m rule: bt_insert.induct)
  case (2 k v k' v' m)
  then have "bt_ok m" by (simp add: bt_ok_def)
  with 2 show ?case by (auto simp: fun_eq_iff)
qed auto

lemma bt_remove_ok: "bt_ok m \<Longrightarrow> bt_ok (bt_remove k m)"
  unfolding bt_ok_def bt_remove_def by (induction m) auto

lemma map_of_bt_remove: "map_of (bt_remove k m) = (map_of m)(k := None)"
  unfolding bt_remove_def by (induction m) (auto simp: fun_eq_iff)

lemma bt_ok_distinct: "bt_ok m \<Longrightarrow> distinct (map fst m)"
  unfolding bt_ok_def by (rule strict_sorted_iff[THEN iffD1, THEN conjunct2])

lemma bt_insert_set: "set (bt_insert k v m) \<subseteq> insert (k, v) (set m)"
  by (induction k v m rule: bt_insert.induct) auto

interpretation btree: dict map_of bt_insert "[] :: ('k::linorder, 'v) btree" bt_ok
  by unfold_locales (auto simp: bt_insert_ok map_of_bt_insert, simp add: bt_ok_def)

section \<open>\<open>HashMap\<close>\<close>

type_synonym ('k, 'v) hash_map = "('k \<times> 'v) list"

abbreviation hm_ok :: "('k, 'v) hash_map \<Rightarrow> bool" where
  "hm_ok m \<equiv> distinct (map fst m)"

interpretation hmap: dict map_of AList.update "[] :: ('k, 'v) hash_map" hm_ok
  by unfold_locales (auto simp: distinct_update update_conv')

text \<open>The values of a hash map in the order of a key that separates them: the result depends only
  on the contents of the map.\<close>

lemma values_sorted_determined:
  assumes "hm_ok m" "hm_ok m'" "map_of m = map_of m'"
    and "inj_on kf (snd ` set m)"
  shows "sort_key kf (map snd m) = sort_key kf (map snd m')"
proof (rule sort_key_perm)
  have "set m = set m'" using assms(1-3) by (metis map_of_inject_set)
  then have "mset m = mset m'" using assms(1,2) by (metis distinct_map set_eq_iff_mset_eq_distinct)
  then show "mset (map snd m) = mset (map snd m')" by simp
  show "inj_on kf (set (map snd m))" using assms(4) by simp
qed

end
