(* ===== verification/Oracle.thy ===== *)
theory Oracle
  imports Containers Funding
begin

text \<open>
  The oracle crate (\<open>crates/oracle\<close>): the observations and parameters of \<open>types.rs\<close>, the aggregation of
  \<open>compute.rs\<close>, the verification wrapper of \<open>verify.rs\<close> over the \<open>k256\<close> package (a parameter, the record
  \<open>k256\<close>), and the state machine of \<open>state.rs\<close>.
\<close>

section \<open>Types\<close>

type_synonym feed_id = int
type_synonym publisher_key = bytes

definition DEVIATION_SCALE :: int where "DEVIATION_SCALE = 10000"

record price_observation =
  obs_feed :: feed_id
  obs_price :: index_price
  obs_timestamp :: int
  obs_signature :: bytes

definition signature_ZERO :: bytes where "signature_ZERO = replicate 64 0"

definition unsigned_observation :: "feed_id \<Rightarrow> index_price \<Rightarrow> int \<Rightarrow> price_observation" where
  "unsigned_observation feed p ts =
     \<lparr>obs_feed = feed, obs_price = p, obs_timestamp = ts, obs_signature = signature_ZERO\<rparr>"

definition signed_bytes :: "price_observation \<Rightarrow> bytes" where
  "signed_bytes obs =
     to_be_bytes 4 (obs_feed obs) @ to_be_bytes 8 (obs_price obs) @ to_be_bytes 8 (obs_timestamp obs)"

record aggregated_price =
  agg_index :: index_price
  computed_at :: int
  feeds_used :: int

record oracle_params =
  staleness_window_secs :: int
  min_feeds_required :: int
  max_deviation_bps :: int
  aggregate_max_age_secs :: int

definition oracle_hyperliquid_default :: oracle_params where
  "oracle_hyperliquid_default = \<lparr>staleness_window_secs = 60, min_feeds_required = 2,
     max_deviation_bps = 100, aggregate_max_age_secs = 60\<rparr>"

datatype observation_error =
    StaleObs int int int
  | FromFuture int int
  | ZeroPrice
  | UnknownFeed feed_id
  | InvalidSignature feed_id

datatype aggregation_error =
    TooFewFreshFeeds int int
  | TooFewAfterDeviationFilter int int

section \<open>Aggregation\<close>

definition compute_median :: "index_price list \<Rightarrow> index_price option" where
  "compute_median prices =
     (if prices = [] then None
      else let sorted = sort prices;
               n = length sorted;
               median = (if n mod 2 = 1 then sorted ! (n div 2)
                         else min ((sorted ! (n div 2 - 1) + sorted ! (n div 2)) div 2) u64_max)
           in Some median)"

definition deviation_bps :: "index_price \<Rightarrow> index_price \<Rightarrow> int" where
  "deviation_bps p reference =
     (if reference = 0 then u32_max
      else let diff = \<bar>p - reference\<bar>;
               bps = sat_u128 (diff * DEVIATION_SCALE) div reference
           in min bps u32_max)"

definition filter_by_deviation :: "index_price list \<Rightarrow> index_price \<Rightarrow> int \<Rightarrow> index_price list" where
  "filter_by_deviation prices reference cap = filter (\<lambda>p. deviation_bps p reference \<le> cap) prices"

definition aggregate_index :: "index_price list \<Rightarrow> oracle_params \<Rightarrow> aggregation_error + index_price" where
  "aggregate_index fresh params =
     (let fresh_count = min (int (length fresh)) u8_max
      in if fresh_count < min_feeds_required params
         then Inl (TooFewFreshFeeds fresh_count (min_feeds_required params))
         else case compute_median fresh of
             None \<Rightarrow> Inl (TooFewFreshFeeds 0 (min_feeds_required params))
           | Some initial \<Rightarrow>
               let filtered = filter_by_deviation fresh initial (max_deviation_bps params);
                   filtered_count = min (int (length filtered)) u8_max
               in if filtered_count < min_feeds_required params
                  then Inl (TooFewAfterDeviationFilter filtered_count (min_feeds_required params))
                  else case compute_median filtered of
                      None \<Rightarrow> Inl (TooFewAfterDeviationFilter 0 (min_feeds_required params))
                    | Some p \<Rightarrow> Inr p)"

section \<open>Signatures\<close>

text \<open>What \<open>verify.rs\<close> calls of \<open>k256\<close>: parsing a key, parsing a signature, verification.\<close>

record ('vk, 'sig) k256 =
  from_sec1_bytes :: "bytes \<Rightarrow> 'vk option"
  sig_from_slice :: "bytes \<Rightarrow> 'sig option"
  vk_verify :: "'vk \<Rightarrow> bytes \<Rightarrow> 'sig \<Rightarrow> bool"

definition verify_observation :: "('vk, 'sig) k256 \<Rightarrow> price_observation \<Rightarrow> publisher_key \<Rightarrow> bool" where
  "verify_observation ec obs pubkey =
     (case from_sec1_bytes ec pubkey of
        None \<Rightarrow> False
      | Some verifying_key \<Rightarrow>
          (case sig_from_slice ec (obs_signature obs) of
             None \<Rightarrow> False
           | Some signature \<Rightarrow> vk_verify ec verifying_key (signed_bytes obs) signature))"

section \<open>The state machine\<close>

record feed_record =
  last_price :: index_price
  last_timestamp :: int

record oracle_state =
  o_params :: oracle_params
  o_feeds :: "(feed_id, feed_record) btree"
  o_publishers :: "(feed_id, publisher_key) btree"
  o_current :: "aggregated_price option"

definition new_oracle :: "oracle_params \<Rightarrow> oracle_state" where
  "new_oracle params = \<lparr>o_params = params, o_feeds = [], o_publishers = [], o_current = None\<rparr>"

definition register_publisher :: "oracle_state \<Rightarrow> feed_id \<Rightarrow> publisher_key \<Rightarrow> oracle_state" where
  "register_publisher st feed key = st\<lparr>o_publishers := bt_insert feed key (o_publishers st)\<rparr>"

definition revoke_publisher :: "oracle_state \<Rightarrow> feed_id \<Rightarrow> oracle_state" where
  "revoke_publisher st feed = st\<lparr>o_publishers := bt_remove feed (o_publishers st)\<rparr>"

definition publisher :: "oracle_state \<Rightarrow> feed_id \<Rightarrow> publisher_key option" where
  "publisher st feed = map_of (o_publishers st) feed"

definition publisher_count :: "oracle_state \<Rightarrow> nat" where
  "publisher_count st = length (o_publishers st)"

definition feed_count :: "oracle_state \<Rightarrow> nat" where
  "feed_count st = length (o_feeds st)"

definition is_stale :: "int \<Rightarrow> int \<Rightarrow> int \<Rightarrow> bool" where
  "is_stale obs_ts now window \<longleftrightarrow> obs_ts < sat_u64 (now - window)"

definition fresh_feed_count :: "oracle_state \<Rightarrow> int \<Rightarrow> nat" where
  "fresh_feed_count st now =
     length (filter (\<lambda>r. \<not> is_stale (last_timestamp r) now (staleness_window_secs (o_params st)))
       (map snd (o_feeds st)))"

definition current_price :: "oracle_state \<Rightarrow> index_price option" where
  "current_price st = map_option agg_index (o_current st)"

definition current_price_fresh_at :: "oracle_state \<Rightarrow> int \<Rightarrow> index_price option" where
  "current_price_fresh_at st now =
     (case o_current st of
        None \<Rightarrow> None
      | Some agg \<Rightarrow>
          let age = sat_u64 (now - computed_at agg)
          in if age \<le> aggregate_max_age_secs (o_params st) then Some (agg_index agg) else None)"

definition restore_current :: "oracle_state \<Rightarrow> aggregated_price \<Rightarrow> oracle_state" where
  "restore_current st p = st\<lparr>o_current := Some p\<rparr>"

definition validate_and_store ::
  "oracle_state \<Rightarrow> price_observation \<Rightarrow> int \<Rightarrow> oracle_state \<times> (observation_error + unit)" where
  "validate_and_store st obs now =
     (let window = staleness_window_secs (o_params st); ts = obs_timestamp obs
      in if ts > now then (st, Inl (FromFuture ts now))
         else if is_stale ts now window then (st, Inl (StaleObs ts now window))
         else if obs_price obs = 0 then (st, Inl ZeroPrice)
         else if (case map_of (o_feeds st) (obs_feed obs) of
                    Some prior \<Rightarrow> ts < last_timestamp prior | None \<Rightarrow> False)
         then (st, Inl (StaleObs ts now window))
         else (st\<lparr>o_feeds := bt_insert (obs_feed obs)
                    \<lparr>last_price = obs_price obs, last_timestamp = ts\<rparr> (o_feeds st)\<rparr>, Inr ()))"

definition ingest :: "oracle_state \<Rightarrow> price_observation \<Rightarrow> int \<Rightarrow> oracle_state \<times> (observation_error + unit)" where
  "ingest st obs now = validate_and_store st obs now"

definition ingest_signed ::
  "('vk, 'sig) k256 \<Rightarrow> oracle_state \<Rightarrow> price_observation \<Rightarrow> int \<Rightarrow> oracle_state \<times> (observation_error + unit)" where
  "ingest_signed ec st obs now =
     (case map_of (o_publishers st) (obs_feed obs) of
        None \<Rightarrow> (st, Inl (UnknownFeed (obs_feed obs)))
      | Some pubkey \<Rightarrow>
          if \<not> verify_observation ec obs pubkey then (st, Inl (InvalidSignature (obs_feed obs)))
          else validate_and_store st obs now)"

definition fresh_prices :: "oracle_state \<Rightarrow> int \<Rightarrow> index_price list" where
  "fresh_prices st now =
     map last_price (filter (\<lambda>r. \<not> is_stale (last_timestamp r) now (staleness_window_secs (o_params st)))
       (map snd (o_feeds st)))"

definition refresh :: "oracle_state \<Rightarrow> int \<Rightarrow> oracle_state \<times> (aggregation_error + aggregated_price)" where
  "refresh st now =
     (let fresh = fresh_prices st now
      in case aggregate_index fresh (o_params st) of
           Inl e \<Rightarrow> (st, Inl e)
         | Inr index \<Rightarrow>
             let agg = \<lparr>agg_index = index, computed_at = now, feeds_used = min (int (length fresh)) u8_max\<rparr>
             in (st\<lparr>o_current := Some agg\<rparr>, Inr agg))"

section \<open>Medians\<close>

definition prices_ok :: "index_price list \<Rightarrow> bool" where
  "prices_ok ps \<longleftrightarrow> (\<forall>p \<in> set ps. in_u64 p \<and> 0 < p)"

definition within :: "int \<Rightarrow> int \<Rightarrow> int \<Rightarrow> bool" where
  "within lo hi x \<longleftrightarrow> lo \<le> x \<and> x \<le> hi"

definition majority_within :: "int \<Rightarrow> int \<Rightarrow> int list \<Rightarrow> bool" where
  "majority_within lo hi xs \<longleftrightarrow> length xs < 2 * length (filter (within lo hi) xs)"

lemma count_if_below:
  assumes "sorted s" "i < length s" "s ! i < lo"
  shows "length (filter (within lo hi) s) \<le> length s - Suc i"
proof -
  have "\<not> within lo hi x" if "x \<in> set (take (Suc i) s)" for x
  proof -
    from that obtain j where "j < Suc i" "j < length s" "x = s ! j"
      by (auto simp: in_set_conv_nth)
    then have "x \<le> s ! i" using assms(1,2) by (simp add: sorted_nth_mono)
    then show ?thesis using assms(3) by (simp add: within_def)
  qed
  then have "filter (within lo hi) (take (Suc i) s) = []" by (simp add: filter_empty_conv)
  then have "filter (within lo hi) s = filter (within lo hi) (drop (Suc i) s)"
    by (metis append_Nil append_take_drop_id filter_append)
  then show ?thesis using length_filter_le[of "within lo hi" "drop (Suc i) s"] by simp
qed

lemma count_if_above:
  assumes "sorted s" "i < length s" "hi < s ! i"
  shows "length (filter (within lo hi) s) \<le> i"
proof -
  have "\<not> within lo hi x" if "x \<in> set (drop i s)" for x
  proof -
    from that obtain j where "j < length (drop i s)" "x = drop i s ! j" by (metis in_set_conv_nth)
    then have "i + j < length s" "x = s ! (i + j)" by simp_all
    then have "s ! i \<le> x" using assms(1) by (simp add: sorted_nth_mono)
    then show ?thesis using assms(3) by (simp add: within_def)
  qed
  then have "filter (within lo hi) (drop i s) = []" by (simp add: filter_empty_conv)
  then have "filter (within lo hi) s = filter (within lo hi) (take i s)"
    by (metis append_Nil2 append_take_drop_id filter_append)
  then show ?thesis using length_filter_le[of "within lo hi" "take i s"] by simp
qed

lemma majority_sort: "majority_within lo hi (sort xs) \<longleftrightarrow> majority_within lo hi xs"
proof -
  have "size (mset (filter (within lo hi) (sort xs))) = size (mset (filter (within lo hi) xs))" by simp
  then show ?thesis by (simp only: majority_within_def size_mset length_sort)
qed

lemma majority_middle:
  assumes "sorted s" "majority_within lo hi s"
  shows "within lo hi (s ! (length s div 2))"
    and "length s mod 2 = 0 \<Longrightarrow> within lo hi (s ! (length s div 2 - 1))"
proof -
  let ?n = "length s"
  have n: "0 < ?n" using assms(2) by (cases s) (auto simp: majority_within_def)
  have m: "?n < 2 * length (filter (within lo hi) s)" using assms(2) by (simp add: majority_within_def)
  have i1: "?n div 2 < ?n" using n by simp
  have i2: "?n div 2 - 1 < ?n" by (rule le_less_trans[OF diff_le_self i1])
  note i = i1 i2
  show "within lo hi (s ! (?n div 2))"
    using count_if_below[OF assms(1) i(1), of lo hi] count_if_above[OF assms(1) i(1), of hi lo] m
    by (fastforce simp: within_def not_le)
  show "within lo hi (s ! (?n div 2 - 1))" if "?n mod 2 = 0"
    using count_if_below[OF assms(1) i(2), of lo hi] count_if_above[OF assms(1) i(2), of hi lo] m that n
    by (fastforce simp: within_def not_le)
qed

lemma sort_nth_in_u64:
  assumes "prices_ok ps" "i < length ps"
  shows "in_u64 (sort ps ! i)"
  using assms nth_mem[of i "sort ps"] by (simp add: prices_ok_def)

lemma midpoint_within:
  assumes "in_u64 a" "in_u64 b" "within lo hi a" "within lo hi b"
  shows "within lo hi (min ((a + b) div 2) u64_max)"
proof -
  have "(a + b) div 2 \<le> u64_max" "lo \<le> (a + b) div 2" "(a + b) div 2 \<le> hi"
    using assms by (auto simp: within_def in_u64_def)
  then show ?thesis by (simp add: within_def)
qed

lemma median_majority:
  assumes "prices_ok ps" "majority_within lo hi ps" "compute_median ps = Some m"
  shows "within lo hi m"
proof -
  let ?s = "sort ps"
  have ne: "ps \<noteq> []" using assms(3) by (auto simp: compute_median_def)
  have mid: "within lo hi (?s ! (length ?s div 2))" "length ?s mod 2 = 0 \<Longrightarrow> within lo hi (?s ! (length ?s div 2 - 1))"
    using majority_middle[of ?s lo hi] assms(2) majority_sort by auto
  show ?thesis
  proof (cases "length ps mod 2 = 1")
    case True
    then show ?thesis using mid(1) assms(3) ne by (simp add: compute_median_def Let_def)
  next
    case False
    let ?a = "?s ! (length ps div 2 - 1)" and ?b = "?s ! (length ps div 2)"
    have i: "length ps div 2 < length ps" using ne by simp
    from i le_less_trans[OF diff_le_self i] have "in_u64 ?a" "in_u64 ?b" using sort_nth_in_u64[OF assms(1)] by blast+
    moreover have "m = min ((?a + ?b) div 2) u64_max"
      using False assms(3) ne by (simp add: compute_median_def Let_def)
    moreover have "within lo hi ?a" "within lo hi ?b" using mid False by simp_all
    ultimately show ?thesis using midpoint_within by simp
  qed
qed

lemma compute_median_Some: "ps \<noteq> [] \<Longrightarrow> \<exists>m. compute_median ps = Some m"
  by (simp add: compute_median_def Let_def)

lemma deviation_le_iff:
  assumes "in_u64 p" "in_u64 r" "0 < r" "0 \<le> cap" "cap < u32_max"
  shows "deviation_bps p r \<le> cap \<longleftrightarrow> \<bar>p - r\<bar> * 10000 < (cap + 1) * r"
proof -
  have "\<bar>p - r\<bar> \<le> u64_max" using assms(1,2) by (auto simp: in_u64_def)
  then have "sat_u128 (\<bar>p - r\<bar> * DEVIATION_SCALE) = \<bar>p - r\<bar> * 10000"
    unfolding DEVIATION_SCALE_def by (intro u128.sat_id) simp_all
  then have "deviation_bps p r \<le> cap \<longleftrightarrow> \<bar>p - r\<bar> * 10000 div r < cap + 1"
    using assms(3,5) by (auto simp: deviation_bps_def Let_def min_le_iff_disj)
  also have "\<dots> \<longleftrightarrow> \<bar>p - r\<bar> * 10000 < (cap + 1) * r"
    using assms(3) by (rule div_less_iff)
  finally show ?thesis .
qed

section \<open>Runs of the state machine\<close>

definition oracle_ok :: "oracle_state \<Rightarrow> bool" where
  "oracle_ok st \<longleftrightarrow> bt_ok (o_feeds st) \<and> bt_ok (o_publishers st)
     \<and> (\<forall>(f, r) \<in> set (o_feeds st). in_u64 (last_price r) \<and> 0 < last_price r \<and> in_u64 (last_timestamp r))"

text \<open>Everything a caller can do to an oracle.\<close>

datatype oracle_event =
    Register feed_id publisher_key
  | Revoke feed_id
  | Ingest price_observation int
  | IngestSigned price_observation int
  | Refresh int
  | RestoreCurrent aggregated_price

fun oracle_apply :: "('vk, 'sig) k256 \<Rightarrow> oracle_event \<Rightarrow> oracle_state \<Rightarrow> oracle_state" where
  "oracle_apply ec (Register f key) st = register_publisher st f key"
| "oracle_apply ec (Revoke f) st = revoke_publisher st f"
| "oracle_apply ec (Ingest obs now) st = fst (ingest st obs now)"
| "oracle_apply ec (IngestSigned obs now) st = fst (ingest_signed ec st obs now)"
| "oracle_apply ec (Refresh now) st = fst (refresh st now)"
| "oracle_apply ec (RestoreCurrent p) st = restore_current st p"

definition oracle_run :: "('vk, 'sig) k256 \<Rightarrow> oracle_event list \<Rightarrow> oracle_state \<Rightarrow> oracle_state" where
  "oracle_run ec evs st = fold (oracle_apply ec) evs st"

lemma oracle_run_simps [simp]:
  "oracle_run ec [] st = st" "oracle_run ec (e # evs) st = oracle_run ec evs (oracle_apply ec e st)"
  "oracle_run ec (evs @ evs') st = oracle_run ec evs' (oracle_run ec evs st)"
  by (simp_all add: oracle_run_def)

fun obs_of :: "oracle_event \<Rightarrow> price_observation list" where
  "obs_of (Ingest obs now) = [obs]"
| "obs_of (IngestSigned obs now) = [obs]"
| "obs_of _ = []"

definition event_ok :: "oracle_event \<Rightarrow> bool" where
  "event_ok e \<longleftrightarrow> (\<forall>obs \<in> set (obs_of e). in_u64 (obs_price obs) \<and> in_u64 (obs_timestamp obs))"

lemma new_oracle_ok [simp]: "oracle_ok (new_oracle params)"
  by (simp add: oracle_ok_def new_oracle_def bt_ok_def)

lemma validate_and_store_cases:
  "validate_and_store st obs now = (st', res) \<Longrightarrow>
     (st' = st \<and> isl res)
   \<or> (res = Inr () \<and> obs_price obs \<noteq> 0 \<and> obs_timestamp obs \<le> now
      \<and> \<not> is_stale (obs_timestamp obs) now (staleness_window_secs (o_params st))
      \<and> (\<forall>prior. map_of (o_feeds st) (obs_feed obs) = Some prior \<longrightarrow> last_timestamp prior \<le> obs_timestamp obs)
      \<and> st' = st\<lparr>o_feeds := bt_insert (obs_feed obs)
            \<lparr>last_price = obs_price obs, last_timestamp = obs_timestamp obs\<rparr> (o_feeds st)\<rparr>)"
  by (auto simp: validate_and_store_def Let_def split: if_splits option.splits)

lemma ingest_signed_cases:
  assumes "ingest_signed ec st obs now = (st', res)"
  shows "(st' = st \<and> isl res) \<or> (\<exists>key. map_of (o_publishers st) (obs_feed obs) = Some key
    \<and> verify_observation ec obs key \<and> validate_and_store st obs now = (st', res))"
  using assms by (auto simp: ingest_signed_def split: option.splits if_splits)

lemma store_ok:
  assumes "oracle_ok st" "in_u64 (obs_price obs)" "in_u64 (obs_timestamp obs)"
  shows "oracle_ok (fst (validate_and_store st obs now))"
proof -
  obtain st' res where v: "validate_and_store st obs now = (st', res)" by fastforce
  let ?r = "\<lparr>last_price = obs_price obs, last_timestamp = obs_timestamp obs\<rparr>"
  have "set (bt_insert (obs_feed obs) ?r (o_feeds st)) \<subseteq> insert (obs_feed obs, ?r) (set (o_feeds st))"
    by (rule bt_insert_set)
  then show ?thesis
    using validate_and_store_cases[OF v] assms v bt_insert_ok[of "o_feeds st" "obs_feed obs" ?r]
    by (fastforce simp: oracle_ok_def in_u64_def)
qed

lemma oracle_apply_ok: "oracle_ok st \<Longrightarrow> event_ok e \<Longrightarrow> oracle_ok (oracle_apply ec e st)"
proof (cases e)
  case (IngestSigned obs now)
  assume "oracle_ok st" "event_ok e"
  then show ?thesis using IngestSigned store_ok[of st obs now]
      ingest_signed_cases[of ec st obs now "fst (ingest_signed ec st obs now)" "snd (ingest_signed ec st obs now)"]
    by (auto simp: event_ok_def)
next
  case (Ingest obs now)
  assume "oracle_ok st" "event_ok e"
  then show ?thesis using Ingest store_ok[of st obs now] by (simp add: ingest_def event_ok_def)
qed (auto simp: oracle_ok_def register_publisher_def revoke_publisher_def refresh_def restore_current_def
    bt_insert_ok bt_remove_ok Let_def split: sum.splits)

lemma oracle_run_ok: "oracle_ok st \<Longrightarrow> \<forall>e \<in> set evs. event_ok e \<Longrightarrow> oracle_ok (oracle_run ec evs st)"
  unfolding oracle_run_def by (induction evs arbitrary: st) (auto intro: oracle_apply_ok)

text \<open>What one event can do to the record of a feed.\<close>

lemma oracle_apply_feed:
  assumes "oracle_ok st" "map_of (o_feeds (oracle_apply ec e st)) f = Some r"
  shows "map_of (o_feeds st) f = Some r
    \<or> (\<exists>obs now. (e = Ingest obs now \<or> e = IngestSigned obs now \<and>
          (\<exists>key. map_of (o_publishers st) f = Some key \<and> verify_observation ec obs key))
        \<and> obs_feed obs = f \<and> obs_price obs = last_price r \<and> obs_timestamp obs = last_timestamp r
        \<and> (\<forall>prior. map_of (o_feeds st) f = Some prior \<longrightarrow> last_timestamp prior \<le> last_timestamp r))"
proof -
  have bt: "bt_ok (o_feeds st)" using assms(1) by (simp add: oracle_ok_def)
  have store: "map_of (o_feeds st') f = Some r \<Longrightarrow> map_of (o_feeds st) f = Some r \<or>
      (obs_feed obs = f \<and> obs_price obs = last_price r \<and> obs_timestamp obs = last_timestamp r
       \<and> (\<forall>prior. map_of (o_feeds st) f = Some prior \<longrightarrow> last_timestamp prior \<le> last_timestamp r))"
    if "validate_and_store st obs now = (st', res)" for obs now st' res
    using validate_and_store_cases[OF that] by (auto simp: map_of_bt_insert[OF bt] split: if_splits)
  show ?thesis
  proof (cases e)
    case (Ingest obs now)
    obtain st' res where v: "validate_and_store st obs now = (st', res)" by fastforce
    then show ?thesis using store[OF v] assms(2) Ingest by (auto simp: ingest_def)
  next
    case (IngestSigned obs now)
    obtain st' res where v: "ingest_signed ec st obs now = (st', res)" by fastforce
    then show ?thesis using ingest_signed_cases[OF v] store assms(2) IngestSigned by fastforce
  qed (use assms(2) in \<open>auto simp: register_publisher_def revoke_publisher_def refresh_def restore_current_def
      Let_def split: sum.splits\<close>)
qed

lemma oracle_apply_keeps:
  assumes "oracle_ok st" "map_of (o_feeds st) f = Some r"
  shows "\<exists>r'. map_of (o_feeds (oracle_apply ec e st)) f = Some r' \<and> last_timestamp r \<le> last_timestamp r'"
proof -
  have bt: "bt_ok (o_feeds st)" using assms(1) by (simp add: oracle_ok_def)
  have store: "\<exists>r'. map_of (o_feeds st') f = Some r' \<and> last_timestamp r \<le> last_timestamp r'"
    if "validate_and_store st obs now = (st', res)" for obs now st' res
    using validate_and_store_cases[OF that] assms(2) by (auto simp: map_of_bt_insert[OF bt])
  show ?thesis
  proof (cases e)
    case (Ingest obs now)
    obtain st' res where v: "validate_and_store st obs now = (st', res)" by fastforce
    then show ?thesis using store[OF v] Ingest by (simp add: ingest_def)
  next
    case (IngestSigned obs now)
    obtain st' res where v: "ingest_signed ec st obs now = (st', res)" by fastforce
    then show ?thesis using ingest_signed_cases[OF v] store assms(2) IngestSigned by fastforce
  qed (use assms(2) in \<open>auto simp: register_publisher_def revoke_publisher_def refresh_def restore_current_def
      Let_def split: sum.splits\<close>)
qed

lemma oracle_run_origin:
  assumes "\<forall>e \<in> set evs. event_ok e" "oracle_ok st" "o_feeds st = []"
    and "map_of (o_feeds (oracle_run ec evs st)) f = Some r"
  shows "\<exists>pre e post obs now. evs = pre @ e # post \<and> obs_feed obs = f
        \<and> obs_price obs = last_price r \<and> obs_timestamp obs = last_timestamp r
        \<and> (e = Ingest obs now \<or> e = IngestSigned obs now \<and>
             (\<exists>key. publisher (oracle_run ec pre st) f = Some key \<and> verify_observation ec obs key))"
  using assms(1,4)
proof (induction evs rule: rev_induct)
  case Nil
  then show ?case using assms(3) by simp
next
  case (snoc e evs)
  let ?st = "oracle_run ec evs st"
  have ok: "oracle_ok ?st" using snoc(2) assms(2) by (intro oracle_run_ok) auto
  have "map_of (o_feeds (oracle_apply ec e ?st)) f = Some r" using snoc(3) by simp
  from oracle_apply_feed[OF ok this]
  consider "map_of (o_feeds ?st) f = Some r"
    | obs now where "e = Ingest obs now \<or> e = IngestSigned obs now \<and>
          (\<exists>key. publisher ?st f = Some key \<and> verify_observation ec obs key)"
        "obs_feed obs = f" "obs_price obs = last_price r" "obs_timestamp obs = last_timestamp r"
    unfolding publisher_def by blast
  then show ?case
  proof cases
    case 1
    then obtain pre e' post obs now where "evs = pre @ e' # post" "obs_feed obs = f"
      "obs_price obs = last_price r" "obs_timestamp obs = last_timestamp r"
      "e' = Ingest obs now \<or> e' = IngestSigned obs now \<and>
         (\<exists>key. publisher (oracle_run ec pre st) f = Some key \<and> verify_observation ec obs key)"
      using snoc by auto
    moreover from this have "evs @ [e] = pre @ e' # (post @ [e])" by simp
    ultimately show ?thesis by blast
  next
    case (2 obs now)
    then show ?thesis by blast
  qed
qed

lemma oracle_run_keeps:
  assumes "\<forall>e \<in> set evs. event_ok e" "oracle_ok st" "map_of (o_feeds st) f = Some r"
  shows "\<exists>r'. map_of (o_feeds (oracle_run ec evs st)) f = Some r' \<and> last_timestamp r \<le> last_timestamp r'"
  using assms
proof (induction evs arbitrary: st r)
  case (Cons e evs)
  obtain r' where r': "map_of (o_feeds (oracle_apply ec e st)) f = Some r'" "last_timestamp r \<le> last_timestamp r'"
    using oracle_apply_keeps[OF Cons.prems(2,3)] by blast
  have "oracle_ok (oracle_apply ec e st)" using Cons.prems by (intro oracle_apply_ok) auto
  then show ?case using Cons.IH[OF _ _ r'(1)] Cons.prems(1) r'(2) by fastforce
qed auto

section \<open>Properties\<close>

text \<open>C10: the aggregate tolerates a faulty minority. If a strict majority of the fresh feeds, and
  at least the required number, report prices in a band narrower than the deviation
  cap, the aggregation succeeds and its result lies in that band, whatever the other feeds report: they can neither
  move the index nor stop it.\<close>

theorem aggregate_byzantine_robust:
  assumes ok: "prices_ok fresh" and maj: "majority_within lo hi fresh"
    and quorum: "min_feeds_required params \<le> int (length (filter (within lo hi) fresh))"
    and p8: "in_u8 (min_feeds_required params)" and cap: "0 \<le> max_deviation_bps params" "max_deviation_bps params < u32_max"
    and band: "0 < lo" "(hi - lo) * 10000 < (max_deviation_bps params + 1) * lo"
  shows "\<exists>p. aggregate_index fresh params = Inr p \<and> lo \<le> p \<and> p \<le> hi"
proof -
  let ?cap = "max_deviation_bps params" and ?H = "filter (within lo hi)"
  have ne: "fresh \<noteq> []" using maj by (auto simp: majority_within_def)
  obtain m where m: "compute_median fresh = Some m" using compute_median_Some[OF ne] by blast
  have mw: "lo \<le> m" "m \<le> hi" using median_majority[OF ok maj m] by (simp_all add: within_def)
  have hon: "?H fresh \<noteq> []" using maj by (auto simp: majority_within_def)
  then obtain h where h: "h \<in> set fresh" "within lo hi h" by (auto simp: filter_empty_conv)
  have "in_u64 m"
  proof -
    have "majority_within 0 u64_max fresh"
      using ok ne by (auto simp: majority_within_def prices_ok_def within_def in_u64_def filter_True)
    then show ?thesis using median_majority[OF ok _ m] by (simp add: within_def in_u64_def)
  qed
  have keep: "deviation_bps x m \<le> ?cap" if "x \<in> set fresh" "within lo hi x" for x
  proof -
    have "\<bar>x - m\<bar> \<le> hi - lo" using that(2) mw by (auto simp: within_def)
    then have "\<bar>x - m\<bar> * 10000 \<le> (hi - lo) * 10000" by (rule mult_right_mono) simp
    also have "\<dots> < (?cap + 1) * lo" by (rule band(2))
    also have "\<dots> \<le> (?cap + 1) * m" using cap(1) mw(1) by (simp add: mult_left_mono)
    finally show ?thesis
      using deviation_le_iff[of x m ?cap] \<open>in_u64 m\<close> that(1) ok cap mw(1) band(1) by (simp add: prices_ok_def)
  qed
  let ?f = "filter_by_deviation fresh m ?cap"
  have Hf: "?H ?f = ?H fresh"
    unfolding filter_by_deviation_def filter_filter using keep by (intro filter_cong) auto
  have len: "length ?f \<le> length fresh" by (simp add: filter_by_deviation_def)
  have okf: "prices_ok ?f" using ok by (simp add: prices_ok_def filter_by_deviation_def)
  have majf: "majority_within lo hi ?f" using maj len Hf by (simp add: majority_within_def)
  have nef: "?f \<noteq> []" using Hf hon by auto
  obtain p where p: "compute_median ?f = Some p" using compute_median_Some[OF nef] by blast
  have "length (?H fresh) \<le> length ?f" using Hf length_filter_le[of "within lo hi" ?f] by simp
  then have "min_feeds_required params \<le> min (int (length ?f)) u8_max"
    "min_feeds_required params \<le> min (int (length fresh)) u8_max"
    using quorum p8 len by (simp_all add: in_u8_def)
  then have "aggregate_index fresh params = Inr p" using m p by (simp add: aggregate_index_def Let_def min_less_iff_disj not_less)
  moreover have "lo \<le> p" "p \<le> hi" using median_majority[OF okf majf p] by (simp_all add: within_def)
  ultimately show ?thesis by blast
qed

theorem aggregate_byzantine_robust_witness:
  "\<exists>p. aggregate_index [1000, 1004, 1, 1002, 90000000] oracle_hyperliquid_default = Inr p \<and> 1000 \<le> p \<and> p \<le> 1004"
  using aggregate_byzantine_robust[of "[1000, 1004, 1, 1002, 90000000]" 1000 1004 oracle_hyperliquid_default]
  by (simp add: prices_ok_def in_u64_def majority_within_def within_def oracle_hyperliquid_default_def in_u8_def)

text \<open>C25: authenticity and replay protection. In any run from an empty oracle, every stored record
  of a feed was accepted from an observation of that feed with that price and time which,
  on the signed path, verified under the key registered for the feed at that moment; and the stored
  timestamp of a feed never moves back.\<close>

theorem oracle_authentic:
  assumes "\<forall>e \<in> set (evs @ evs'). event_ok e"
    and "map_of (o_feeds (oracle_run ec evs (new_oracle params))) f = Some r"
  shows "(\<exists>pre e post obs now. evs = pre @ e # post \<and> obs_feed obs = f
        \<and> obs_price obs = last_price r \<and> obs_timestamp obs = last_timestamp r
        \<and> (e = Ingest obs now \<or> e = IngestSigned obs now \<and>
             (\<exists>key. publisher (oracle_run ec pre (new_oracle params)) f = Some key \<and> verify_observation ec obs key)))
    \<and> (\<exists>r'. map_of (o_feeds (oracle_run ec (evs @ evs') (new_oracle params))) f = Some r'
        \<and> last_timestamp r \<le> last_timestamp r')"
proof
  show "\<exists>pre e post obs now. evs = pre @ e # post \<and> obs_feed obs = f
        \<and> obs_price obs = last_price r \<and> obs_timestamp obs = last_timestamp r
        \<and> (e = Ingest obs now \<or> e = IngestSigned obs now \<and>
             (\<exists>key. publisher (oracle_run ec pre (new_oracle params)) f = Some key \<and> verify_observation ec obs key))"
    using assms by (intro oracle_run_origin) (auto simp: new_oracle_def oracle_ok_def bt_ok_def)
  have "oracle_ok (oracle_run ec evs (new_oracle params))" using assms(1) by (intro oracle_run_ok) auto
  then show "\<exists>r'. map_of (o_feeds (oracle_run ec (evs @ evs') (new_oracle params))) f = Some r'
        \<and> last_timestamp r \<le> last_timestamp r'"
    using oracle_run_keeps[OF _ _ assms(2), of evs' ec] assms(1) by simp
qed

text \<open>The witness instantiates the signature scheme by one in which a key is its own signature.\<close>

definition self_signed_scheme :: "(bytes, bytes) k256" where
  "self_signed_scheme = \<lparr>from_sec1_bytes = Some, sig_from_slice = Some, vk_verify = (\<lambda>k m s. k = s)\<rparr>"

theorem oracle_authentic_witness:
  "let ec = self_signed_scheme;
       obs = \<lparr>obs_feed = 7, obs_price = 100, obs_timestamp = 50, obs_signature = [1, 2]\<rparr>;
       evs = [Register 7 [1, 2], IngestSigned obs 60];
       r = \<lparr>last_price = 100, last_timestamp = 50\<rparr>
   in map_of (o_feeds (oracle_run ec evs (new_oracle oracle_hyperliquid_default))) 7 = Some r
     \<and> (\<exists>r'. map_of (o_feeds (oracle_run ec (evs @ [Refresh 60]) (new_oracle oracle_hyperliquid_default))) 7 = Some r'
          \<and> last_timestamp r \<le> last_timestamp r')"
proof -
  let ?ec = self_signed_scheme
  let ?obs = "\<lparr>obs_feed = 7, obs_price = 100, obs_timestamp = 50, obs_signature = [1, 2]\<rparr>"
  let ?evs = "[Register 7 [1, 2], IngestSigned ?obs 60]" and ?r = "\<lparr>last_price = 100, last_timestamp = 50\<rparr>"
  have m: "map_of (o_feeds (oracle_run ?ec ?evs (new_oracle oracle_hyperliquid_default))) 7 = Some ?r"
    by (simp add: self_signed_scheme_def new_oracle_def register_publisher_def ingest_signed_def verify_observation_def
        validate_and_store_def is_stale_def oracle_hyperliquid_default_def sat_def)
  have "\<forall>e \<in> set (?evs @ [Refresh 60]). event_ok e" by (simp add: event_ok_def in_u64_def)
  from m conjunct2[OF oracle_authentic[OF this m]] show ?thesis unfolding Let_def by (rule conjI)
qed

text \<open>Freshness of what consumers read. A failed refresh changes nothing. After a successful one at
  time \<open>now\<close>, the index was computed from at least the required number of feeds, each observed no
  longer than the window ago, and the cached price is handed out exactly until it is
  \<open>aggregate_max_age_secs\<close> old.\<close>

theorem refresh_freshness:
  assumes "in_u64 now" "in_u64 later" "now \<le> later" "in_u64 (staleness_window_secs (o_params st))"
    and "in_u8 (min_feeds_required (o_params st))"
  shows "(case refresh st now of
       (st', Inl e) \<Rightarrow> st' = st
     | (st', Inr agg) \<Rightarrow> computed_at agg = now \<and> o_current st' = Some agg \<and> o_feeds st' = o_feeds st
        \<and> min_feeds_required (o_params st) \<le> feeds_used agg
        \<and> feeds_used agg \<le> int (length (filter (\<lambda>(f, r). now - last_timestamp r \<le> staleness_window_secs (o_params st)) (o_feeds st)))
        \<and> (current_price_fresh_at st' later =
             (if later - now \<le> aggregate_max_age_secs (o_params st) then Some (agg_index agg) else None)))"
proof (cases "aggregate_index (fresh_prices st now) (o_params st)")
  case (Inl e)
  then show ?thesis by (simp add: refresh_def Let_def)
next
  case (Inr p)
  let ?w = "staleness_window_secs (o_params st)" and ?f = "fresh_prices st now"
  have age: "sat_u64 (later - now) = later - now"
    using assms(1-3) by (intro sat_u64_eq) (simp add: in_u64_def)
  have "min_feeds_required (o_params st) \<le> min (int (length ?f)) u8_max"
    using Inr by (auto simp: aggregate_index_def Let_def split: if_splits option.splits)
  moreover have "length ?f \<le> length (filter (\<lambda>(f, r). now - last_timestamp r \<le> ?w) (o_feeds st))"
  proof -
    have "\<not> is_stale (last_timestamp r) now ?w \<Longrightarrow> now - last_timestamp r \<le> ?w" for r
      using assms(1,4) by (auto simp: is_stale_def sat_def in_u64_def split: if_splits)
    then show ?thesis
      unfolding fresh_prices_def filter_map length_map comp_def by (intro length_filter_mono) auto
  qed
  ultimately show ?thesis
    using Inr age by (auto simp: refresh_def Let_def current_price_fresh_at_def)
qed

theorem refresh_freshness_witness:
  "let st = (new_oracle oracle_hyperliquid_default)\<lparr>o_feeds :=
       [(1, \<lparr>last_price = 100, last_timestamp = 990\<rparr>), (2, \<lparr>last_price = 100, last_timestamp = 980\<rparr>)]\<rparr>
   in snd (refresh st 1000) = Inr \<lparr>agg_index = 100, computed_at = 1000, feeds_used = 2\<rparr>
     \<and> current_price_fresh_at (fst (refresh st 1000)) 1060 = Some 100"
proof -
  let ?st = "(new_oracle oracle_hyperliquid_default)\<lparr>o_feeds :=
       [(1, \<lparr>last_price = 100, last_timestamp = 990\<rparr>), (2, \<lparr>last_price = 100, last_timestamp = 980\<rparr>)]\<rparr>"
  let ?agg = "\<lparr>agg_index = 100, computed_at = 1000, feeds_used = 2\<rparr>"
  have r: "refresh ?st 1000 = (?st\<lparr>o_current := Some ?agg\<rparr>, Inr ?agg)"
    by (simp add: refresh_def new_oracle_def oracle_hyperliquid_default_def fresh_prices_def is_stale_def sat_def
        aggregate_index_def compute_median_def filter_by_deviation_def deviation_bps_def Let_def)
  have "current_price_fresh_at (?st\<lparr>o_current := Some ?agg\<rparr>) 1060 = Some 100"
    using refresh_freshness[of 1000 1060 ?st] r
    by (simp add: in_u64_def in_u8_def new_oracle_def oracle_hyperliquid_default_def)
  with r show ?thesis by (simp only: Let_def fst_conv snd_conv simp_thms)
qed

text \<open>A signature covers exactly one statement. The signed message is 20 bytes, and two observations
  within the ranges of their fields have the same message only if feed, price and time agree, so a signature
  cannot be moved to another feed, price or time.\<close>

theorem signed_bytes_inj:
  assumes "in_u32 (obs_feed a)" "in_u64 (obs_price a)" "in_u64 (obs_timestamp a)"
    and "in_u32 (obs_feed b)" "in_u64 (obs_price b)" "in_u64 (obs_timestamp b)"
  shows "length (signed_bytes a) = 20 \<and>
    (signed_bytes a = signed_bytes b \<longleftrightarrow>
       obs_feed a = obs_feed b \<and> obs_price a = obs_price b \<and> obs_timestamp a = obs_timestamp b)"
proof -
  have "to_be_bytes 4 (obs_feed a) = to_be_bytes 4 (obs_feed b) \<Longrightarrow> obs_feed a = obs_feed b"
    using assms(1,4) by (intro to_be_bytes_inj[of 4]) (simp_all add: in_u32_def)
  moreover have "to_be_bytes 8 (obs_price a) = to_be_bytes 8 (obs_price b) \<Longrightarrow> obs_price a = obs_price b"
    using assms(2,5) by (intro to_be_bytes_inj[of 8]) (simp_all add: in_u64_def)
  moreover have "to_be_bytes 8 (obs_timestamp a) = to_be_bytes 8 (obs_timestamp b) \<Longrightarrow> obs_timestamp a = obs_timestamp b"
    using assms(3,6) by (intro to_be_bytes_inj[of 8]) (simp_all add: in_u64_def)
  ultimately show ?thesis by (auto simp: signed_bytes_def)
qed

theorem signed_bytes_inj_witness:
  "length (signed_bytes (unsigned_observation 1 258 7)) = 20
   \<and> signed_bytes (unsigned_observation 1 258 7) \<noteq> signed_bytes (unsigned_observation 1 259 7)"
  using signed_bytes_inj[of "unsigned_observation 1 258 7" "unsigned_observation 1 259 7"]
  by (simp add: unsigned_observation_def in_u32_def in_u64_def)

end
