(* ===== verification/Coordinator.thy ===== *)
theory Coordinator
  imports Scanner Adl Oracle Vault
begin

text \<open>
  The integration coordinator (\<open>crates/node\<close>): one \<open>OpenHlNode\<close> owns an oracle, a liquidation
  scanner, a vault and a funding clock and runs them once per block in a fixed order (\<open>tick\<close>). The step relation
  \<open>node_step\<close> has every public operation that changes a node; the invariant \<open>node_ok\<close> holds in every reachable state.
\<close>

record node_config =
  oracle_refresh_interval_secs :: int
  cfg_liquidation_params :: liquidation_params
  cfg_oracle_params :: oracle_params
  cfg_vault_params :: vault_params
  cfg_funding_params :: funding_params
  run_adl_on_unfilled_deficit :: bool

definition node_hyperliquid_default :: node_config where
  "node_hyperliquid_default =
     \<lparr>oracle_refresh_interval_secs = 12, cfg_liquidation_params = liquidation_hyperliquid_default,
      cfg_oracle_params = oracle_hyperliquid_default, cfg_vault_params = production_default,
      cfg_funding_params = funding_hyperliquid_default, run_adl_on_unfilled_deficit = True\<rparr>"

record tick_input =
  in_block_height :: int
  in_block_time :: int
  in_mark :: mark_price
  in_account_snapshots :: "account_snapshot list"
  in_vault_total_assets :: int

record coordinator_snapshot =
  insurance_fund_balance :: int
  cs_vault_total_shares :: int
  cs_vault_total_assets :: int
  cs_last_oracle_refresh_at :: "int option"
  funding_last_settled_at :: int
  cached_oracle_price :: "aggregated_price option"

record tick_report =
  tr_block_height :: int
  tr_block_time :: int
  tr_oracle :: "(aggregation_error + aggregated_price) option"
  tr_liquidation :: scan_report
  tr_adl :: "adl_report option"
  tr_vault_total_shares :: int
  tr_vault_total_assets :: int
  tr_vault_share_price_bps :: "int option"
  tr_funding :: "funding_tick option"

record open_hl_node =
  n_config :: node_config
  n_oracle :: oracle_state
  n_scanner :: liquidation_scanner
  n_vault :: vault_state
  n_funding_clock :: funding_clock
  last_oracle_refresh_at :: "int option"

definition new_node :: "node_config \<Rightarrow> open_hl_node" where
  "new_node config =
     \<lparr>n_config = config, n_oracle = new_oracle (cfg_oracle_params config),
      n_scanner = with_empty_fund (cfg_liquidation_params config),
      n_vault = new_vault (cfg_vault_params config),
      n_funding_clock = new_funding_clock (cfg_funding_params config) 0,
      last_oracle_refresh_at = None\<rparr>"

definition with_insurance_fund :: "node_config \<Rightarrow> insurance_fund \<Rightarrow> open_hl_node" where
  "with_insurance_fund config fund =
     \<lparr>n_config = config, n_oracle = new_oracle (cfg_oracle_params config),
      n_scanner = new_scanner (cfg_liquidation_params config) fund,
      n_vault = new_vault (cfg_vault_params config),
      n_funding_clock = new_funding_clock (cfg_funding_params config) 0,
      last_oracle_refresh_at = None\<rparr>"

definition node_register_publisher :: "open_hl_node \<Rightarrow> feed_id \<Rightarrow> publisher_key \<Rightarrow> open_hl_node" where
  "node_register_publisher n feed key = n\<lparr>n_oracle := register_publisher (n_oracle n) feed key\<rparr>"

definition ingest_observation ::
  "open_hl_node \<Rightarrow> price_observation \<Rightarrow> int \<Rightarrow> open_hl_node \<times> (observation_error + unit)" where
  "ingest_observation n obs now =
     (let (o', res) = ingest (n_oracle n) obs now in (n\<lparr>n_oracle := o'\<rparr>, res))"

definition ingest_signed_observation ::
  "('vk, 'sig) k256 \<Rightarrow> open_hl_node \<Rightarrow> price_observation \<Rightarrow> int \<Rightarrow> open_hl_node \<times> (observation_error + unit)" where
  "ingest_signed_observation ec n obs now =
     (let (o', res) = ingest_signed ec (n_oracle n) obs now in (n\<lparr>n_oracle := o'\<rparr>, res))"

definition maybe_refresh_oracle ::
  "open_hl_node \<Rightarrow> int \<Rightarrow> open_hl_node \<times> (aggregation_error + aggregated_price) option" where
  "maybe_refresh_oracle n block_time =
     (let should_refresh = (case last_oracle_refresh_at n of
            None \<Rightarrow> True
          | Some prev \<Rightarrow> sat_u64 (block_time - prev) \<ge> oracle_refresh_interval_secs (n_config n))
      in if \<not> should_refresh then (n, None)
         else let (o', result) = refresh (n_oracle n) block_time;
                  n' = n\<lparr>n_oracle := o'\<rparr>
              in (if isl result then n' else n'\<lparr>last_oracle_refresh_at := Some block_time\<rparr>, Some result))"

definition position_of :: "account_snapshot \<Rightarrow> fund_position" where
  "position_of s = \<lparr>pos_account = snap_account s, pos_size = snap_position_size s\<rparr>"

definition tick :: "open_hl_node \<Rightarrow> tick_input \<Rightarrow> open_hl_node \<times> tick_report" where
  "tick n inp =
     (let (n1, oracle_result) = maybe_refresh_oracle n (in_block_time inp);
          scan_mark = (case current_price_fresh_at (n_oracle n1) (in_block_time inp) of
                         Some i \<Rightarrow> i | None \<Rightarrow> in_mark inp);
          (scanner', scan_rep) = scan (n_scanner n1) (in_account_snapshots inp) scan_mark;
          n2 = n1\<lparr>n_scanner := scanner'\<rparr>;
          adl_rep = (if run_adl_on_unfilled_deficit (n_config n2) \<and> unfilled_deficit scan_rep > 0
                     then Some (execute_adl (in_account_snapshots inp) scan_mark (unfilled_deficit scan_rep))
                     else None);
          n3 = n2\<lparr>n_vault := mark_to_market (n_vault n2) (in_vault_total_assets inp)\<rparr>;
          (n4, funding) = (case current_price_fresh_at (n_oracle n3) (in_block_time inp) of
              None \<Rightarrow> (n3, None)
            | Some index \<Rightarrow>
                let positions = map position_of (in_account_snapshots inp);
                    (clock', ft) = clock_tick (n_funding_clock n3) (in_block_time inp) (in_mark inp) index positions
                in (n3\<lparr>n_funding_clock := clock'\<rparr>, ft))
      in (n4, \<lparr>tr_block_height = in_block_height inp, tr_block_time = in_block_time inp,
               tr_oracle = oracle_result, tr_liquidation = scan_rep, tr_adl = adl_rep,
               tr_vault_total_shares = total_shares (n_vault n4),
               tr_vault_total_assets = total_assets (n_vault n4),
               tr_vault_share_price_bps = vault_share_price_bps (n_vault n4),
               tr_funding = funding\<rparr>))"

definition node_snapshot :: "open_hl_node \<Rightarrow> coordinator_snapshot" where
  "node_snapshot n =
     \<lparr>insurance_fund_balance = fund_balance (n_scanner n),
      cs_vault_total_shares = total_shares (n_vault n), cs_vault_total_assets = total_assets (n_vault n),
      cs_last_oracle_refresh_at = last_oracle_refresh_at n,
      funding_last_settled_at = last_settled_at (n_funding_clock n),
      cached_oracle_price = o_current (n_oracle n)\<rparr>"

definition node_load_snapshot :: "open_hl_node \<Rightarrow> coordinator_snapshot \<Rightarrow> open_hl_node" where
  "node_load_snapshot n snap =
     n\<lparr>n_scanner := new_scanner (cfg_liquidation_params (n_config n)) (new_fund (insurance_fund_balance snap)),
       n_vault := restore_vault (cfg_vault_params (n_config n)) (cs_vault_total_shares snap) (cs_vault_total_assets snap),
       n_funding_clock := new_funding_clock (cfg_funding_params (n_config n)) (funding_last_settled_at snap),
       last_oracle_refresh_at := cs_last_oracle_refresh_at snap,
       n_oracle := (case cached_oracle_price snap of
                      Some p \<Rightarrow> restore_current (n_oracle n) p | None \<Rightarrow> n_oracle n)\<rparr>"

section \<open>Reachable nodes\<close>

text \<open>\<open>oracle_mut\<close> and \<open>vault_mut\<close> hand the caller the oracle and the vault: any oracle event, any deposit and any
  withdrawal is a step.\<close>

inductive node_step :: "('vk, 'sig) k256 \<Rightarrow> open_hl_node \<Rightarrow> open_hl_node \<Rightarrow> bool" for ec where
  node_tick: "in_i64 (in_vault_total_assets inp) \<Longrightarrow> node_step ec n (fst (tick n inp))"
| node_oracle: "event_ok e \<Longrightarrow> node_step ec n (n\<lparr>n_oracle := oracle_apply ec e (n_oracle n)\<rparr>)"
| node_deposit: "in_i64 a \<Longrightarrow> node_step ec n (n\<lparr>n_vault := fst (vault_deposit (n_vault n) a)\<rparr>)"
| node_withdraw: "in_u64 x \<Longrightarrow> node_step ec n (n\<lparr>n_vault := fst (vault_withdraw (n_vault n) x)\<rparr>)"

definition node_ok :: "open_hl_node \<Rightarrow> bool" where
  "node_ok n \<longleftrightarrow> oracle_ok (n_oracle n) \<and> o_params (n_oracle n) = cfg_oracle_params (n_config n)
     \<and> ls_params (n_scanner n) = cfg_liquidation_params (n_config n) \<and> fund_ok (ls_fund (n_scanner n))
     \<and> v_params (n_vault n) = cfg_vault_params (n_config n) \<and> vault_ok (n_vault n)
     \<and> clock_params (n_funding_clock n) = cfg_funding_params (n_config n)"

lemma new_node_ok: "node_ok (new_node config)"
  by (simp add: node_ok_def new_node_def with_empty_fund_def new_vault_def vault_ok_def new_funding_clock_def
      new_oracle_def oracle_ok_def bt_ok_def)

lemma with_insurance_fund_ok: "fund_ok fund \<Longrightarrow> node_ok (with_insurance_fund config fund)"
  by (simp add: node_ok_def with_insurance_fund_def new_scanner_def new_vault_def vault_ok_def new_funding_clock_def
      new_oracle_def oracle_ok_def bt_ok_def)

lemma oracle_apply_params [simp]: "o_params (oracle_apply ec e st) = o_params st"
  by (cases e) (auto simp: register_publisher_def revoke_publisher_def ingest_def validate_and_store_def Let_def
      ingest_signed_def refresh_def restore_current_def split: sum.splits option.splits)

lemma refresh_frame:
  "o_params (fst (refresh st now)) = o_params st" "o_feeds (fst (refresh st now)) = o_feeds st"
  "o_publishers (fst (refresh st now)) = o_publishers st"
  by (auto simp: refresh_def Let_def split: sum.splits)

lemma vault_params_frame [simp]:
  "v_params (fst (vault_deposit v a)) = v_params v" "v_params (fst (vault_withdraw v x)) = v_params v"
  by (auto simp: vault_deposit_def vault_withdraw_def Let_def split: option.splits)

lemma vault_deposit_ok: "vault_ok v \<Longrightarrow> vault_ok (fst (vault_deposit v a))"
  by (auto simp: vault_deposit_def vault_ok_def Let_def split: option.splits)

lemma vault_withdraw_ok: "vault_ok v \<Longrightarrow> in_u64 x \<Longrightarrow> vault_ok (fst (vault_withdraw v x))"
  by (auto simp: vault_withdraw_def vault_ok_def Let_def in_u64_def split: option.splits)

lemma clock_tick_params [simp]: "clock_params (fst (clock_tick c now mark idx ps)) = clock_params c"
  by (simp add: clock_tick_def Let_def)

lemma scan_params [simp]: "ls_params (fst (scan sc accounts mark)) = ls_params sc"
  by (simp add: scan_def case_prod_beta Let_def)

text \<open>The oracle of the node during a tick.\<close>

lemma maybe_refresh_frame:
  "n_config (fst (maybe_refresh_oracle n t)) = n_config n"
  "n_scanner (fst (maybe_refresh_oracle n t)) = n_scanner n"
  "n_vault (fst (maybe_refresh_oracle n t)) = n_vault n"
  "n_funding_clock (fst (maybe_refresh_oracle n t)) = n_funding_clock n"
  "o_params (n_oracle (fst (maybe_refresh_oracle n t))) = o_params (n_oracle n)"
  "o_feeds (n_oracle (fst (maybe_refresh_oracle n t))) = o_feeds (n_oracle n)"
  "o_publishers (n_oracle (fst (maybe_refresh_oracle n t))) = o_publishers (n_oracle n)"
  by (auto simp: maybe_refresh_oracle_def Let_def case_prod_beta refresh_frame split: option.splits)

text \<open>The parts of a tick, one by one.\<close>

definition tick_oracle :: "open_hl_node \<Rightarrow> tick_input \<Rightarrow> oracle_state" where
  "tick_oracle n inp = n_oracle (fst (maybe_refresh_oracle n (in_block_time inp)))"

definition solvency_mark :: "open_hl_node \<Rightarrow> tick_input \<Rightarrow> mark_price" where
  "solvency_mark n inp = (case current_price_fresh_at (tick_oracle n inp) (in_block_time inp) of
     Some i \<Rightarrow> i | None \<Rightarrow> in_mark inp)"

lemma tick_parts:
  "n_config (fst (tick n inp)) = n_config n"
  "n_oracle (fst (tick n inp)) = tick_oracle n inp"
  "n_scanner (fst (tick n inp)) = fst (scan (n_scanner n) (in_account_snapshots inp) (solvency_mark n inp))"
  "n_vault (fst (tick n inp)) = mark_to_market (n_vault n) (in_vault_total_assets inp)"
  "n_funding_clock (fst (tick n inp)) = (case current_price_fresh_at (tick_oracle n inp) (in_block_time inp) of
     None \<Rightarrow> n_funding_clock n
   | Some index \<Rightarrow> fst (clock_tick (n_funding_clock n) (in_block_time inp) (in_mark inp) index
       (map position_of (in_account_snapshots inp))))"
  "tr_liquidation (snd (tick n inp)) = snd (scan (n_scanner n) (in_account_snapshots inp) (solvency_mark n inp))"
  "tr_funding (snd (tick n inp)) = (case current_price_fresh_at (tick_oracle n inp) (in_block_time inp) of
     None \<Rightarrow> None
   | Some index \<Rightarrow> snd (clock_tick (n_funding_clock n) (in_block_time inp) (in_mark inp) index
       (map position_of (in_account_snapshots inp))))"
  "tr_oracle (snd (tick n inp)) = snd (maybe_refresh_oracle n (in_block_time inp))"
  "tr_adl (snd (tick n inp)) =
     (if run_adl_on_unfilled_deficit (n_config n) \<and> unfilled_deficit (tr_liquidation (snd (tick n inp))) > 0
      then Some (execute_adl (in_account_snapshots inp) (solvency_mark n inp)
             (unfilled_deficit (tr_liquidation (snd (tick n inp)))))
      else None)"
  by (simp_all add: tick_def tick_oracle_def solvency_mark_def case_prod_beta Let_def maybe_refresh_frame
      split: option.splits)

lemma tick_oracle_computed_at:
  "o_current (tick_oracle n inp) = Some agg \<Longrightarrow>
     o_current (n_oracle n) = Some agg \<or> computed_at agg = in_block_time inp"
  by (auto simp: tick_oracle_def maybe_refresh_oracle_def refresh_def Let_def case_prod_beta
      split: if_splits sum.splits option.splits)

lemma tick_oracle_ok:
  assumes "oracle_ok (n_oracle n)"
  shows "oracle_ok (tick_oracle n inp)"
  using assms by (simp add: oracle_ok_def tick_oracle_def maybe_refresh_frame)

lemma node_step_ok:
  assumes "node_step ec n n'" "node_ok n"
  shows "node_ok n' \<and> n_config n' = n_config n"
  using assms
proof (induction rule: node_step.induct)
  case (node_tick inp n)
  have "o_params (tick_oracle n inp) = o_params (n_oracle n)" by (simp add: tick_oracle_def maybe_refresh_frame)
  then show ?case
    using node_tick tick_oracle_ok[of n inp] scan_fund_ok[of "n_scanner n"]
    by (auto simp: node_ok_def tick_parts mark_to_market_def vault_ok_def split: option.splits)
next
  case (node_oracle e n)
  then show ?case using oracle_apply_ok[of "n_oracle n" e ec] by (simp add: node_ok_def)
next
  case (node_deposit a n)
  then show ?case by (simp add: node_ok_def vault_deposit_ok)
next
  case (node_withdraw x n)
  then show ?case by (simp add: node_ok_def vault_withdraw_ok)
qed

lemma reachable_ok:
  assumes "(node_step ec)\<^sup>*\<^sup>* n0 n" "node_ok n0"
  shows "node_ok n \<and> n_config n = n_config n0"
  using assms by (induction rule: rtranclp_induct) (auto dest: node_step_ok)

text \<open>A node is determined by its snapshot, its configuration and its oracle's tables.\<close>

lemma load_snapshot_restores:
  assumes "node_ok n"
  shows "node_load_snapshot ((new_node (n_config n))\<lparr>n_oracle := (n_oracle n)\<lparr>o_current := None\<rparr>\<rparr>) (node_snapshot n) = n"
proof -
  have sc: "new_scanner (cfg_liquidation_params (n_config n)) (new_fund (fund_balance (n_scanner n))) = n_scanner n"
    using assms
    by (cases "n_scanner n"; cases "ls_fund (n_scanner n)")
      (simp add: new_scanner_def new_fund_def fund_balance_def node_ok_def fund_ok_def)
  have v: "restore_vault (cfg_vault_params (n_config n)) (total_shares (n_vault n)) (total_assets (n_vault n)) = n_vault n"
    using assms by (cases "n_vault n") (simp add: restore_vault_def node_ok_def)
  have c: "new_funding_clock (cfg_funding_params (n_config n)) (last_settled_at (n_funding_clock n)) = n_funding_clock n"
    using assms by (cases "n_funding_clock n") (simp add: new_funding_clock_def node_ok_def)
  have o: "(case o_current (n_oracle n) of Some p \<Rightarrow> restore_current ((n_oracle n)\<lparr>o_current := None\<rparr>) p
      | None \<Rightarrow> (n_oracle n)\<lparr>o_current := None\<rparr>) = n_oracle n"
    by (cases "n_oracle n") (auto simp: restore_current_def split: option.splits)
  show ?thesis
    unfolding node_load_snapshot_def node_snapshot_def new_node_def
    by (rule open_hl_node.equality) (use sc v c o in \<open>simp_all split: option.splits\<close>)
qed

section \<open>Properties\<close>



text \<open>Restart is invisible. For every reachable node, a fresh node with the same configuration whose
  oracle has been fed the same publishers and observations and which then loads the snapshot is
  exactly the old node, so everything it does afterwards is the same.\<close>

theorem restart_round_trip:
  assumes "(node_step ec)\<^sup>*\<^sup>* (with_insurance_fund config fund) n" "fund_ok fund"
  shows "node_load_snapshot ((new_node config)\<lparr>n_oracle := (n_oracle n)\<lparr>o_current := None\<rparr>\<rparr>) (node_snapshot n) = n"
  using load_snapshot_restores[of n] reachable_ok[OF assms(1) with_insurance_fund_ok[OF assms(2)]]
  by (simp add: with_insurance_fund_def)

theorem restart_round_trip_witness:
  "let n = (with_insurance_fund node_hyperliquid_default (new_fund 500))
   in node_load_snapshot ((new_node node_hyperliquid_default)\<lparr>n_oracle := (n_oracle n)\<lparr>o_current := None\<rparr>\<rparr>) (node_snapshot n) = n
     \<and> insurance_fund_balance (node_snapshot n) = 500"
  using restart_round_trip[of self_signed_scheme node_hyperliquid_default "new_fund 500" "with_insurance_fund node_hyperliquid_default (new_fund 500)"]
  by (simp add: node_snapshot_def with_insurance_fund_def new_scanner_def new_fund_def fund_balance_def fund_ok_def)

text \<open>Prices used by a tick. Funding settles only against a cached index that is no older than the
  maximal age, at the current block time, at least one interval after the previous
  settlement, with the premium of the book's mark over that index; liquidation and deleveraging use that index as their mark and
  fall back to the book's mark when there is none; deleveraging runs exactly when enabled and a deficit is left, and accounts for all of it.\<close>

theorem tick_price_policy:
  assumes "tick n inp = (n', r)" "in_u64 (in_block_time inp)" "in_block_time inp < u64_max"
    and "\<forall>agg. o_current (n_oracle n) = Some agg \<longrightarrow> in_u64 (computed_at agg)"
  shows "(\<forall>ft. tr_funding r = Some ft \<longrightarrow> (\<exists>agg. o_current (n_oracle n') = Some agg
        \<and> in_block_time inp - computed_at agg \<le> aggregate_max_age_secs (o_params (n_oracle n))
        \<and> tick_premium ft = compute_premium (in_mark inp) (agg_index agg)
        \<and> settled_at ft = in_block_time inp
        \<and> last_settled_at (n_funding_clock n) + interval_secs (clock_params (n_funding_clock n)) \<le> in_block_time inp
        \<and> sr_records (tr_liquidation r) =
            map (record_of (ls_params (n_scanner n)) (agg_index agg))
              (filter (liquidated (ls_params (n_scanner n)) (agg_index agg)) (in_account_snapshots inp))))
    \<and> (current_price_fresh_at (n_oracle n') (in_block_time inp) = None \<longrightarrow>
        tr_funding r = None \<and> n_funding_clock n' = n_funding_clock n
        \<and> sr_records (tr_liquidation r) =
            map (record_of (ls_params (n_scanner n)) (in_mark inp))
              (filter (liquidated (ls_params (n_scanner n)) (in_mark inp)) (in_account_snapshots inp)))
    \<and> (tr_adl r \<noteq> None \<longleftrightarrow> run_adl_on_unfilled_deficit (n_config n) \<and> 0 < unfilled_deficit (tr_liquidation r))"
proof (intro conjI allI impI)
  have n': "n' = fst (tick n inp)" and r: "r = snd (tick n inp)" using assms(1) by simp_all
  note parts = tick_parts[of n inp] scan_records
  show "tr_adl r \<noteq> None \<longleftrightarrow> run_adl_on_unfilled_deficit (n_config n) \<and> 0 < unfilled_deficit (tr_liquidation r)"
    unfolding r parts(9) by simp
  show "tr_funding r = None" "n_funding_clock n' = n_funding_clock n"
    "sr_records (tr_liquidation r) = map (record_of (ls_params (n_scanner n)) (in_mark inp))
       (filter (liquidated (ls_params (n_scanner n)) (in_mark inp)) (in_account_snapshots inp))"
    if "current_price_fresh_at (n_oracle n') (in_block_time inp) = None"
    using that unfolding n' r by (simp_all add: parts solvency_mark_def)
  fix ft
  assume "tr_funding r = Some ft"
  then obtain index where ix: "current_price_fresh_at (tick_oracle n inp) (in_block_time inp) = Some index"
    and ct: "snd (clock_tick (n_funding_clock n) (in_block_time inp) (in_mark inp) index
        (map position_of (in_account_snapshots inp))) = Some ft"
    unfolding r parts by (auto split: option.splits)
  obtain agg where agg: "o_current (tick_oracle n inp) = Some agg" "agg_index agg = index"
    "sat_u64 (in_block_time inp - computed_at agg) \<le> aggregate_max_age_secs (o_params (n_oracle n))"
    using ix by (auto simp: current_price_fresh_at_def Let_def tick_oracle_def maybe_refresh_frame
        split: option.splits if_splits)
  have "in_u64 (computed_at agg)"
    using tick_oracle_computed_at[OF agg(1)] assms(2,4) by auto
  then have age: "in_block_time inp - computed_at agg \<le> aggregate_max_age_secs (o_params (n_oracle n))"
    using agg(3) assms(2) by (auto simp: sat_def in_u64_def split: if_splits)
  have funding: "tick_premium ft = compute_premium (in_mark inp) index" "settled_at ft = in_block_time inp"
    "last_settled_at (n_funding_clock n) + interval_secs (clock_params (n_funding_clock n)) \<le> in_block_time inp"
    using ct assms(3) by (auto simp: clock_tick_def Let_def sat_def split: if_splits)
  have "solvency_mark n inp = index" using ix by (simp add: solvency_mark_def)
  then show "\<exists>agg. o_current (n_oracle n') = Some agg
        \<and> in_block_time inp - computed_at agg \<le> aggregate_max_age_secs (o_params (n_oracle n))
        \<and> tick_premium ft = compute_premium (in_mark inp) (agg_index agg)
        \<and> settled_at ft = in_block_time inp
        \<and> last_settled_at (n_funding_clock n) + interval_secs (clock_params (n_funding_clock n)) \<le> in_block_time inp
        \<and> sr_records (tr_liquidation r) =
            map (record_of (ls_params (n_scanner n)) (agg_index agg))
              (filter (liquidated (ls_params (n_scanner n)) (agg_index agg)) (in_account_snapshots inp))"
    using agg age funding unfolding n' r by (auto simp: parts)
qed

theorem tick_price_policy_witness:
  "let inp = \<lparr>in_block_height = 1, in_block_time = 10, in_mark = 100, in_account_snapshots = [], in_vault_total_assets = 0\<rparr>;
       (n', r) = tick (new_node node_hyperliquid_default) inp
   in tr_adl r = None"
proof -
  let ?inp = "\<lparr>in_block_height = 1, in_block_time = 10, in_mark = 100, in_account_snapshots = [], in_vault_total_assets = 0\<rparr>"
  obtain n' r where t: "tick (new_node node_hyperliquid_default) ?inp = (n', r)" by fastforce
  have "unfilled_deficit (tr_liquidation (snd (tick (new_node node_hyperliquid_default) ?inp))) = 0"
    by (simp add: tick_parts scan_def default_scan_report_def new_node_def)
  then have "unfilled_deficit (tr_liquidation r) = 0" using t by simp
  with tick_price_policy[OF t] show ?thesis using t by (simp add: in_u64_def new_node_def new_oracle_def)
qed

text \<open>The same account can be closed twice in one tick. Deleveraging draws its candidates from all
  snapshots, the accounts just liquidated included: an account with little
  collateral and a small profit is liquidated, its equity goes to the fund, and the remaining deficit is then charged against the
  profit of the very same account.\<close>

definition thin_winner :: account_snapshot where
  "thin_winner = \<lparr>snap_account = 1, snap_position_size = 1000, snap_avg_entry = 1000, snap_collateral = 1\<rparr>"

lemma thin_winner_scan:
  "snd (scan (with_empty_fund liquidation_hyperliquid_default) [thin_winner] 1001) =
     \<lparr>sr_records = [record_of liquidation_hyperliquid_default 1001 thin_winner],
      fund_deposits = 1001, fund_withdrawals = 1001, unfilled_deficit = 13013\<rparr>"
proof -
  let ?p = "liquidation_hyperliquid_default"
  have l: "liquidated ?p 1001 thin_winner" and fl: "flow_of ?p 1001 thin_winner = (1001, 14014)"
    by (simp_all add: liquidated_def flow_of_def desired_fee_def liquidation_hyperliquid_default_def thin_winner_def
        margin_health_def margin_ratio_def notional_value_def account_equity_def liq_unrealized_pnl_def
        liquidation_fee_def underwater_close_outcome_def less_eq_margin_health_class_def liq_MARGIN_SCALE_def
        sat_def sdiv_nonneg Let_def)
  have ab: "fund_absorb (fst (fund_deposit empty_fund 1001)) 14014 = (\<lparr>balance = 0\<rparr>, 1001, 13013)"
    by (simp add: fund_absorb_def fund_deposit_def withdraw_shortfall_def empty_fund_def sat_def)
  have "scan_account ?p 1001 thin_winner (empty_fund, default_scan_report) =
    (\<lparr>balance = 0\<rparr>, \<lparr>sr_records = [record_of ?p 1001 thin_winner], fund_deposits = 1001,
      fund_withdrawals = 1001, unfilled_deficit = 13013\<rparr>)"
    using scan_account_flow[OF params_default_ok l fl ab, of default_scan_report]
    by (simp add: default_scan_report_def in_i64_def sat_def)
  then show ?thesis by (simp add: scan_def with_empty_fund_def)
qed

theorem tick_closes_account_twice:
  "let inp = \<lparr>in_block_height = 1, in_block_time = 10, in_mark = 1001, in_account_snapshots = [thin_winner], in_vault_total_assets = 0\<rparr>;
       r = snd (tick (new_node node_hyperliquid_default) inp)
   in map lr_account (sr_records (tr_liquidation r)) = [1]
     \<and> map_option (\<lambda>a. map ar_account (adl_records a)) (tr_adl r) = Some [1]
     \<and> map_option (\<lambda>a. map haircut (adl_records a)) (tr_adl r) = Some [1000]"
proof -
  let ?n = "new_node node_hyperliquid_default"
  let ?inp = "\<lparr>in_block_height = 1, in_block_time = 10, in_mark = 1001, in_account_snapshots = [thin_winner], in_vault_total_assets = 0\<rparr>"
  have "current_price_fresh_at (tick_oracle ?n ?inp) 10 = None"
    by (simp add: tick_oracle_def maybe_refresh_oracle_def new_node_def node_hyperliquid_default_def new_oracle_def
        refresh_def fresh_prices_def aggregate_index_def oracle_hyperliquid_default_def current_price_fresh_at_def)
  then have mark: "solvency_mark ?n ?inp = 1001" by (simp add: solvency_mark_def)
  have liq: "tr_liquidation (snd (tick ?n ?inp)) = snd (scan (with_empty_fund liquidation_hyperliquid_default) [thin_winner] 1001)"
    using tick_parts(6)[of ?n ?inp] mark by (simp add: new_node_def node_hyperliquid_default_def)
  have el: "eligible 1001 thin_winner" "liq_unrealized_pnl thin_winner 1001 = 1000"
    by (simp_all add: eligible_iff thin_winner_def liq_unrealized_pnl_def account_equity_def sat_def)
  have rc: "rank_candidates [thin_winner] 1001 = [(thin_winner, the (adl_score thin_winner 1001), 1000)]"
    unfolding rank_candidates_def map_filter_rank using el by simp
  have adl: "map ar_account (adl_records (execute_adl [thin_winner] 1001 13013)) = [1]"
    "map haircut (adl_records (execute_adl [thin_winner] 1001 13013)) = [1000]"
    using execute_adl_exact[of 13013 "[thin_winner]" 1001]
    by (simp_all add: rc Let_def adl_record_of_def) (simp add: thin_winner_def)
  have "tr_adl (snd (tick ?n ?inp)) = Some (execute_adl [thin_winner] 1001 13013)"
    using tick_parts(9)[of ?n ?inp] liq mark thin_winner_scan by (simp add: new_node_def node_hyperliquid_default_def)
  then show ?thesis using liq thin_winner_scan adl by (simp add: Let_def record_of_def thin_winner_def)
qed

end
