(* ===== verification/Ledger.thy ===== *)
theory Ledger
  imports Margin Containers
begin

text \<open>
  The account side of the execution bridge (\<open>crates/evm/src/live_node.rs\<close>): the order book, the
  queue of fills, the table of accounts, and the operations that move money and positions:
  \<open>submit_order\<close>, \<open>apply_fills_to_accounts\<close>, \<open>deposit\<close>, \<open>withdraw\<close>, the mark, margin health
  and the account part of snapshots. The record \<open>trading\<close> holds what these use; the
  payload side of the bridge extends it. Locks are not modelled: every operation runs under its locks, so it is atomic.
\<close>

section \<open>State and operations\<close>

type_synonym accounts_map = "(account_id, account) hash_map"

record trading =
  lb_clob :: book
  lb_pending_fills :: "fill list"
  lb_accounts :: accounts_map
  lb_liquidation_params :: liquidation_params
  lb_oracle_index_price :: "int option"

definition new_trading :: trading where
  "new_trading = \<lparr>lb_clob = new_book, lb_pending_fills = [], lb_accounts = [],
     lb_liquidation_params = liquidation_hyperliquid_default, lb_oracle_index_price = None\<rparr>"

definition with_liquidation_params :: "'x trading_scheme \<Rightarrow> liquidation_params \<Rightarrow> 'x trading_scheme" where
  "with_liquidation_params b params = b\<lparr>lb_liquidation_params := params\<rparr>"

definition set_oracle_index_price :: "'x trading_scheme \<Rightarrow> int \<Rightarrow> 'x trading_scheme" where
  "set_oracle_index_price b p = b\<lparr>lb_oracle_index_price := Some p\<rparr>"

definition clear_oracle_index_price :: "'x trading_scheme \<Rightarrow> 'x trading_scheme" where
  "clear_oracle_index_price b = b\<lparr>lb_oracle_index_price := None\<rparr>"

text \<open>The midpoint adds two \<open>u64\<close> prices with a plain \<open>+\<close>.\<close>

definition current_mark :: "'x trading_scheme \<Rightarrow> mark_price option" where
  "current_mark b =
     (case best_bid (lb_clob b) of
        None \<Rightarrow> None
      | Some bid \<Rightarrow> (case best_ask (lb_clob b) of
          None \<Rightarrow> None
        | Some ask \<Rightarrow> Some (wrap_u64 (bid + ask) div 2)))"

definition effective_mark :: "'x trading_scheme \<Rightarrow> mark_price option" where
  "effective_mark b = (case lb_oracle_index_price b of Some p \<Rightarrow> Some p | None \<Rightarrow> current_mark b)"

definition bridge_margin_health :: "'x trading_scheme \<Rightarrow> account_id \<Rightarrow> margin_health_class option" where
  "bridge_margin_health b a =
     (case effective_mark b of
        None \<Rightarrow> None
      | Some mark \<Rightarrow> (case map_of (lb_accounts b) a of
          None \<Rightarrow> None
        | Some acct \<Rightarrow> Some (margin_health (snapshot_of acct) mark (lb_liquidation_params b))))"

text \<open>\<open>entry(a).or_insert_with(|| Account::flat(a))\<close>.\<close>

definition entry_or_flat :: "accounts_map \<Rightarrow> account_id \<Rightarrow> account" where
  "entry_or_flat accts a = (case map_of accts a of Some acct \<Rightarrow> acct | None \<Rightarrow> flat_account a)"

definition settle_side :: "account_id \<Rightarrow> price \<Rightarrow> qty \<Rightarrow> side \<Rightarrow> accounts_map \<Rightarrow> accounts_map" where
  "settle_side a p q sd accts =
     (let (acct, realized) = apply_fill (entry_or_flat accts a) p q sd
      in AList.update a (acct\<lparr>collateral := sat_i64 (collateral acct + realized)\<rparr>) accts)"

definition apply_fill_to_accounts :: "fill \<Rightarrow> accounts_map \<Rightarrow> accounts_map" where
  "apply_fill_to_accounts f accts =
     (let taker_side = opposite (maker_side f);
          accts1 = settle_side (maker_account f) (fill_price f) (fill_qty f) (maker_side f) accts
      in settle_side (taker_account f) (fill_price f) (fill_qty f) taker_side accts1)"

definition apply_fills_to_accounts :: "fill list \<Rightarrow> accounts_map \<Rightarrow> accounts_map" where
  "apply_fills_to_accounts fs accts = fold apply_fill_to_accounts fs accts"

definition submit_order :: "'x trading_scheme \<Rightarrow> order \<Rightarrow> ('x trading_scheme \<times> fill_result) option" where
  "submit_order b ord =
     (case submit (lb_clob b) ord of
        None \<Rightarrow> None
      | Some (book', result) \<Rightarrow>
          let b1 = b\<lparr>lb_clob := book'\<rparr>
          in if fills result \<noteq> []
             then Some (b1\<lparr>lb_pending_fills := lb_pending_fills b1 @ fills result,
                           lb_accounts := apply_fills_to_accounts (fills result) (lb_accounts b1)\<rparr>, result)
             else Some (b1, result))"

definition accounts_snapshot :: "'x trading_scheme \<Rightarrow> account list" where
  "accounts_snapshot b = sort_key acct_id (map snd (lb_accounts b))"

definition bridge_deposit :: "'x trading_scheme \<Rightarrow> account_id \<Rightarrow> int \<Rightarrow> 'x trading_scheme \<times> int" where
  "bridge_deposit b a amount =
     (let acct = entry_or_flat (lb_accounts b) a;
          acct' = acct\<lparr>collateral := sat_i64 (collateral acct + amount)\<rparr>
      in (b\<lparr>lb_accounts := AList.update a acct' (lb_accounts b)\<rparr>, collateral acct'))"

definition withdraw_free_collateral :: "account \<Rightarrow> mark_price option \<Rightarrow> int \<Rightarrow> int" where
  "withdraw_free_collateral acct mark im_bps =
     (case mark of
        Some m \<Rightarrow> free_collateral acct m im_bps
      | None \<Rightarrow> sat_i64 (collateral acct - initial_margin_requirement acct im_bps))"

definition bridge_withdraw :: "'x trading_scheme \<Rightarrow> account_id \<Rightarrow> int \<Rightarrow> 'x trading_scheme \<times> int option" where
  "bridge_withdraw b a amount =
     (let mark = effective_mark b
      in case map_of (lb_accounts b) a of
           None \<Rightarrow> (b, None)
         | Some acct \<Rightarrow>
             if \<not> in_i64 amount then (b, None)
             else let free = withdraw_free_collateral acct mark (initial_margin_bps (lb_liquidation_params b))
                  in if amount > free then (b, None)
                     else let acct' = acct\<lparr>collateral := wrap_i64 (collateral acct - amount)\<rparr>
                          in (b\<lparr>lb_accounts := AList.update a acct' (lb_accounts b)\<rparr>, Some (collateral acct')))"

definition pending_fill_count :: "'x trading_scheme \<Rightarrow> nat" where
  "pending_fill_count b = length (lb_pending_fills b)"

text \<open>The account part of \<open>load_snapshot\<close>: clear the table, insert the saved accounts.\<close>

definition load_accounts :: "'x trading_scheme \<Rightarrow> account list \<Rightarrow> 'x trading_scheme" where
  "load_accounts b accts = b\<lparr>lb_accounts := fold (\<lambda>acct. AList.update (acct_id acct) acct) accts []\<rparr>"

section \<open>What an observer of the account side sees\<close>

text \<open>The book, the accounts, the margin parameters and the oracle price. The queue of fills is left out, because building a
  payload drains it on the node that builds.\<close>

type_synonym trading_view = "book \<times> accounts_map \<times> liquidation_params \<times> int option"

definition trading_view :: "'x trading_scheme \<Rightarrow> trading_view" where
  "trading_view b = (lb_clob b, lb_accounts b, lb_liquidation_params b, lb_oracle_index_price b)"

text \<open>The observed part of an operation depends on the observed part of the state only.\<close>

lemma submit_order_view:
  assumes "trading_view b = trading_view c"
  shows "map_option (\<lambda>(b', r). (trading_view b', r)) (submit_order b ord) = map_option (\<lambda>(c', r). (trading_view c', r)) (submit_order c ord)"
  using assms by (auto simp: submit_order_def trading_view_def Let_def split: option.splits)

lemma submit_order_more: "submit_order b ord = Some (b', r) \<Longrightarrow> trading.more b' = trading.more b"
  by (auto simp: submit_order_def Let_def split: option.splits if_splits)

lemma deposit_view:
  assumes "trading_view b = trading_view c"
  shows "trading_view (fst (bridge_deposit b a x)) = trading_view (fst (bridge_deposit c a x))"
  using assms by (simp add: bridge_deposit_def trading_view_def Let_def)

lemma deposit_more [simp]: "trading.more (fst (bridge_deposit b a x)) = trading.more b"
  by (simp add: bridge_deposit_def Let_def)

section \<open>The table of accounts\<close>

definition accounts_ok :: "accounts_map \<Rightarrow> bool" where
  "accounts_ok m \<longleftrightarrow> hm_ok m \<and> (\<forall>(a, acct) \<in> set m. acct_id acct = a \<and> account_ok acct)"

lemma accounts_okD:
  "accounts_ok m \<Longrightarrow> map_of m a = Some acct \<Longrightarrow> acct_id acct = a \<and> account_ok acct"
  by (auto simp: accounts_ok_def dest: map_of_SomeD)

lemma accounts_ok_update:
  assumes "accounts_ok m" "acct_id acct = a" "account_ok acct"
  shows "accounts_ok (AList.update a acct m)"
proof -
  have "set (AList.update a acct m) \<subseteq> insert (a, acct) (set m)" by (induction m) auto
  then show ?thesis using assms by (fastforce simp: accounts_ok_def distinct_update)
qed

lemma entry_or_flat_ok:
  assumes "accounts_ok m"
  shows "acct_id (entry_or_flat m a) = a" "account_ok (entry_or_flat m a)"
  using accounts_okD[OF assms, of a] by (auto simp: entry_or_flat_def split: option.splits)

text \<open>Sums over the table change by the difference of the updated entry.\<close>

definition total_of :: "(account \<Rightarrow> int) \<Rightarrow> accounts_map \<Rightarrow> int" where
  "total_of g m = sum_list (map (g \<circ> snd) m)"

lemma total_of_update:
  assumes "hm_ok m" "\<And>a. g (flat_account a) = 0"
  shows "total_of g (AList.update a acct m) = total_of g m - g (entry_or_flat m a) + g acct"
  using assms(1)
proof (induction m)
  case (Cons x m)
  obtain k v where x: "x = (k, v)" by fastforce
  show ?case
  proof (cases "k = a")
    case True
    then show ?thesis using x by (simp add: total_of_def entry_or_flat_def)
  next
    case False
    then show ?thesis using Cons x by (simp add: total_of_def entry_or_flat_def)
  qed
qed (simp add: total_of_def entry_or_flat_def assms(2))

lemma settle_side_ok:
  assumes "accounts_ok m"
  shows "accounts_ok (settle_side a p q sd m)"
proof -
  obtain acct r where f: "apply_fill (entry_or_flat m a) p q sd = (acct, r)" by fastforce
  have "acct_id acct = a" "account_ok acct"
    using apply_fill_frame(1)[of "entry_or_flat m a" p q sd] apply_fill_account_ok[of "entry_or_flat m a" p q sd]
      entry_or_flat_ok[OF assms, of a] f by auto
  then show ?thesis using f by (auto simp: settle_side_def account_ok_def intro!: accounts_ok_update[OF assms])
qed

lemma apply_fills_ok: "accounts_ok m \<Longrightarrow> accounts_ok (apply_fills_to_accounts fs m)"
  unfolding apply_fills_to_accounts_def
  by (induction fs arbitrary: m) (auto simp: apply_fill_to_accounts_def Let_def intro: settle_side_ok)

lemma map_of_settle_side_other: "a' \<noteq> a \<Longrightarrow> map_of (settle_side a p q sd m) a' = map_of m a'"
  by (simp add: settle_side_def case_prod_beta update_conv')

lemma position_settle_side:
  assumes "in_u64 q"
  shows "position_size (entry_or_flat (settle_side a p q sd m) b) =
    (if b = a then sat_i64 (position_size (entry_or_flat m a) + side_sign sd * q)
     else position_size (entry_or_flat m b))"
  using apply_fill_position[OF assms, of "entry_or_flat m a" p sd]
  by (simp add: settle_side_def case_prod_beta update_conv' entry_or_flat_def)

section \<open>Positions net to zero\<close>

lemma net_settle_side:
  assumes "accounts_ok m" "in_u64 q" "in_i64 (position_size (entry_or_flat m a) + side_sign sd * q)"
  shows "total_of position_size (settle_side a p q sd m) = total_of position_size m + side_sign sd * q"
proof -
  have hm: "hm_ok m" using assms(1) by (simp add: accounts_ok_def)
  have "total_of position_size (settle_side a p q sd m) = total_of position_size m
      - position_size (entry_or_flat m a) + position_size (fst (apply_fill (entry_or_flat m a) p q sd))"
    using total_of_update[OF hm, of position_size a] by (simp add: settle_side_def case_prod_beta)
  then show ?thesis using apply_fill_position[OF assms(2)] assms(3) by simp
qed

text \<open>A bound on every position, with room for the quantities to come.\<close>

definition positions_within :: "int \<Rightarrow> accounts_map \<Rightarrow> bool" where
  "positions_within B m \<longleftrightarrow> (\<forall>a. \<bar>position_size (entry_or_flat m a)\<bar> \<le> B)"

lemma positions_within_mono: "positions_within B m \<Longrightarrow> B \<le> B' \<Longrightarrow> positions_within B' m"
  unfolding positions_within_def by (meson order_trans)

lemma settle_side_within:
  assumes "positions_within B m" "0 \<le> q" "B + q \<le> i64_max" "accounts_ok m"
  shows "positions_within (B + q) (settle_side a p q sd m)"
    and "total_of position_size (settle_side a p q sd m) = total_of position_size m + side_sign sd * q"
proof -
  have pos: "\<bar>position_size (entry_or_flat m b)\<bar> \<le> B" for b using assms(1) by (simp add: positions_within_def)
  have q: "in_u64 q" using assms(2,3) pos[of 0] by (simp add: in_u64_def)
  have rng: "in_i64 (position_size (entry_or_flat m a) + side_sign sd * q)"
    "\<bar>position_size (entry_or_flat m a) + side_sign sd * q\<bar> \<le> B + q"
    using pos[of a] assms(2,3) side_sign_cases[of sd] by (auto simp: in_i64_def)
  have "\<bar>position_size (entry_or_flat (settle_side a p q sd m) b)\<bar> \<le> B + q" for b
    using position_settle_side[OF q, of a p sd m b] rng pos[of b] assms(2) by auto
  then show "positions_within (B + q) (settle_side a p q sd m)" by (simp add: positions_within_def)
  show "total_of position_size (settle_side a p q sd m) = total_of position_size m + side_sign sd * q"
    by (rule net_settle_side[OF assms(4) q rng(1)])
qed

lemma fill_within:
  assumes "positions_within B m" "0 \<le> fill_qty f" "B + 2 * fill_qty f \<le> i64_max" "accounts_ok m"
  shows "positions_within (B + 2 * fill_qty f) (apply_fill_to_accounts f m)
    \<and> total_of position_size (apply_fill_to_accounts f m) = total_of position_size m"
proof -
  have "0 \<le> B" using assms(1) by (auto simp: positions_within_def dest!: spec[of _ 0])
  let ?m1 = "settle_side (maker_account f) (fill_price f) (fill_qty f) (maker_side f) m"
  note s1 = settle_side_within[OF assms(1,2) _ assms(4), of "maker_account f" "fill_price f" "maker_side f"]
  have w1: "positions_within (B + fill_qty f) ?m1"
    "total_of position_size ?m1 = total_of position_size m + side_sign (maker_side f) * fill_qty f"
    using s1 assms(2,3) by simp_all
  note s2 = settle_side_within[OF w1(1) assms(2) _ settle_side_ok[OF assms(4)],
      of "taker_account f" "fill_price f" "opposite (maker_side f)"]
  show ?thesis
    using s2 w1(2) assms(3) by (simp add: apply_fill_to_accounts_def Let_def algebra_simps)
qed

lemma fills_within:
  assumes "positions_within B m" "\<forall>f \<in> set fs. 0 \<le> fill_qty f" "B + 2 * filled_qty fs \<le> i64_max" "accounts_ok m"
  shows "positions_within (B + 2 * filled_qty fs) (apply_fills_to_accounts fs m)
    \<and> total_of position_size (apply_fills_to_accounts fs m) = total_of position_size m"
  using assms
proof (induction fs arbitrary: B m)
  case (Cons f fs)
  have nn: "0 \<le> filled_qty fs" using Cons.prems(2) by (auto simp: filled_qty_def intro!: sum_list_nonneg)
  have w: "positions_within (B + 2 * fill_qty f) (apply_fill_to_accounts f m)"
    "total_of position_size (apply_fill_to_accounts f m) = total_of position_size m"
    using fill_within[OF Cons.prems(1) _ _ Cons.prems(4), of f] Cons.prems(2,3) nn by simp_all
  have "accounts_ok (apply_fill_to_accounts f m)"
    using Cons.prems(4) by (simp add: apply_fill_to_accounts_def Let_def settle_side_ok)
  from Cons.IH[OF w(1) _ _ this] Cons.prems(2,3) w(2)
  show ?case by (simp add: apply_fills_to_accounts_def algebra_simps)
qed (simp add: apply_fills_to_accounts_def)

section \<open>Value is conserved\<close>

definition account_value :: "mark_price \<Rightarrow> account \<Rightarrow> int" where
  "account_value m a = collateral a + position_value a m"

text \<open>The room a fill needs so that neither the position nor the realized profit nor the
  collateral saturates.\<close>

definition fill_fits :: "account \<Rightarrow> price \<Rightarrow> qty \<Rightarrow> side \<Rightarrow> bool" where
  "fill_fits a p q sd \<longleftrightarrow> in_i64 (position_size a + side_sign sd * q)
     \<and> \<bar>position_size a * (p - avg_entry a)\<bar> \<le> i64_max
     \<and> in_i64 (collateral a + snd (apply_fill a p q sd))"

definition rounding :: "account \<Rightarrow> price \<Rightarrow> qty \<Rightarrow> side \<Rightarrow> mark_price \<Rightarrow> int" where
  "rounding a p q sd m = snd (apply_fill a p q sd) + position_value (fst (apply_fill a p q sd)) m
     - (position_value a m + side_sign sd * q * (m - p))"

lemma rounding_bound:
  assumes "account_ok a" "in_u64 p" "in_u64 q" "0 < q" "fill_fits a p q sd"
  shows "\<bar>rounding a p q sd m\<bar> \<le> \<bar>position_size a\<bar> + q"
    and "sgn (position_size a) \<noteq> side_sign sd \<Longrightarrow> rounding a p q sd m = 0"
proof -
  have f: "in_i64 (position_size a + side_sign sd * q)" "\<bar>position_size a * (p - avg_entry a)\<bar> \<le> i64_max"
    using assms(5) by (simp_all add: fill_fits_def)
  note e = apply_fill_error[OF assms(1-4) f, of m]
  have "position_size (fst (apply_fill a p q sd)) = position_size a + side_sign sd * q"
    using apply_fill_position[OF assms(3)] f(1) by simp
  then have "max 1 \<bar>position_size (fst (apply_fill a p q sd))\<bar> \<le> \<bar>position_size a\<bar> + q"
    using side_sign_cases[of sd] assms(4) by auto
  then show "\<bar>rounding a p q sd m\<bar> \<le> \<bar>position_size a\<bar> + q"
    "sgn (position_size a) \<noteq> side_sign sd \<Longrightarrow> rounding a p q sd m = 0"
    using e side_sign_cases[of sd] by (auto simp: rounding_def)
qed

lemma value_settle_side:
  assumes "accounts_ok m" "fill_fits (entry_or_flat m a) p q sd"
  shows "total_of (account_value mark) (settle_side a p q sd m) =
    total_of (account_value mark) m + side_sign sd * q * (mark - p) + rounding (entry_or_flat m a) p q sd mark"
proof -
  have hm: "hm_ok m" using assms(1) by (simp add: accounts_ok_def)
  have z: "account_value mark (flat_account x) = 0" for x by (simp add: account_value_def position_value_def)
  let ?e = "entry_or_flat m a"
  have "in_i64 (collateral ?e + snd (apply_fill ?e p q sd))" using assms(2) by (simp add: fill_fits_def)
  then show ?thesis
    using total_of_update[of m "account_value mark" a, OF hm z]
    by (simp add: settle_side_def case_prod_beta account_value_def rounding_def position_value_def)
qed

section \<open>Reachable ledgers\<close>

text \<open>Everything a caller can do to the account side, from an empty bridge; the first argument adds up
  the quantities of the orders submitted so far.\<close>

inductive ledger_reach :: "int \<Rightarrow> trading \<Rightarrow> bool" where
  start: "ledger_reach 0 new_trading"
| ordered: "ledger_reach v b \<Longrightarrow> in_u64 (ord_qty ord) \<Longrightarrow> submit_order b ord = Some (b', res) \<Longrightarrow>
    ledger_reach (v + ord_qty ord) b'"
| deposited: "ledger_reach v b \<Longrightarrow> in_i64 amount \<Longrightarrow> ledger_reach v (fst (bridge_deposit b a amount))"
| withdrawn: "ledger_reach v b \<Longrightarrow> in_u64 amount \<Longrightarrow> ledger_reach v (fst (bridge_withdraw b a amount))"
| priced: "ledger_reach v b \<Longrightarrow> ledger_reach v (set_oracle_index_price b p)"
| unpriced: "ledger_reach v b \<Longrightarrow> ledger_reach v (clear_oracle_index_price b)"
| configured: "ledger_reach v b \<Longrightarrow> params_ok ps \<Longrightarrow> ledger_reach v (with_liquidation_params b ps)"

definition ledger_ok :: "int \<Rightarrow> 'x trading_scheme \<Rightarrow> bool" where
  "ledger_ok v b \<longleftrightarrow> book_ok (lb_clob b) \<and> accounts_ok (lb_accounts b)
     \<and> total_of position_size (lb_accounts b) = 0 \<and> positions_within (2 * v) (lb_accounts b)"

lemma update_collateral_frame:
  assumes "accounts_ok m" "in_i64 c"
  shows "accounts_ok (AList.update a ((entry_or_flat m a)\<lparr>collateral := c\<rparr>) m)"
    and "total_of position_size (AList.update a ((entry_or_flat m a)\<lparr>collateral := c\<rparr>) m) = total_of position_size m"
    and "positions_within B m \<Longrightarrow> positions_within B (AList.update a ((entry_or_flat m a)\<lparr>collateral := c\<rparr>) m)"
proof -
  let ?x = "(entry_or_flat m a)\<lparr>collateral := c\<rparr>"
  note e = entry_or_flat_ok[OF assms(1), of a]
  show "accounts_ok (AList.update a ?x m)"
    using e assms by (intro accounts_ok_update) (auto simp: account_ok_def)
  show "total_of position_size (AList.update a ?x m) = total_of position_size m"
    using total_of_update[of m position_size a ?x] assms(1) by (simp add: accounts_ok_def)
  have "position_size (entry_or_flat (AList.update a ?x m) b) = position_size (entry_or_flat m b)" for b
    by (cases "b = a") (simp_all add: entry_or_flat_def update_conv')
  then show "positions_within B m \<Longrightarrow> positions_within B (AList.update a ?x m)"
    by (simp add: positions_within_def)
qed

lemma submit_order_ok:
  assumes "ledger_ok v b" "in_u64 (ord_qty ord)" "0 \<le> v" "2 * (v + ord_qty ord) \<le> i64_max"
  shows "\<exists>b' res. submit_order b ord = Some (b', res) \<and> ledger_ok (v + ord_qty ord) b'"
proof -
  have q: "0 \<le> ord_qty ord" using assms(2) by (simp add: in_u64_def)
  have bk: "book_ok (lb_clob b)" using assms(1) by (simp add: ledger_ok_def)
  obtain book' res where s: "submit (lb_clob b) ord = Some (book', res)" "book_ok book'"
    using submit_spec[OF bk q] by blast
  note ff = submit_fills_facts[OF bk q s(1)]
  have nn: "\<forall>f \<in> set (fills res). 0 \<le> fill_qty f" using ff(2) by (meson less_imp_le)
  let ?acc = "apply_fills_to_accounts (fills res) (lb_accounts b)"
  have w: "positions_within (2 * v + 2 * filled_qty (fills res)) ?acc"
    "total_of position_size ?acc = total_of position_size (lb_accounts b)"
    using fills_within[of "2 * v" "lb_accounts b" "fills res"] nn assms(1,4) ff(1) by (simp_all add: ledger_ok_def)
  have w': "positions_within (2 * (v + ord_qty ord)) ?acc"
    by (rule positions_within_mono[OF w(1)]) (use ff(1) in simp)
  have none: "fills res = [] \<Longrightarrow> ?acc = lb_accounts b" by (simp add: apply_fills_to_accounts_def)
  have "accounts_ok ?acc" using assms(1) by (simp add: ledger_ok_def apply_fills_ok)
  then show ?thesis
    using s w(2) w' none assms(1) by (auto simp: submit_order_def Let_def ledger_ok_def)
qed

lemma ledger_ok_update:
  assumes "ledger_ok v b" "in_i64 c"
  shows "ledger_ok v (b\<lparr>lb_accounts := AList.update a ((entry_or_flat (lb_accounts b) a)\<lparr>collateral := c\<rparr>) (lb_accounts b)\<rparr>)"
  using assms update_collateral_frame(1,2)[OF _ assms(2), of "lb_accounts b" a]
    update_collateral_frame(3)[OF _ assms(2), of "lb_accounts b" "2 * v" a] by (simp add: ledger_ok_def)

lemma deposit_ok:
  assumes "ledger_ok v b"
  shows "ledger_ok v (fst (bridge_deposit b a amount))"
  using ledger_ok_update[OF assms] by (simp add: bridge_deposit_def Let_def)

lemma withdraw_ok:
  assumes "ledger_ok v b"
  shows "ledger_ok v (fst (bridge_withdraw b a amount))"
proof (cases "map_of (lb_accounts b) a")
  case None
  then show ?thesis using assms by (simp add: bridge_withdraw_def)
next
  case (Some acct)
  then have "entry_or_flat (lb_accounts b) a = acct" by (simp add: entry_or_flat_def)
  then show ?thesis using assms Some ledger_ok_update[OF assms, of "wrap_i64 (collateral acct - amount)" a]
    by (simp add: bridge_withdraw_def Let_def)
qed

lemma ledger_reach_ok:
  assumes "ledger_reach v b" "2 * v \<le> i64_max"
  shows "0 \<le> v \<and> ledger_ok v b"
  using assms
proof (induction rule: ledger_reach.induct)
  case start
  then show ?case
    by (simp add: ledger_ok_def new_trading_def accounts_ok_def total_of_def positions_within_def entry_or_flat_def)
next
  case (ordered v b ord b' res)
  then have q: "0 \<le> ord_qty ord" by (simp add: in_u64_def)
  with ordered submit_order_ok[of v b ord] show ?case by auto
next
  case (deposited v b amount a)
  then show ?case by (simp add: deposit_ok)
next
  case (withdrawn v b amount a)
  then show ?case by (simp add: withdraw_ok)
qed (simp_all add: ledger_ok_def set_oracle_index_price_def clear_oracle_index_price_def with_liquidation_params_def)

section \<open>Snapshots\<close>

lemma accounts_snapshot_set: "set (accounts_snapshot b) = snd ` set (lb_accounts b)"
  by (simp add: accounts_snapshot_def)

lemma accounts_inj:
  assumes "accounts_ok m"
  shows "inj_on acct_id (snd ` set m)" "distinct (map acct_id (map snd m))" "map (acct_id \<circ> snd) m = map fst m"
proof -
  show fst: "map (acct_id \<circ> snd) m = map fst m" using assms by (auto simp: accounts_ok_def)
  have "distinct (map fst m)" using assms by (simp add: accounts_ok_def)
  then show d: "distinct (map acct_id (map snd m))" unfolding map_map fst .
  then show "inj_on acct_id (snd ` set m)" by (metis distinct_map set_map)
qed

lemma load_accounts_lookup:
  assumes "accounts_ok (lb_accounts b)"
  shows "map_of (lb_accounts (load_accounts b' (accounts_snapshot b))) = map_of (lb_accounts b)"
    and "hm_ok (lb_accounts (load_accounts b' (accounts_snapshot b)))"
proof -
  let ?xs = "accounts_snapshot b" and ?m = "lb_accounts b"
  have d: "distinct (map acct_id ?xs)"
    unfolding accounts_snapshot_def using accounts_inj(2)[OF assms]
    by (metis distinct_map distinct_sort set_sort)
  have load: "lb_accounts (load_accounts b' ?xs) = hmap.bulk acct_id (\<lambda>x. x) ?xs []"
    by (simp add: load_accounts_def hmap.bulk_def)
  show "hm_ok (lb_accounts (load_accounts b' ?xs))" unfolding load by (rule hmap.bulk_inv) simp
  have "map_of (map (\<lambda>x. (acct_id x, x)) ?xs) = map_of ?m"
  proof (rule map_of_inject_set[THEN iffD2])
    show "distinct (map fst (map (\<lambda>x. (acct_id x, x)) ?xs))" using d by (simp add: comp_def)
    show "distinct (map fst ?m)" using assms by (simp add: accounts_ok_def)
    show "set (map (\<lambda>x. (acct_id x, x)) ?xs) = set ?m"
      using assms by (force simp: accounts_snapshot_set accounts_ok_def)
  qed
  then show "map_of (lb_accounts (load_accounts b' ?xs)) = map_of ?m"
    unfolding load hmap.get_bulk_emp[OF d] .
qed

section \<open>Properties\<close>



text \<open>C17: matching neither creates nor destroys money. At every mark, settling a fill on both accounts
  changes the total of collateral and marked positions by the rounding of the two entry prices only: at most one minor unit
  per contract held, and nothing at all unless one of the two increases an existing position.\<close>

theorem fill_conserves_value:
  fixes f :: fill and m :: accounts_map
  defines "mk \<equiv> entry_or_flat m (maker_account f)"
    and "m1 \<equiv> settle_side (maker_account f) (fill_price f) (fill_qty f) (maker_side f) m"
  defines "tk \<equiv> entry_or_flat m1 (taker_account f)"
  assumes "accounts_ok m" "in_u64 (fill_price f)" "in_u64 (fill_qty f)" "0 < fill_qty f"
    and "fill_fits mk (fill_price f) (fill_qty f) (maker_side f)"
    and "fill_fits tk (fill_price f) (fill_qty f) (opposite (maker_side f))"
  shows "\<bar>total_of (account_value mark) (apply_fill_to_accounts f m) - total_of (account_value mark) m\<bar>
      \<le> \<bar>position_size mk\<bar> + \<bar>position_size tk\<bar> + 2 * fill_qty f
    \<and> (sgn (position_size mk) \<noteq> side_sign (maker_side f) \<and> sgn (position_size tk) \<noteq> - side_sign (maker_side f)
       \<longrightarrow> total_of (account_value mark) (apply_fill_to_accounts f m) = total_of (account_value mark) m)"
proof -
  have ok1: "accounts_ok m1" unfolding m1_def by (rule settle_side_ok[OF assms(4)])
  have e: "account_ok mk" "account_ok tk"
    using entry_or_flat_ok(2)[OF assms(4)] entry_or_flat_ok(2)[OF ok1] by (simp_all add: mk_def tk_def)
  let ?r1 = "rounding mk (fill_price f) (fill_qty f) (maker_side f) mark"
  let ?r2 = "rounding tk (fill_price f) (fill_qty f) (opposite (maker_side f)) mark"
  have v1: "total_of (account_value mark) m1 = total_of (account_value mark) m
      + side_sign (maker_side f) * fill_qty f * (mark - fill_price f) + ?r1"
    using value_settle_side[OF assms(4), of "maker_account f" "fill_price f" "fill_qty f" "maker_side f" mark] assms(8)
    by (simp add: m1_def mk_def)
  have v2: "total_of (account_value mark) (apply_fill_to_accounts f m) = total_of (account_value mark) m1
      - side_sign (maker_side f) * fill_qty f * (mark - fill_price f) + ?r2"
    using value_settle_side[OF ok1, of "taker_account f" "fill_price f" "fill_qty f" "opposite (maker_side f)" mark] assms(9)
    by (simp add: apply_fill_to_accounts_def Let_def m1_def[symmetric] tk_def)
  have total: "total_of (account_value mark) (apply_fill_to_accounts f m) - total_of (account_value mark) m = ?r1 + ?r2"
    using v1 v2 by simp
  show ?thesis
    using rounding_bound[OF e(1) assms(5-7) assms(8), of mark] rounding_bound[OF e(2) assms(5-7) assms(9), of mark] total
    by auto
qed

text \<open>An account long 10 sells 4 of them to an account without a position.\<close>

definition demo_accounts :: accounts_map where
  "demo_accounts = [(1, \<lparr>acct_id = 1, position_size = 10, avg_entry = 100, collateral = 1000\<rparr>),
     (2, \<lparr>acct_id = 2, position_size = 0, avg_entry = 0, collateral = 500\<rparr>)]"

definition demo_fill :: fill where
  "demo_fill = \<lparr>maker_order_id = 1, taker_order_id = 2, maker_account = 1, taker_account = 2,
     fill_price = 120, fill_qty = 4, maker_side = Sell\<rparr>"

lemma demo_maker_fill:
  "apply_fill \<lparr>acct_id = 1, position_size = 10, avg_entry = 100, collateral = 1000\<rparr> 120 4 Sell
     = (\<lparr>acct_id = 1, position_size = 6, avg_entry = 100, collateral = 1000\<rparr>, 80)"
  by (simp add: apply_fill_def Let_def sat_def)

lemma demo_taker_fill:
  "apply_fill \<lparr>acct_id = 2, position_size = 0, avg_entry = 0, collateral = 500\<rparr> 120 4 Buy
     = (\<lparr>acct_id = 2, position_size = 4, avg_entry = 120, collateral = 500\<rparr>, 0)"
  by (simp add: apply_fill_def Let_def sat_def)

theorem fill_conserves_value_witness:
  "total_of (account_value 90) (apply_fill_to_accounts demo_fill demo_accounts) = total_of (account_value 90) demo_accounts
   \<and> map_of (apply_fill_to_accounts demo_fill demo_accounts) 1
      = Some \<lparr>acct_id = 1, position_size = 6, avg_entry = 100, collateral = 1080\<rparr>"
proof -
  let ?m1 = "settle_side 1 120 4 Sell demo_accounts"
  have mk: "entry_or_flat demo_accounts 1 = \<lparr>acct_id = 1, position_size = 10, avg_entry = 100, collateral = 1000\<rparr>"
    by (simp add: entry_or_flat_def demo_accounts_def)
  have m1: "?m1 = [(1, \<lparr>acct_id = 1, position_size = 6, avg_entry = 100, collateral = 1080\<rparr>),
     (2, \<lparr>acct_id = 2, position_size = 0, avg_entry = 0, collateral = 500\<rparr>)]"
    unfolding settle_side_def mk demo_maker_fill by (simp add: demo_accounts_def sat_def)
  have tk: "entry_or_flat ?m1 2 = \<lparr>acct_id = 2, position_size = 0, avg_entry = 0, collateral = 500\<rparr>"
    unfolding m1 by (simp add: entry_or_flat_def)
  have ok: "accounts_ok demo_accounts"
    by (simp add: accounts_ok_def demo_accounts_def account_ok_def in_i64_def in_u64_def)
  have fits: "fill_fits (entry_or_flat demo_accounts 1) 120 4 Sell" "fill_fits (entry_or_flat ?m1 2) 120 4 Buy"
    unfolding mk tk fill_fits_def demo_maker_fill demo_taker_fill by (simp_all add: in_i64_def)
  have "total_of (account_value 90) (apply_fill_to_accounts demo_fill demo_accounts) = total_of (account_value 90) demo_accounts"
    using fill_conserves_value[of demo_accounts demo_fill 90] ok fits mk tk
    by (simp add: demo_fill_def in_u64_def)
  moreover have "map_of (apply_fill_to_accounts demo_fill demo_accounts) 1
      = Some \<lparr>acct_id = 1, position_size = 6, avg_entry = 100, collateral = 1080\<rparr>"
    using map_of_settle_side_other[of 1 2 120 4 Buy ?m1] m1 by (simp add: apply_fill_to_accounts_def demo_fill_def)
  ultimately show ?thesis by blast
qed

text \<open>C4: withdrawals are safe. A withdrawal succeeds exactly when the account exists, the amount is
  an \<open>i64\<close> and does not exceed the free collateral at the effective mark; it then debits exactly the amount (the plain subtraction
  cannot overflow), leaves non-negative free collateral, and touches no other account. A refused withdrawal changes nothing.\<close>

theorem withdraw_safe:
  assumes "accounts_ok (lb_accounts b)" "params_ok (lb_liquidation_params b)" "in_u64 amount"
    and "\<forall>m. effective_mark b = Some m \<longrightarrow> 0 \<le> m" "bridge_withdraw b a amount = (b', res)"
  shows "(case res of
       None \<Rightarrow> b' = b
         \<and> (\<forall>acct. map_of (lb_accounts b) a = Some acct \<and> in_i64 amount \<longrightarrow>
              withdraw_free_collateral acct (effective_mark b) (initial_margin_bps (lb_liquidation_params b)) < amount)
     | Some bal \<Rightarrow> (\<exists>acct. map_of (lb_accounts b) a = Some acct \<and> bal = collateral acct - amount
         \<and> map_of (lb_accounts b') = (map_of (lb_accounts b))(a \<mapsto> acct\<lparr>collateral := bal\<rparr>)
         \<and> accounts_ok (lb_accounts b')
         \<and> 0 \<le> withdraw_free_collateral (acct\<lparr>collateral := bal\<rparr>) (effective_mark b) (initial_margin_bps (lb_liquidation_params b))))"
proof (cases "map_of (lb_accounts b) a")
  case None
  then show ?thesis using assms(5) by (auto simp: bridge_withdraw_def)
next
  case (Some acct)
  let ?bps = "initial_margin_bps (lb_liquidation_params b)" and ?mk = "effective_mark b"
  let ?free = "withdraw_free_collateral acct ?mk ?bps"
  have acct: "acct_id acct = a" "account_ok acct" using accounts_okD[OF assms(1) Some] by auto
  show ?thesis
  proof (cases "in_i64 amount \<and> amount \<le> ?free")
    case False
    then show ?thesis using Some assms(5) by (auto simp: bridge_withdraw_def Let_def split: if_splits)
  next
    case True
    have bps: "0 \<le> ?bps" using assms(2) by (simp add: params_ok_def in_u32_def)
    have am: "0 \<le> amount" using assms(3) by (simp add: in_u64_def)
    have "in_i64 (collateral acct - amount) \<and>
      0 \<le> withdraw_free_collateral (acct\<lparr>collateral := collateral acct - amount\<rparr>) ?mk ?bps"
    proof (cases ?mk)
      case mark: (Some m)
      then show ?thesis
        using withdrawal_exact(1,2)[of acct m ?bps amount] acct(2) assms(4) bps am True
        by (auto simp: withdraw_free_collateral_def account_ok_def)
    next
      case mark: None
      then show ?thesis
        using withdrawal_at_entry[OF acct(2) bps am] True by (simp add: withdraw_free_collateral_def)
    qed
    then have w: "in_i64 (collateral acct - amount)"
      "0 \<le> withdraw_free_collateral (acct\<lparr>collateral := collateral acct - amount\<rparr>) ?mk ?bps" by auto
    have "accounts_ok (AList.update a (acct\<lparr>collateral := collateral acct - amount\<rparr>) (lb_accounts b))"
      using acct w(1) by (intro accounts_ok_update[OF assms(1)]) (simp_all add: account_ok_def)
    then show ?thesis using Some True w assms(5) by (auto simp: bridge_withdraw_def Let_def update_conv' fun_eq_iff)
  qed
qed

theorem withdraw_safe_witness:
  "\<exists>b' res. bridge_withdraw (new_trading\<lparr>lb_accounts := demo_accounts, lb_oracle_index_price := Some 100\<rparr>) 1 900 = (b', res)
     \<and> res = Some 100 \<and> accounts_ok (lb_accounts b')"
proof -
  let ?b = "new_trading\<lparr>lb_accounts := demo_accounts, lb_oracle_index_price := Some 100\<rparr>"
  obtain b' res where w: "bridge_withdraw ?b 1 900 = (b', res)" by fastforce
  have m: "effective_mark ?b = Some 100" by (simp add: effective_mark_def)
  have f: "withdraw_free_collateral \<lparr>acct_id = 1, position_size = 10, avg_entry = 100, collateral = 1000\<rparr> (Some 100) 1000 = 900"
    by (simp add: withdraw_free_collateral_def free_collateral_def unrealized_pnl_def initial_margin_requirement_at_def
        MARGIN_SCALE_def sat_def sdiv_nonneg)
  have "res = Some 100"
    using w m f by (auto simp: bridge_withdraw_def new_trading_def demo_accounts_def liquidation_hyperliquid_default_def
        in_i64_def wrap_i64_def Let_def)
  moreover have "accounts_ok demo_accounts"
    by (simp add: accounts_ok_def demo_accounts_def account_ok_def in_i64_def in_u64_def)
  ultimately have "accounts_ok (lb_accounts b')"
    using withdraw_safe[OF _ _ _ _ w] m by (auto simp: new_trading_def in_u64_def)
  with w \<open>res = Some 100\<close> show ?thesis by blast
qed

text \<open>Snapshots of the accounts. The snapshot is sorted by account id and depends only on the
  contents of the table, not on the order of the hash map, so all validators produce the same list; loading it into any
  bridge restores every account and gives the same snapshot again.\<close>

theorem accounts_snapshot_round_trip:
  assumes "accounts_ok (lb_accounts b)" "accounts_ok (lb_accounts c)" "map_of (lb_accounts b) = map_of (lb_accounts c)"
  shows "sorted (map acct_id (accounts_snapshot b)) \<and> accounts_snapshot b = accounts_snapshot c
    \<and> map_of (lb_accounts (load_accounts d (accounts_snapshot b))) = map_of (lb_accounts b)
    \<and> accounts_snapshot (load_accounts d (accounts_snapshot b)) = accounts_snapshot b"
proof -
  let ?l = "load_accounts d (accounts_snapshot b)"
  have hm: "hm_ok (lb_accounts b)" "hm_ok (lb_accounts c)" using assms(1,2) by (simp_all add: accounts_ok_def)
  note lk = load_accounts_lookup[OF assms(1), of d]
  have "accounts_snapshot b = accounts_snapshot c"
    unfolding accounts_snapshot_def
    by (rule values_sorted_determined[OF hm assms(3) accounts_inj(1)[OF assms(1)]])
  moreover have "accounts_snapshot b = sort_key acct_id (map snd (lb_accounts ?l))"
    using values_sorted_determined[OF hm(1) lk(2) lk(1)[symmetric] accounts_inj(1)[OF assms(1)]]
    by (simp only: accounts_snapshot_def)
  then have "accounts_snapshot ?l = accounts_snapshot b" by (simp only: accounts_snapshot_def[of ?l])
  moreover have "sorted (map acct_id (accounts_snapshot b))" by (simp add: accounts_snapshot_def)
  ultimately show ?thesis using lk(1) by blast
qed

theorem accounts_snapshot_round_trip_witness:
  "accounts_snapshot (new_trading\<lparr>lb_accounts := demo_accounts\<rparr>) = accounts_snapshot (new_trading\<lparr>lb_accounts := rev demo_accounts\<rparr>)"
proof -
  have "accounts_ok demo_accounts" "accounts_ok (rev demo_accounts)"
    by (simp_all add: accounts_ok_def demo_accounts_def account_ok_def in_i64_def in_u64_def)
  moreover have "map_of demo_accounts = map_of (rev demo_accounts)" by (auto simp: demo_accounts_def fun_eq_iff)
  ultimately show ?thesis
    using accounts_snapshot_round_trip[of "new_trading\<lparr>lb_accounts := demo_accounts\<rparr>" "new_trading\<lparr>lb_accounts := rev demo_accounts\<rparr>" new_trading]
    by simp
qed

end
