(* ===== verification/Precompiles.thy ===== *)
theory Precompiles
  imports Ledger
begin

text \<open>
  The EVM precompiles (\<open>crates/evm/src/precompiles\<close>): the process-global handles, the ABI
  encodings, the five entry points, the whole-state snapshot and the revert guard
  (\<open>revert_guard.rs\<close>). The globals share the bridge's book, fill queue and account table (the same
  \<open>Arc\<close>s); the relation \<open>shares\<close> states it, and the refinement lemmas show which entry points are the same state change as the bridge's
  operation. A run of the EVM is a tree of frames (\<open>evm_act\<close>).
\<close>

section \<open>Globals\<close>

record globals =
  CLOB_STATE :: "book option"
  FILL_SINK :: "fill list option"
  ACCOUNTS_STATE :: "accounts_map option"
  INITIAL_MARGIN_BPS :: int
  MAINTENANCE_MARGIN_BPS :: int
  ORACLE_INDEX_PRICE :: "int option"
  NEXT_ORDER_ID :: int

definition initial_globals :: globals where
  "initial_globals = \<lparr>CLOB_STATE = None, FILL_SINK = None, ACCOUNTS_STATE = None,
     INITIAL_MARGIN_BPS = DEFAULT_INITIAL_MARGIN_BPS, MAINTENANCE_MARGIN_BPS = DEFAULT_MAINTENANCE_MARGIN_BPS,
     ORACLE_INDEX_PRICE = None, NEXT_ORDER_ID = 1\<rparr>"

definition install_clob :: "book \<Rightarrow> globals \<Rightarrow> globals" where
  "install_clob b g = g\<lparr>CLOB_STATE := Some b\<rparr>"

definition uninstall_clob :: "globals \<Rightarrow> globals" where
  "uninstall_clob g = g\<lparr>CLOB_STATE := None\<rparr>"

definition install_fill_sink :: "fill list \<Rightarrow> globals \<Rightarrow> globals" where
  "install_fill_sink fs g = g\<lparr>FILL_SINK := Some fs\<rparr>"

definition uninstall_fill_sink :: "globals \<Rightarrow> globals" where
  "uninstall_fill_sink g = g\<lparr>FILL_SINK := None\<rparr>"

definition install_accounts :: "accounts_map \<Rightarrow> globals \<Rightarrow> globals" where
  "install_accounts m g = g\<lparr>ACCOUNTS_STATE := Some m\<rparr>"

definition uninstall_accounts :: "globals \<Rightarrow> globals" where
  "uninstall_accounts g = g\<lparr>ACCOUNTS_STATE := None\<rparr>"

definition install_initial_margin_bps :: "int \<Rightarrow> globals \<Rightarrow> globals \<times> int" where
  "install_initial_margin_bps bps g = (g\<lparr>INITIAL_MARGIN_BPS := bps\<rparr>, INITIAL_MARGIN_BPS g)"

definition install_maintenance_margin_bps :: "int \<Rightarrow> globals \<Rightarrow> globals \<times> int" where
  "install_maintenance_margin_bps bps g = (g\<lparr>MAINTENANCE_MARGIN_BPS := bps\<rparr>, MAINTENANCE_MARGIN_BPS g)"

definition install_oracle_index_price :: "int \<Rightarrow> globals \<Rightarrow> globals" where
  "install_oracle_index_price p g = g\<lparr>ORACLE_INDEX_PRICE := Some p\<rparr>"

definition pc_clear_oracle_index_price :: "globals \<Rightarrow> globals" where
  "pc_clear_oracle_index_price g = g\<lparr>ORACLE_INDEX_PRICE := None\<rparr>"

definition current_best_bid :: "globals \<Rightarrow> (price \<times> qty) option" where
  "current_best_bid g = (case CLOB_STATE g of None \<Rightarrow> None | Some b \<Rightarrow> best_bid_with_qty b)"

definition pc_current_mark :: "globals \<Rightarrow> mark_price option" where
  "pc_current_mark g =
     (case CLOB_STATE g of
        None \<Rightarrow> None
      | Some b \<Rightarrow> (case best_bid b of
          None \<Rightarrow> None
        | Some bid \<Rightarrow> (case best_ask b of
            None \<Rightarrow> None
          | Some ask \<Rightarrow> Some (wrap_u64 (bid + ask) div 2))))"

definition pc_effective_mark :: "globals \<Rightarrow> mark_price option" where
  "pc_effective_mark g = (case ORACLE_INDEX_PRICE g of Some p \<Rightarrow> Some p | None \<Rightarrow> pc_current_mark g)"

section \<open>Snapshots of the globals\<close>

record bridge_state_snapshot =
  bs_accounts :: "accounts_map option"
  bs_book :: "book option"
  bs_fills :: "fill list option"

definition snapshot_bridge_state :: "globals \<Rightarrow> bridge_state_snapshot" where
  "snapshot_bridge_state g = \<lparr>bs_accounts = ACCOUNTS_STATE g, bs_book = CLOB_STATE g, bs_fills = FILL_SINK g\<rparr>"

text \<open>An absent part of the snapshot is skipped, and so is a global that is not installed.\<close>

definition restore_bridge_state :: "bridge_state_snapshot \<Rightarrow> globals \<Rightarrow> globals" where
  "restore_bridge_state snap g =
     (let g1 = (if bs_accounts snap \<noteq> None \<and> ACCOUNTS_STATE g \<noteq> None
                then g\<lparr>ACCOUNTS_STATE := bs_accounts snap\<rparr> else g);
          g2 = (if bs_book snap \<noteq> None \<and> CLOB_STATE g1 \<noteq> None
                then g1\<lparr>CLOB_STATE := bs_book snap\<rparr> else g1)
      in if bs_fills snap \<noteq> None \<and> FILL_SINK g2 \<noteq> None
         then g2\<lparr>FILL_SINK := bs_fills snap\<rparr> else g2)"

section \<open>Encodings\<close>

definition u64_from_be_chunk :: "bytes \<Rightarrow> int" where
  "u64_from_be_chunk chunk = from_be_bytes (take 8 (drop 24 chunk))"

definition i64_from_be_chunk :: "bytes \<Rightarrow> int" where
  "i64_from_be_chunk chunk =
     (let sign_byte = chunk ! 24;
          sign_ext = (if sign_byte \<ge> 128 then 255 else 0)
      in if list_ex (\<lambda>b. b \<noteq> sign_ext) (take 24 chunk)
         then (if sign_byte \<ge> 128 then i64_min else i64_max)
         else wrap_i64 (from_be_bytes (take 8 (drop 24 chunk))))"

definition u256_word :: "int \<Rightarrow> bytes" where
  "u256_word x = replicate 24 0 @ to_be_bytes 8 x"

definition int256_word :: "int \<Rightarrow> bytes" where
  "int256_word x = replicate 24 (if x < 0 then 255 else 0) @ to_be_bytes 8 (x mod 18446744073709551616)"

section \<open>The entry points\<close>

text \<open>A result is the gas charged and the output; every entry point answers \<open>Ok\<close>. A panic inside the book
  (which the book's invariant excludes) is \<open>None\<close> of \<open>submit\<close>.\<close>

type_synonym precompile_output = "int \<times> bytes"

definition CLOB_BASE_GAS_COST :: int where "CLOB_BASE_GAS_COST = 500"
definition DEPOSIT_BASE_GAS_COST :: int where "DEPOSIT_BASE_GAS_COST = 500"
definition WITHDRAW_BASE_GAS_COST :: int where "WITHDRAW_BASE_GAS_COST = 500"
definition MARGIN_HEALTH_BASE_GAS_COST :: int where "MARGIN_HEALTH_BASE_GAS_COST = 500"

definition slice :: "nat \<Rightarrow> nat \<Rightarrow> bytes \<Rightarrow> bytes" where
  "slice i j bs = take (j - i) (drop i bs)"

definition read_best_bid :: "globals \<Rightarrow> bytes \<Rightarrow> precompile_output" where
  "read_best_bid g input =
     (case current_best_bid g of
        Some (p, q) \<Rightarrow> (CLOB_BASE_GAS_COST, u256_word p @ u256_word q)
      | None \<Rightarrow> (CLOB_BASE_GAS_COST, replicate 64 0))"

definition place_order :: "globals \<Rightarrow> bytes \<Rightarrow> (globals \<times> precompile_output) option" where
  "place_order g input =
     (let rejected = Some (g, (CLOB_BASE_GAS_COST, replicate 32 0))
      in if length input < 128 then rejected
         else let account_id = u64_from_be_chunk (slice 0 32 input);
                  side_byte = input ! 63;
                  price_value = u64_from_be_chunk (slice 64 96 input);
                  qty_value = u64_from_be_chunk (slice 96 128 input)
              in if side_byte \<noteq> 0 \<and> side_byte \<noteq> 1 then rejected
                 else if qty_value = 0 then rejected
                 else case CLOB_STATE g of
                     None \<Rightarrow> rejected
                   | Some b \<Rightarrow>
                       let order_id_val = NEXT_ORDER_ID g;
                           g1 = g\<lparr>NEXT_ORDER_ID := wrap_u64 (order_id_val + 1)\<rparr>
                       in case submit b \<lparr>ord_id = order_id_val, ord_account = account_id,
                                 ord_side = (if side_byte = 0 then Buy else Sell),
                                 ord_qty = qty_value, ord_type = Limit price_value\<rparr> of
                            None \<Rightarrow> None
                          | Some (b', result) \<Rightarrow>
                              let g2 = g1\<lparr>CLOB_STATE := Some b'\<rparr>;
                                  g3 = (if fills result \<noteq> []
                                        then g2\<lparr>FILL_SINK := map_option (\<lambda>fs. fs @ fills result) (FILL_SINK g2)\<rparr>
                                        else g2)
                              in Some (g3, (CLOB_BASE_GAS_COST, u256_word order_id_val)))"

definition pc_deposit :: "globals \<Rightarrow> bytes \<Rightarrow> globals \<times> precompile_output" where
  "pc_deposit g input =
     (if length input < 64 then (g, (DEPOSIT_BASE_GAS_COST, replicate 32 0))
      else let account_id = u64_from_be_chunk (slice 0 32 input);
               amount = i64_from_be_chunk (slice 32 64 input)
           in case ACCOUNTS_STATE g of
                None \<Rightarrow> (g, (DEPOSIT_BASE_GAS_COST, replicate 32 0))
              | Some accts \<Rightarrow>
                  let acct = entry_or_flat accts account_id;
                      acct' = acct\<lparr>collateral := sat_i64 (collateral acct + amount)\<rparr>
                  in (g\<lparr>ACCOUNTS_STATE := Some (AList.update account_id acct' accts)\<rparr>,
                      (DEPOSIT_BASE_GAS_COST, int256_word (collateral acct'))))"

definition pc_withdraw :: "globals \<Rightarrow> bytes \<Rightarrow> globals \<times> precompile_output" where
  "pc_withdraw g input =
     (let rejected = (g, (WITHDRAW_BASE_GAS_COST, replicate 32 0))
      in if length input < 64 then rejected
         else let account_id = u64_from_be_chunk (slice 0 32 input);
                  amount = u64_from_be_chunk (slice 32 64 input)
              in case ACCOUNTS_STATE g of
                   None \<Rightarrow> rejected
                 | Some accts \<Rightarrow> (case map_of accts account_id of
                     None \<Rightarrow> rejected
                   | Some acct \<Rightarrow>
                       if \<not> in_i64 amount then rejected
                       else let free = withdraw_free_collateral acct (pc_effective_mark g) (INITIAL_MARGIN_BPS g)
                            in if amount > free then rejected
                               else let acct' = acct\<lparr>collateral := wrap_i64 (collateral acct - amount)\<rparr>
                                    in (g\<lparr>ACCOUNTS_STATE := Some (AList.update account_id acct' accts)\<rparr>,
                                        (WITHDRAW_BASE_GAS_COST, int256_word (collateral acct')))))"

fun margin_health_tag :: "margin_health_class option \<Rightarrow> int" where
  "margin_health_tag None = 0"
| "margin_health_tag (Some Safe) = 1"
| "margin_health_tag (Some AtRisk) = 2"
| "margin_health_tag (Some Liquidatable) = 3"
| "margin_health_tag (Some Underwater) = 4"

definition pc_margin_health :: "globals \<Rightarrow> bytes \<Rightarrow> precompile_output" where
  "pc_margin_health g input =
     (let out = (\<lambda>tag. (MARGIN_HEALTH_BASE_GAS_COST, replicate 31 0 @ [tag]))
      in if length input < 32 then out (margin_health_tag None)
         else let account_id = u64_from_be_chunk (slice 0 32 input)
              in case pc_effective_mark g of
                   None \<Rightarrow> out (margin_health_tag None)
                 | Some mark \<Rightarrow> (case ACCOUNTS_STATE g of
                     None \<Rightarrow> out (margin_health_tag None)
                   | Some accts \<Rightarrow> (case map_of accts account_id of
                       None \<Rightarrow> out (margin_health_tag None)
                     | Some acct \<Rightarrow>
                         let params = \<lparr>initial_margin_bps = INITIAL_MARGIN_BPS g,
                               maintenance_margin_bps = MAINTENANCE_MARGIN_BPS g, liquidation_fee_bps = 0\<rparr>
                         in out (margin_health_tag (Some (margin_health (snapshot_of acct) mark params))))))"

section \<open>The revert guard\<close>

definition guard_call :: "bridge_state_snapshot list \<Rightarrow> globals \<Rightarrow> bridge_state_snapshot list" where
  "guard_call savepoints g = snapshot_bridge_state g # savepoints"

definition guard_call_end ::
  "bool \<Rightarrow> bridge_state_snapshot list \<Rightarrow> globals \<Rightarrow> bridge_state_snapshot list \<times> globals" where
  "guard_call_end ok savepoints g =
     (case savepoints of
        [] \<Rightarrow> ([], g)
      | snap # rest \<Rightarrow> (rest, if \<not> ok then restore_bridge_state snap g else g))"

section \<open>Encodings round trip\<close>

lemma u64_word_round_trip: "in_u64 x \<Longrightarrow> u64_from_be_chunk (u256_word x) = x"
  by (simp add: u64_from_be_chunk_def u256_word_def from_to_be_bytes in_u64_def)

lemma to_be_bytes_Suc: "to_be_bytes (Suc n) x = to_be_bytes n (x div 256) @ [x mod 256]"
  by (simp add: to_be_bytes_def)

lemma to_be_bytes_head:
  "0 \<le> x \<Longrightarrow> x < 256 ^ Suc n \<Longrightarrow> to_be_bytes (Suc n) x ! 0 = x div 256 ^ n"
proof (induction n arbitrary: x)
  case 0
  then show ?case by (simp add: to_be_bytes_def)
next
  case (Suc n)
  have "x div 256 < 256 ^ Suc n" "0 \<le> x div 256" using Suc.prems by simp_all
  then have "to_be_bytes (Suc n) (x div 256) ! 0 = x div 256 div 256 ^ n" using Suc.IH by blast
  moreover have "x div 256 div 256 ^ n = x div 256 ^ Suc n" by (simp add: zdiv_zmult2_eq)
  ultimately show ?case by (simp add: to_be_bytes_Suc[of "Suc n"] nth_append)
qed

lemma int256_word_round_trip:
  assumes "in_i64 x"
  shows "i64_from_be_chunk (int256_word x) = x"
proof -
  let ?y = "x mod 18446744073709551616"
  have y: "?y = (if x < 0 then x + 18446744073709551616 else x)"
  proof (cases "x < 0")
    case True
    have "?y = (x + 18446744073709551616) mod 18446744073709551616" by simp
    also have "\<dots> = x + 18446744073709551616"
      using assms True by (intro mod_pos_pos_trivial) (simp_all add: in_i64_def)
    finally show ?thesis using True by simp
  next
    case False
    then show ?thesis using assms by (simp add: in_i64_def)
  qed
  have rng: "0 \<le> ?y" "?y < 256 ^ 8" by simp_all
  have head: "int256_word x ! 24 = ?y div 72057594037927936"
    using to_be_bytes_head[of ?y 7] rng by (simp add: int256_word_def nth_append)
  have sign: "?y div 72057594037927936 \<ge> 128 \<longleftrightarrow> x < 0" using assms y by (auto simp: in_i64_def)
  have "from_be_bytes (to_be_bytes 8 ?y) = ?y" by (rule from_to_be_bytes[OF rng])
  moreover have "wrap_i64 ?y = wrap_i64 x" unfolding wrap_i64_def by (simp only: mod_add_left_eq)
  then have "wrap_i64 ?y = x" using assms by simp
  ultimately show ?thesis
    using sign unfolding i64_from_be_chunk_def Let_def head by (simp add: int256_word_def list_ex_iff)
qed

text \<open>Out of range, the decoder picks the bound by the sign of byte 24, not by the sign of the
  256-bit number: minus \<open>2\<^sup>6\<^sup>4\<close> (23 bytes \<open>ff\<close>, then zeros) decodes to the largest positive amount.\<close>

lemma i64_chunk_wrong_sign:
  "i64_from_be_chunk (replicate 23 255 @ [254] @ replicate 8 0) = i64_max
   \<and> i64_from_be_chunk (replicate 24 255 @ replicate 8 0) = i64_max"
  by (simp add: i64_from_be_chunk_def nth_append list_ex_iff numeral_eq_Suc)

section \<open>Agreement with the bridge\<close>

definition shares :: "globals \<Rightarrow> 'x trading_scheme \<Rightarrow> bool" where
  "shares g b \<longleftrightarrow> CLOB_STATE g = Some (lb_clob b) \<and> FILL_SINK g = Some (lb_pending_fills b)
     \<and> ACCOUNTS_STATE g = Some (lb_accounts b)
     \<and> INITIAL_MARGIN_BPS g = initial_margin_bps (lb_liquidation_params b)
     \<and> MAINTENANCE_MARGIN_BPS g = maintenance_margin_bps (lb_liquidation_params b)
     \<and> ORACLE_INDEX_PRICE g = lb_oracle_index_price b"

lemma shares_mark: "shares g b \<Longrightarrow> pc_effective_mark g = effective_mark b"
  by (simp add: shares_def pc_effective_mark_def effective_mark_def pc_current_mark_def current_mark_def
      split: option.splits)

text \<open>The bridge installs its own state when it is built, and its setters write both sides: the
  parameters and the index price stay in lockstep. The margin globals are not reset by \<open>new\<close>; a first bridge
  finds their initial values.\<close>

definition live_new :: "globals \<Rightarrow> globals \<times> trading" where
  "live_new g =
     (let b = new_trading
      in (install_accounts (lb_accounts b) (install_fill_sink (lb_pending_fills b) (install_clob (lb_clob b) g)), b))"

definition live_with_liquidation_params ::
  "globals \<times> 'x trading_scheme \<Rightarrow> liquidation_params \<Rightarrow> globals \<times> 'x trading_scheme" where
  "live_with_liquidation_params gb params =
     (let (g1, _) = install_initial_margin_bps (initial_margin_bps params) (fst gb);
          (g2, _) = install_maintenance_margin_bps (maintenance_margin_bps params) g1
      in (g2, with_liquidation_params (snd gb) params))"

definition live_set_oracle_index_price :: "globals \<times> 'x trading_scheme \<Rightarrow> int \<Rightarrow> globals \<times> 'x trading_scheme" where
  "live_set_oracle_index_price gb p = (install_oracle_index_price p (fst gb), set_oracle_index_price (snd gb) p)"

definition live_clear_oracle_index_price :: "globals \<times> 'x trading_scheme \<Rightarrow> globals \<times> 'x trading_scheme" where
  "live_clear_oracle_index_price gb = (pc_clear_oracle_index_price (fst gb), clear_oracle_index_price (snd gb))"

lemma lockstep:
  "case live_new initial_globals of (g, b) \<Rightarrow> shares g b"
  "shares g b \<Longrightarrow> case live_with_liquidation_params (g, b) params of (g', b') \<Rightarrow> shares g' b'"
  "shares g b \<Longrightarrow> case live_set_oracle_index_price (g, b) p of (g', b') \<Rightarrow> shares g' b'"
  "shares g b \<Longrightarrow> case live_clear_oracle_index_price (g, b) of (g', b') \<Rightarrow> shares g' b'"
  by (simp_all add: shares_def live_new_def live_with_liquidation_params_def live_set_oracle_index_price_def
      live_clear_oracle_index_price_def install_clob_def install_fill_sink_def install_accounts_def initial_globals_def
      new_trading_def install_initial_margin_bps_def install_maintenance_margin_bps_def with_liquidation_params_def
      install_oracle_index_price_def set_oracle_index_price_def pc_clear_oracle_index_price_def clear_oracle_index_price_def
      liquidation_hyperliquid_default_def DEFAULT_INITIAL_MARGIN_BPS_def DEFAULT_MAINTENANCE_MARGIN_BPS_def)

lemma shares_update:
  "shares g b \<Longrightarrow> shares (g\<lparr>ACCOUNTS_STATE := Some m\<rparr>) (b\<lparr>lb_accounts := m\<rparr>)"
  by (simp add: shares_def)

lemma health_ignores_fee:
  assumes "initial_margin_bps p = initial_margin_bps q" "maintenance_margin_bps p = maintenance_margin_bps q"
  shows "margin_health s mark p = margin_health s mark q"
  using assms by (simp add: margin_health_def Let_def)

text \<open>The words of an input, and what the entry points read back from them.\<close>

lemma length_words [simp]: "length (u256_word x) = 32" "length (int256_word x) = 32"
  by (simp_all add: u256_word_def int256_word_def)

lemma slice_words [simp]:
  "length xs = 32 \<Longrightarrow> slice 0 32 (xs @ ys) = xs"
  "length xs = 32 \<Longrightarrow> slice 0 32 xs = xs"
  "length xs = 32 \<Longrightarrow> length ys = 32 \<Longrightarrow> slice 32 64 (xs @ ys) = ys"
  by (simp_all add: slice_def)

text \<open>How a caller reads the 32-byte answer of the deposit and withdraw entry points.\<close>

definition answer :: "precompile_output \<Rightarrow> int" where
  "answer out = i64_from_be_chunk (snd out)"

section \<open>Frames\<close>

datatype precompile_call = PlaceOrder | Deposit | Withdraw

text \<open>One EVM execution: a precompile call, or a sub-frame with its kind, whether it ended well, and
  what it did. REVM calls the inspector's \<open>call\<close> and \<open>call_end\<close> around call frames; the guard does not implement the hooks of
  create frames, whose defaults do nothing.\<close>

datatype frame_kind = CallFrame | CreateFrame
datatype evm_act = Pre precompile_call bytes | Sub frame_kind bool "evm_act list"

fun run_precompile :: "precompile_call \<Rightarrow> bytes \<Rightarrow> globals \<Rightarrow> globals" where
  "run_precompile PlaceOrder input g = (case place_order g input of Some (g', _) \<Rightarrow> g' | None \<Rightarrow> g)"
| "run_precompile Deposit input g = fst (pc_deposit g input)"
| "run_precompile Withdraw input g = fst (pc_withdraw g input)"

type_synonym guarded = "bridge_state_snapshot list \<times> globals"

fun run_act :: "evm_act \<Rightarrow> guarded \<Rightarrow> guarded" and run_acts :: "evm_act list \<Rightarrow> guarded \<Rightarrow> guarded" where
  "run_act (Pre c input) (s, g) = (s, run_precompile c input g)"
| "run_act (Sub CallFrame ok acts) (s, g) =
     (let (s', g') = run_acts acts (guard_call s g, g) in guard_call_end ok s' g')"
| "run_act (Sub CreateFrame ok acts) (s, g) = run_acts acts (s, g)"
| "run_acts [] sg = sg"
| "run_acts (a # acts) sg = run_acts acts (run_act a sg)"

text \<open>What the guard protects, and which globals are installed.\<close>

definition same_installed :: "globals \<Rightarrow> globals \<Rightarrow> bool" where
  "same_installed g g' \<longleftrightarrow> (CLOB_STATE g = None \<longleftrightarrow> CLOB_STATE g' = None)
     \<and> (FILL_SINK g = None \<longleftrightarrow> FILL_SINK g' = None) \<and> (ACCOUNTS_STATE g = None \<longleftrightarrow> ACCOUNTS_STATE g' = None)"

lemma same_installed_refl [simp]: "same_installed g g" by (simp add: same_installed_def)

lemma same_installed_trans: "same_installed g g' \<Longrightarrow> same_installed g' g'' \<Longrightarrow> same_installed g g''"
  by (simp add: same_installed_def)

lemma run_precompile_installed: "same_installed g (run_precompile c input g)"
proof (cases c)
  case PlaceOrder
  then show ?thesis
    by (auto simp: same_installed_def place_order_def Let_def split: option.splits)
qed (auto simp: same_installed_def pc_deposit_def pc_withdraw_def Let_def split: option.splits)

lemma restore_installed: "same_installed g (restore_bridge_state snap g)"
  by (auto simp: same_installed_def restore_bridge_state_def Let_def)

lemma restore_restores:
  assumes "same_installed g g'"
  shows "snapshot_bridge_state (restore_bridge_state (snapshot_bridge_state g) g') = snapshot_bridge_state g"
  using assms by (auto simp: same_installed_def restore_bridge_state_def snapshot_bridge_state_def Let_def)

text \<open>Every execution leaves the stack of savepoints as it found it.\<close>

lemma run_balanced:
  "run_act a (s, g) = (s', g') \<Longrightarrow> s' = s \<and> same_installed g g'"
  "run_acts acts (s, g) = (s', g') \<Longrightarrow> s' = s \<and> same_installed g g'"
proof (induction a "(s, g)" and acts "(s, g)" arbitrary: s g s' g' and s g s' g' rule: run_act_run_acts.induct)
  case (1 c input s g)
  then show ?case using run_precompile_installed by auto
next
  case (2 ok acts s g)
  obtain s1 g1 where r: "run_acts acts (guard_call s g, g) = (s1, g1)" by fastforce
  have "s1 = guard_call s g" "same_installed g g1" using "2.hyps"[OF r] by auto
  then show ?case
    using "2.prems" r restore_installed[of g1] same_installed_trans
    by (auto simp: guard_call_end_def guard_call_def split: if_splits)
next
  case (3 ok acts s g)
  then show ?case by simp
next
  case 4
  then show ?case by simp
next
  case (5 a acts s g)
  obtain s1 g1 where r: "run_act a (s, g) = (s1, g1)" by fastforce
  then show ?case using 5 same_installed_trans by fastforce
qed

section \<open>Entry points on encoded inputs\<close>

lemma deposit_mirrors:
  assumes "shares g b" "in_u64 a" "in_i64 amount"
  shows "shares (fst (pc_deposit g (u256_word a @ int256_word amount))) (fst (bridge_deposit b a amount))
    \<and> answer (snd (pc_deposit g (u256_word a @ int256_word amount))) = snd (bridge_deposit b a amount)"
  using assms
  by (simp add: pc_deposit_def bridge_deposit_def Let_def u64_word_round_trip int256_word_round_trip answer_def shares_def)

lemma withdraw_mirrors:
  assumes "shares g b" "in_u64 a" "in_u64 amount"
  shows "shares (fst (pc_withdraw g (u256_word a @ u256_word amount))) (fst (bridge_withdraw b a amount))
    \<and> answer (snd (pc_withdraw g (u256_word a @ u256_word amount)))
        = (case snd (bridge_withdraw b a amount) of Some bal \<Rightarrow> bal | None \<Rightarrow> 0)"
proof -
  have z: "i64_from_be_chunk (replicate 32 0) = 0"
    using int256_word_round_trip[of 0] by (simp add: int256_word_def to_be_bytes_def in_i64_def numeral_eq_Suc)
  show ?thesis
    using assms shares_mark[OF assms(1)]
    by (auto simp: pc_withdraw_def bridge_withdraw_def Let_def u64_word_round_trip int256_word_round_trip z
        answer_def shares_def split: option.splits)
qed

lemma margin_health_mirrors:
  assumes "shares g b" "in_u64 a"
  shows "snd (pc_margin_health g (u256_word a)) = replicate 31 0 @ [margin_health_tag (bridge_margin_health b a)]"
  using assms shares_mark[OF assms(1)]
  by (auto simp: pc_margin_health_def bridge_margin_health_def Let_def u64_word_round_trip shares_def
      intro!: arg_cong[where f = margin_health_tag] health_ignores_fee split: option.splits)

definition place_order_input :: "account_id \<Rightarrow> side \<Rightarrow> price \<Rightarrow> qty \<Rightarrow> bytes" where
  "place_order_input a sd p q = u256_word a @ u256_word (if sd = Buy then 0 else 1) @ u256_word p @ u256_word q"

lemma slice_order_words [simp]:
  "length ws = 32 \<Longrightarrow> length xs = 32 \<Longrightarrow> length ys = 32 \<Longrightarrow> length zs = 32 \<Longrightarrow>
    slice 64 96 (ws @ xs @ ys @ zs) = ys"
  "length ws = 32 \<Longrightarrow> length xs = 32 \<Longrightarrow> length ys = 32 \<Longrightarrow> length zs = 32 \<Longrightarrow>
    slice 96 128 (ws @ xs @ ys @ zs) = zs"
  by (simp_all add: slice_def)

lemma side_word_byte: "(u256_word a @ u256_word (if c then 0 else 1) @ zs) ! 63 = (if c then 0 else 1)"
proof -
  have "u256_word (if c then 0 else 1) ! 31 = (if c then 0 else 1)"
    by (simp add: u256_word_def nth_append to_be_bytes_def numeral_eq_Suc)
  then show ?thesis by (simp add: nth_append)
qed

text \<open>The order the entry point submits.\<close>

definition placed_order :: "globals \<Rightarrow> account_id \<Rightarrow> side \<Rightarrow> price \<Rightarrow> qty \<Rightarrow> order" where
  "placed_order g a sd p q =
     \<lparr>ord_id = NEXT_ORDER_ID g, ord_account = a, ord_side = sd, ord_qty = q, ord_type = Limit p\<rparr>"

lemma place_order_shape:
  assumes "shares g b" "in_u64 a" "in_u64 p" "in_u64 q" "0 < q"
  shows "place_order g (place_order_input a sd p q) =
    (case submit (lb_clob b) (placed_order g a sd p q) of
       None \<Rightarrow> None
     | Some (book', res) \<Rightarrow>
         Some (g\<lparr>NEXT_ORDER_ID := wrap_u64 (NEXT_ORDER_ID g + 1), CLOB_STATE := Some book',
                 FILL_SINK := Some (lb_pending_fills b @ fills res)\<rparr>,
               (CLOB_BASE_GAS_COST, u256_word (NEXT_ORDER_ID g))))"
proof -
  have sd: "(if (if sd = Buy then 0 else 1 :: int) = 0 then Buy else Sell) = sd" by (cases sd) simp_all
  have byte: "place_order_input a sd p q ! 63 = (if sd = Buy then 0 else 1)"
    unfolding place_order_input_def by (rule side_word_byte)
  have slices: "u64_from_be_chunk (slice 0 32 (place_order_input a sd p q)) = a"
    "u64_from_be_chunk (slice 64 96 (place_order_input a sd p q)) = p"
    "u64_from_be_chunk (slice 96 128 (place_order_input a sd p q)) = q"
    using assms by (simp_all add: place_order_input_def u64_word_round_trip)
  have len: "length (place_order_input a sd p q) = 128" by (simp add: place_order_input_def)
  show ?thesis
    using assms(1,5) unfolding place_order_def Let_def byte slices len sd placed_order_def
    by (cases sd) (auto simp: shares_def split: option.splits)
qed

section \<open>Properties\<close>

text \<open>C22: the deposit, withdraw and margin-health precompiles are the bridge's own operations. On
  globals that share the bridge's state, a call with the encoded arguments changes the shared tables exactly as the bridge's
  method does, the globals and the bridge still agree afterwards, and the 32-byte answer decodes to the bridge's result: the new balance, zero for a refused
  withdrawal, the tag of the health class.\<close>

theorem precompiles_mirror_bridge:
  assumes "shares g b" "in_u64 a" "in_i64 amount" "in_u64 w"
  shows "(case pc_deposit g (u256_word a @ int256_word amount) of (g', out) \<Rightarrow>
            case bridge_deposit b a amount of (b', bal) \<Rightarrow> shares g' b' \<and> answer out = bal)
    \<and> (case pc_withdraw g (u256_word a @ u256_word w) of (g', out) \<Rightarrow>
            case bridge_withdraw b a w of (b', res) \<Rightarrow>
              shares g' b' \<and> answer out = (case res of Some bal \<Rightarrow> bal | None \<Rightarrow> 0))
    \<and> snd (pc_margin_health g (u256_word a)) = replicate 31 0 @ [margin_health_tag (bridge_margin_health b a)]"
  using deposit_mirrors[OF assms(1-3)] withdraw_mirrors[OF assms(1,2,4)] margin_health_mirrors[OF assms(1,2)]
  by (simp add: case_prod_beta)

text \<open>Globals that share a bridge's state.\<close>

definition globals_of :: "trading \<Rightarrow> globals" where
  "globals_of b = \<lparr>CLOB_STATE = Some (lb_clob b), FILL_SINK = Some (lb_pending_fills b), ACCOUNTS_STATE = Some (lb_accounts b),
     INITIAL_MARGIN_BPS = initial_margin_bps (lb_liquidation_params b),
     MAINTENANCE_MARGIN_BPS = maintenance_margin_bps (lb_liquidation_params b),
     ORACLE_INDEX_PRICE = lb_oracle_index_price b, NEXT_ORDER_ID = 1\<rparr>"

lemma shares_globals_of: "shares (globals_of b) b"
  by (simp add: shares_def globals_of_def)

theorem precompiles_mirror_bridge_witness:
  "answer (snd (pc_deposit (globals_of new_trading) (u256_word 7 @ int256_word 250))) = 250
   \<and> answer (snd (pc_withdraw (globals_of new_trading) (u256_word 7 @ u256_word 9))) = 0"
  using precompiles_mirror_bridge[OF shares_globals_of, of 7 250 9 new_trading]
  by (simp add: case_prod_beta in_u64_def in_i64_def bridge_deposit_def bridge_withdraw_def new_trading_def
      entry_or_flat_def flat_account_def sat_def Let_def)

text \<open>Orders placed from the EVM. On shared globals the place-order precompile submits the same order to the same
  book as the bridge's \<open>submit_order\<close> and queues the same fills, and answers with a fresh order id; but it leaves the
  table of accounts as it is, so the fills are not settled where \<open>submit_order\<close> settles them.\<close>

theorem place_order_skips_settlement:
  assumes "shares g b" "in_u64 a" "in_u64 p" "in_u64 q" "0 < q"
    and "submit_order b (placed_order g a sd p q) = Some (b', res)"
  shows "\<exists>g' out. place_order g (place_order_input a sd p q) = Some (g', out)
    \<and> CLOB_STATE g' = Some (lb_clob b') \<and> FILL_SINK g' = Some (lb_pending_fills b')
    \<and> snd out = u256_word (NEXT_ORDER_ID g) \<and> NEXT_ORDER_ID g' = wrap_u64 (NEXT_ORDER_ID g + 1)
    \<and> ACCOUNTS_STATE g' = ACCOUNTS_STATE g
    \<and> lb_accounts b' = apply_fills_to_accounts (fills res) (lb_accounts b)"
  using assms(6) place_order_shape[OF assms(1-5), of sd]
  by (auto simp: submit_order_def apply_fills_to_accounts_def Let_def split: option.splits if_splits)

text \<open>A bid for 5 at 100 meets a resting offer of 3 at 90: one fill, and no account is touched.\<close>

definition demo_offer :: trading where
  "demo_offer = new_trading\<lparr>lb_clob := \<lparr>bids = [], asks = [(90, [\<lparr>ro_id = 9, ro_account = 2, ro_qty = 3\<rparr>])]\<rparr>\<rparr>"

theorem place_order_skips_settlement_witness:
  "\<exists>g' out. place_order (globals_of demo_offer) (place_order_input 1 Buy 100 5) = Some (g', out)
     \<and> map_option length (FILL_SINK g') = Some 1 \<and> ACCOUNTS_STATE g' = Some []"
proof -
  let ?g = "globals_of demo_offer"
  have "map_option (\<lambda>(b, res). length (lb_pending_fills b)) (submit_order demo_offer (placed_order ?g 1 Buy 100 5)) = Some 1"
    by code_simp
  then obtain b' res where sub: "submit_order demo_offer (placed_order ?g 1 Buy 100 5) = Some (b', res)"
    and len: "length (lb_pending_fills b') = 1" by auto
  have acc: "ACCOUNTS_STATE ?g = Some []" by (simp add: globals_of_def demo_offer_def new_trading_def)
  show ?thesis
    using place_order_skips_settlement[OF shares_globals_of _ _ _ _ sub] acc len by (auto simp: in_u64_def)
qed

text \<open>A call frame leaves the savepoints as they were, and restores the state if it fails.\<close>

lemma failed_call_restores:
  assumes "run_act (Sub CallFrame ok acts) (s, g) = (s', g')"
  shows "s' = s \<and> (\<not> ok \<longrightarrow> snapshot_bridge_state g' = snapshot_bridge_state g)"
proof -
  obtain s1 g1 where r: "run_acts acts (guard_call s g, g) = (s1, g1)" by fastforce
  have "s1 = guard_call s g" "same_installed g g1" using run_balanced(2)[OF r] by auto
  then show ?thesis
    using assms r restore_restores[of g g1]
    by (auto simp: guard_call_end_def guard_call_def split: if_splits)
qed

text \<open>C11: a call that fails leaves no trace. Whatever a call frame does, at any nesting of sub-calls, precompile
  calls and failures inside it, the savepoint stack is as before when it ends, and if the frame reverted or halted, the
  accounts, the book and the queued fills are exactly those at its entry.\<close>

theorem revert_guard_rolls_back:
  assumes "run_act (Sub CallFrame ok acts) (s, g) = (s', g')"
  shows "s' = s \<and> (\<not> ok \<longrightarrow> snapshot_bridge_state g' = snapshot_bridge_state g)"
  by (rule failed_call_restores[OF assms])

theorem revert_guard_rolls_back_witness:
  "\<exists>g'. run_act (Sub CallFrame False [Pre Deposit (u256_word 7 @ int256_word 250)]) ([], globals_of new_trading) = ([], g')
     \<and> snapshot_bridge_state g' = snapshot_bridge_state (globals_of new_trading)"
proof -
  obtain s' g' where r:
    "run_act (Sub CallFrame False [Pre Deposit (u256_word 7 @ int256_word 250)]) ([], globals_of new_trading) = (s', g')"
    by fastforce
  then show ?thesis using revert_guard_rolls_back[OF r] by auto
qed

text \<open>The guard has no hook for contract creation: a constructor that deposits and reverts, inside a call that
  succeeds, keeps the deposited collateral.\<close>

theorem create_revert_leaks:
  "snapshot_bridge_state (snd (run_act (Sub CallFrame True
      [Sub CreateFrame False [Pre Deposit (u256_word 7 @ int256_word 250)]]) ([], globals_of new_trading)))
   \<noteq> snapshot_bridge_state (globals_of new_trading)"
  by (simp add: guard_call_def guard_call_end_def pc_deposit_def Let_def globals_of_def new_trading_def snapshot_bridge_state_def)

end
