(* ===== verification/Bridge.thy ===== *)
theory Bridge
  imports Containers
begin

text \<open>
  The contract between consensus and execution (\<open>crates/types\<close>, \<open>crates/consensus/src/bridge.rs\<close>)
  as the locale \<open>consensus_bridge\<close>, and its two small implementations: the in-memory test double
  (\<open>crates/evm/src/in_memory.rs\<close>) and the Reth-typed one (\<open>crates/evm/src/engine.rs\<close>), each an
  interpretation. The live bridge is in \<open>Live_Bridge\<close>. The texts of error messages are left out.
\<close>

section \<open>Shared types\<close>

type_synonym block_hash = bytes
type_synonym payload_id = int

record payload_attrs =
  pa_timestamp :: int
  pa_fee_recipient :: bytes
  pa_prev_randao :: bytes

datatype payload_status = Valid | Invalid | Syncing

record executed_block =
  eb_hash :: block_hash
  eb_parent_hash :: block_hash
  eb_number :: int
  eb_state_root :: bytes
  eb_timestamp :: int

datatype bridge_error = Rejected | EL_Syncing | Internal

text \<open>The parts of alloy's \<open>Header\<close> the code reads or writes; the others are kept as they come in \<open>hd_rest\<close>.\<close>

record header =
  hd_parent_hash :: block_hash
  hd_number :: int
  hd_timestamp :: int
  hd_beneficiary :: bytes
  hd_mix_hash :: bytes
  hd_gas_limit :: int
  hd_difficulty :: int
  hd_base_fee_per_gas :: "int option"
  hd_state_root :: bytes
  hd_rest :: bytes

text \<open>\<open>values().find(..)\<close> of a hash map, in the order of the list.\<close>

definition find_value :: "('v \<Rightarrow> bool) \<Rightarrow> ('k, 'v) hash_map \<Rightarrow> 'v option" where
  "find_value P m = find P (map snd m)"

lemma find_value_Some: "find_value P m = Some v \<Longrightarrow> P v \<and> v \<in> snd ` set m"
  unfolding find_value_def by (induction m) (auto split: if_splits)

lemma find_value_None: "find_value P m = None \<longleftrightarrow> (\<forall>v \<in> snd ` set m. \<not> P v)"
  by (simp add: find_value_def find_None_iff)

lemma find_value_unique:
  assumes "(k, v) \<in> set m" "P v" "\<And>v'. v' \<in> snd ` set m \<Longrightarrow> P v' \<Longrightarrow> v' = v"
  shows "find_value P m = Some v"
proof (cases "find_value P m")
  case None
  have "v \<in> snd ` set m" using assms(1) by force
  then show ?thesis using find_value_None[THEN iffD1, OF None] assms(2) by blast
next
  case (Some v')
  then show ?thesis using find_value_Some assms(3) by metis
qed

lemma find_value_exists: "(k, v) \<in> set m \<Longrightarrow> P v \<Longrightarrow> \<exists>q. find_value P m = Some q"
  using find_value_None[of P m] by force

lemma set_AList_update: "set (AList.update k v m) \<subseteq> insert (k, v) (set m)"
  by (induction m) auto

section \<open>The contract\<close>

text \<open>One height after another: build on the parent, fetch the block, commit it, go on from it.\<close>

fun produce ::
  "('s \<Rightarrow> block_hash \<Rightarrow> payload_attrs \<Rightarrow> 's \<times> (bridge_error + payload_id)) \<Rightarrow>
   ('s \<Rightarrow> payload_id \<Rightarrow> bridge_error + executed_block) \<Rightarrow>
   ('s \<Rightarrow> block_hash \<Rightarrow> 's \<times> (bridge_error + unit)) \<Rightarrow>
   's \<Rightarrow> block_hash \<Rightarrow> payload_attrs list \<Rightarrow> bridge_error + 's \<times> executed_block list" where
  "produce build ready cmt s parent [] = Inr (s, [])"
| "produce build ready cmt s parent (attrs # rest) =
     (case build s parent attrs of
        (s1, Inl e) \<Rightarrow> Inl e
      | (s1, Inr i) \<Rightarrow> (case ready s1 i of
          Inl e \<Rightarrow> Inl e
        | Inr b \<Rightarrow> (case cmt s1 (eb_hash b) of
            (s2, Inl e) \<Rightarrow> Inl e
          | (s2, Inr _) \<Rightarrow> (case produce build ready cmt s2 (eb_hash b) rest of
              Inl e \<Rightarrow> Inl e
            | Inr (s3, bs) \<Rightarrow> Inr (s3, b # bs)))))"

text \<open>Each block names its predecessor and has the next number.\<close>

fun linked :: "block_hash \<Rightarrow> int \<Rightarrow> executed_block list \<Rightarrow> bool" where
  "linked p n [] \<longleftrightarrow> True"
| "linked p n (b # bs) \<longleftrightarrow> eb_parent_hash b = p \<and> eb_number b = wrap_u64 (n + 1) \<and> linked (eb_hash b) (eb_number b) bs"

locale consensus_bridge =
  fixes bridge_inv :: "'s \<Rightarrow> bool"
    and build_payload :: "'s \<Rightarrow> block_hash \<Rightarrow> payload_attrs \<Rightarrow> 's \<times> (bridge_error + payload_id)"
    and payload_ready :: "'s \<Rightarrow> payload_id \<Rightarrow> bridge_error + executed_block"
    and commit :: "'s \<Rightarrow> block_hash \<Rightarrow> 's \<times> (bridge_error + unit)"
    and number_of :: "'s \<Rightarrow> block_hash \<Rightarrow> int option"
    and head_of :: "'s \<Rightarrow> block_hash option"
  assumes build_inv: "bridge_inv s \<Longrightarrow> build_payload s p a = (s', r) \<Longrightarrow> bridge_inv s'"
    and commit_inv: "bridge_inv s \<Longrightarrow> commit s h = (s', r') \<Longrightarrow> bridge_inv s'"
    and build_ready: "bridge_inv s \<Longrightarrow> number_of s p = Some n \<Longrightarrow>
      \<exists>s' i b. build_payload s p a = (s', Inr i) \<and> payload_ready s' i = Inr b
        \<and> eb_parent_hash b = p \<and> eb_number b = wrap_u64 (n + 1)"
    and ready_commit: "bridge_inv s \<Longrightarrow> payload_ready s i = Inr b \<Longrightarrow>
      \<exists>s'. commit s (eb_hash b) = (s', Inr ()) \<and> head_of s' = Some (eb_hash b)
        \<and> number_of s' (eb_hash b) = Some (eb_number b)"
    and commit_error: "commit s h = (s', Inl e) \<Longrightarrow> s' = s"
begin

lemma produce_step:
  assumes "bridge_inv s" "number_of s p = Some n"
  obtains s1 i b s2 where "build_payload s p a = (s1, Inr i)" "payload_ready s1 i = Inr b"
    "commit s1 (eb_hash b) = (s2, Inr ())" "bridge_inv s2" "eb_parent_hash b = p" "eb_number b = wrap_u64 (n + 1)"
    "head_of s2 = Some (eb_hash b)" "number_of s2 (eb_hash b) = Some (eb_number b)"
proof -
  obtain s1 i b where b: "build_payload s p a = (s1, Inr i)" "payload_ready s1 i = Inr b"
    "eb_parent_hash b = p" "eb_number b = wrap_u64 (n + 1)"
    using build_ready[OF assms] by blast
  have inv1: "bridge_inv s1" using build_inv[OF assms(1) b(1)] .
  obtain s2 where "commit s1 (eb_hash b) = (s2, Inr ())" "head_of s2 = Some (eb_hash b)"
    "number_of s2 (eb_hash b) = Some (eb_number b)" using ready_commit[OF inv1 b(2)] by blast
  then show thesis using that b inv1 commit_inv by blast
qed

text \<open>From a known parent every height is produced: the blocks form a chain, and the last one is the head.\<close>

lemma produces_chain:
  assumes "bridge_inv s" "number_of s p = Some n"
  shows "\<exists>s' bs. produce build_payload payload_ready commit s p as = Inr (s', bs) \<and> bridge_inv s'
    \<and> length bs = length as \<and> linked p n bs \<and> (bs \<noteq> [] \<longrightarrow> head_of s' = Some (eb_hash (last bs)))"
  using assms
proof (induction as arbitrary: s p n)
  case (Cons a as)
  obtain s1 i b s2 where st: "build_payload s p a = (s1, Inr i)" "payload_ready s1 i = Inr b"
    "commit s1 (eb_hash b) = (s2, Inr ())" "bridge_inv s2" "eb_parent_hash b = p" "eb_number b = wrap_u64 (n + 1)"
    "head_of s2 = Some (eb_hash b)" "number_of s2 (eb_hash b) = Some (eb_number b)"
    using produce_step[OF Cons.prems] by metis
  obtain s' bs where "produce build_payload payload_ready commit s2 (eb_hash b) as = Inr (s', bs)" "bridge_inv s'"
    "length bs = length as" "linked (eb_hash b) (eb_number b) bs" "bs \<noteq> [] \<longrightarrow> head_of s' = Some (eb_hash (last bs))"
    using Cons.IH[OF st(4,8)] by blast
  moreover have "bs = [] \<Longrightarrow> s' = s2" using calculation(1,3) by (cases as) auto
  ultimately show ?case using st by auto
qed auto

end

section \<open>The in-memory bridge\<close>

record mem_state =
  ms_next_payload_id :: int
  ms_pending :: "(int, executed_block) hash_map"
  ms_chain :: "(block_hash, executed_block) hash_map"
  ms_head :: "block_hash option"

definition new_mem :: mem_state where
  "new_mem = \<lparr>ms_next_payload_id = 0, ms_pending = [], ms_chain = [], ms_head = None\<rparr>"

definition mem_hash :: "int \<Rightarrow> int \<Rightarrow> block_hash" where
  "mem_hash i number = to_le_bytes 8 i @ to_le_bytes 8 number @ replicate 16 0"

definition mem_build_payload ::
  "mem_state \<Rightarrow> block_hash \<Rightarrow> payload_attrs \<Rightarrow> mem_state \<times> (bridge_error + payload_id)" where
  "mem_build_payload s parent attrs =
     (let i = ms_next_payload_id s;
          s1 = s\<lparr>ms_next_payload_id := wrap_u64 (i + 1)\<rparr>;
          (parent_number, parent_timestamp) =
            (case map_of (ms_chain s1) parent of None \<Rightarrow> (0, 0) | Some b \<Rightarrow> (eb_number b, eb_timestamp b));
          number = wrap_u64 (parent_number + 1);
          timestamp = max (pa_timestamp attrs) (wrap_u64 (parent_timestamp + 1));
          block = \<lparr>eb_hash = mem_hash i number, eb_parent_hash = parent, eb_number = number,
                   eb_state_root = replicate 32 0, eb_timestamp = timestamp\<rparr>
      in (s1\<lparr>ms_pending := AList.update i block (ms_pending s1)\<rparr>, Inr i))"

definition mem_payload_ready :: "mem_state \<Rightarrow> payload_id \<Rightarrow> bridge_error + executed_block" where
  "mem_payload_ready s i = (case map_of (ms_pending s) i of Some b \<Rightarrow> Inr b | None \<Rightarrow> Inl Rejected)"

definition mem_validate_payload :: "mem_state \<Rightarrow> executed_block \<Rightarrow> bridge_error + payload_status" where
  "mem_validate_payload s block = Inr Valid"

definition mem_commit :: "mem_state \<Rightarrow> block_hash \<Rightarrow> mem_state \<times> (bridge_error + unit)" where
  "mem_commit s h =
     (case find_value (\<lambda>b. eb_hash b = h) (ms_pending s) of
        None \<Rightarrow> (s, Inl Rejected)
      | Some b \<Rightarrow> (s\<lparr>ms_chain := AList.update h b (ms_chain s), ms_head := Some h\<rparr>, Inr ()))"

definition mem_number_of :: "mem_state \<Rightarrow> block_hash \<Rightarrow> int option" where
  "mem_number_of s p = Some (case map_of (ms_chain s) p of None \<Rightarrow> 0 | Some b \<Rightarrow> eb_number b)"

text \<open>Payload ids are in the hash, so two pending blocks never share one.\<close>

definition mem_inv :: "mem_state \<Rightarrow> bool" where
  "mem_inv s \<longleftrightarrow> hm_ok (ms_pending s) \<and> in_u64 (ms_next_payload_id s)
     \<and> (\<forall>(i, b) \<in> set (ms_pending s). in_u64 i \<and> in_u64 (eb_number b) \<and> eb_hash b = mem_hash i (eb_number b))"

lemma mem_hash_inj: "mem_hash i n = mem_hash j m \<Longrightarrow> in_u64 i \<Longrightarrow> in_u64 j \<Longrightarrow> i = j"
  using to_le_bytes_inj[of 8 i j] by (simp add: mem_hash_def in_u64_def)

lemma mem_build_inv:
  assumes "mem_inv s" "mem_build_payload s p a = (s', r)"
  shows "mem_inv s'"
proof -
  obtain b where s': "s' = s\<lparr>ms_next_payload_id := wrap_u64 (ms_next_payload_id s + 1),
      ms_pending := AList.update (ms_next_payload_id s) b (ms_pending s)\<rparr>"
    and b: "in_u64 (eb_number b)" "eb_hash b = mem_hash (ms_next_payload_id s) (eb_number b)"
    using assms(2) by (auto simp: mem_build_payload_def Let_def split: option.splits)
  show ?thesis
    using assms(1) b set_AList_update[of "ms_next_payload_id s" b "ms_pending s"]
    by (fastforce simp: s' mem_inv_def distinct_update)
qed

lemma mem_ready_commit:
  assumes "mem_inv s" "mem_payload_ready s i = Inr b"
  shows "\<exists>s'. mem_commit s (eb_hash b) = (s', Inr ()) \<and> ms_head s' = Some (eb_hash b)
    \<and> mem_number_of s' (eb_hash b) = Some (eb_number b)"
proof -
  have m: "map_of (ms_pending s) i = Some b" using assms(2) by (auto simp: mem_payload_ready_def split: option.splits)
  then have ib: "(i, b) \<in> set (ms_pending s)" by (rule map_of_SomeD)
  have "v' = b" if v: "v' \<in> snd ` set (ms_pending s)" and hv: "eb_hash v' = eb_hash b" for v'
  proof -
    obtain j where j: "(j, v') \<in> set (ms_pending s)" using v by auto
    have "in_u64 i \<and> eb_hash b = mem_hash i (eb_number b)" "in_u64 j \<and> eb_hash v' = mem_hash j (eb_number v')"
      using assms(1) ib j by (auto simp: mem_inv_def)
    then have "i = j" using hv mem_hash_inj[of i "eb_number b" j "eb_number v'"] by simp
    moreover have "hm_ok (ms_pending s)" using assms(1) by (simp add: mem_inv_def)
    ultimately show ?thesis using eq_key_imp_eq_value[of "ms_pending s" i v' b] j ib by simp
  qed
  then have "find_value (\<lambda>v. eb_hash v = eb_hash b) (ms_pending s) = Some b"
    by (intro find_value_unique[OF ib]) auto
  then show ?thesis by (simp add: mem_commit_def mem_number_of_def update_conv')
qed

interpretation mem: consensus_bridge mem_inv mem_build_payload mem_payload_ready mem_commit mem_number_of ms_head
proof
  fix s p a s' and r :: "bridge_error + payload_id"
  assume "mem_inv s" "mem_build_payload s p a = (s', r)"
  then show "mem_inv s'" by (rule mem_build_inv)
next
  fix s h s' and r' :: "bridge_error + unit"
  assume "mem_inv s" "mem_commit s h = (s', r')"
  then show "mem_inv s'" by (auto simp: mem_inv_def mem_commit_def split: option.splits)
next
  fix s p n a
  assume "mem_inv s" "mem_number_of s p = Some n"
  then show "\<exists>s' i b. mem_build_payload s p a = (s', Inr i) \<and> mem_payload_ready s' i = Inr b
      \<and> eb_parent_hash b = p \<and> eb_number b = wrap_u64 (n + 1)"
    by (auto simp: mem_build_payload_def mem_payload_ready_def mem_number_of_def Let_def update_conv' split: option.splits)
next
  fix s i b
  assume "mem_inv s" "mem_payload_ready s i = Inr b"
  then show "\<exists>s'. mem_commit s (eb_hash b) = (s', Inr ()) \<and> ms_head s' = Some (eb_hash b)
      \<and> mem_number_of s' (eb_hash b) = Some (eb_number b)" by (rule mem_ready_commit)
next
  fix s h s' and e :: bridge_error
  assume "mem_commit s h = (s', Inl e)"
  then show "s' = s" by (auto simp: mem_commit_def split: option.splits)
qed

section \<open>The Reth-typed bridge\<close>

text \<open>\<open>hash_slow\<close> and \<open>Header::default()\<close> are alloy's; they are the arguments \<open>hs\<close> and \<open>dflt\<close>.\<close>

record reth_state =
  rs_next_payload_id :: int
  rs_pending :: "(int, block_hash \<times> header) hash_map"
  rs_chain :: "(block_hash, header) hash_map"
  rs_head :: "block_hash option"

definition new_reth :: reth_state where
  "new_reth = \<lparr>rs_next_payload_id = 0, rs_pending = [], rs_chain = [], rs_head = None\<rparr>"

definition to_executed_block :: "block_hash \<Rightarrow> header \<Rightarrow> executed_block" where
  "to_executed_block h hdr = \<lparr>eb_hash = h, eb_parent_hash = hd_parent_hash hdr, eb_number = hd_number hdr,
     eb_state_root = hd_state_root hdr, eb_timestamp = hd_timestamp hdr\<rparr>"

definition reth_build_payload ::
  "(header \<Rightarrow> block_hash) \<Rightarrow> header \<Rightarrow> reth_state \<Rightarrow> block_hash \<Rightarrow> payload_attrs \<Rightarrow> reth_state \<times> (bridge_error + payload_id)" where
  "reth_build_payload hs dflt s parent attrs =
     (let parent_number = (case map_of (rs_chain s) parent of None \<Rightarrow> 0 | Some hdr \<Rightarrow> hd_number hdr);
          i = rs_next_payload_id s;
          s1 = s\<lparr>rs_next_payload_id := wrap_u64 (i + 1)\<rparr>;
          hdr = dflt\<lparr>hd_parent_hash := parent, hd_number := wrap_u64 (parent_number + 1),
                    hd_timestamp := pa_timestamp attrs, hd_beneficiary := pa_fee_recipient attrs,
                    hd_mix_hash := pa_prev_randao attrs\<rparr>
      in (s1\<lparr>rs_pending := AList.update i (hs hdr, hdr) (rs_pending s1)\<rparr>, Inr i))"

definition reth_payload_ready :: "reth_state \<Rightarrow> payload_id \<Rightarrow> bridge_error + executed_block" where
  "reth_payload_ready s i =
     (case map_of (rs_pending s) i of Some (h, hdr) \<Rightarrow> Inr (to_executed_block h hdr) | None \<Rightarrow> Inl Rejected)"

definition reth_validate_payload :: "reth_state \<Rightarrow> executed_block \<Rightarrow> bridge_error + payload_status" where
  "reth_validate_payload s block = Inr Valid"

definition reth_commit :: "reth_state \<Rightarrow> block_hash \<Rightarrow> reth_state \<times> (bridge_error + unit)" where
  "reth_commit s h =
     (case find_value (\<lambda>(h', _). h' = h) (rs_pending s) of
        None \<Rightarrow> (s, Inl Rejected)
      | Some (_, hdr) \<Rightarrow> (s\<lparr>rs_chain := AList.update h hdr (rs_chain s), rs_head := Some h\<rparr>, Inr ()))"

definition reth_number_of :: "reth_state \<Rightarrow> block_hash \<Rightarrow> int option" where
  "reth_number_of s p = Some (case map_of (rs_chain s) p of None \<Rightarrow> 0 | Some hdr \<Rightarrow> hd_number hdr)"

text \<open>Pending hashes are the hashes of their headers, and the hash function has no collisions.\<close>

definition reth_inv :: "(header \<Rightarrow> block_hash) \<Rightarrow> reth_state \<Rightarrow> bool" where
  "reth_inv hs s \<longleftrightarrow> inj hs \<and> (\<forall>(i, h, hdr) \<in> set (rs_pending s). h = hs hdr)"

lemma reth_build_inv:
  assumes "reth_inv hs s" "reth_build_payload hs dflt s p a = (s', r)"
  shows "reth_inv hs s'"
proof -
  obtain hdr where s': "s' = s\<lparr>rs_next_payload_id := wrap_u64 (rs_next_payload_id s + 1),
      rs_pending := AList.update (rs_next_payload_id s) (hs hdr, hdr) (rs_pending s)\<rparr>"
    using assms(2) by (auto simp: reth_build_payload_def Let_def)
  show ?thesis
    using assms(1) set_AList_update[of "rs_next_payload_id s" "(hs hdr, hdr)" "rs_pending s"]
    by (fastforce simp: s' reth_inv_def)
qed

lemma reth_ready_commit:
  assumes "reth_inv hs s" "reth_payload_ready s i = Inr b"
  shows "\<exists>s'. reth_commit s (eb_hash b) = (s', Inr ()) \<and> rs_head s' = Some (eb_hash b)
    \<and> reth_number_of s' (eb_hash b) = Some (eb_number b)"
proof -
  obtain h hdr where m: "map_of (rs_pending s) i = Some (h, hdr)" "b = to_executed_block h hdr"
    using assms(2) by (auto simp: reth_payload_ready_def split: option.splits)
  then have mem: "(i, h, hdr) \<in> set (rs_pending s)" by (auto dest: map_of_SomeD)
  have "find_value (\<lambda>(h', _). h' = h) (rs_pending s) = Some (h, hdr)"
  proof (rule find_value_unique[OF mem])
    fix v assume v: "v \<in> snd ` set (rs_pending s)" "case v of (h', _) \<Rightarrow> h' = h"
    then obtain j hdr' where j: "v = (h, hdr')" "(j, h, hdr') \<in> set (rs_pending s)" by auto
    have "h = hs hdr" "h = hs hdr'" using mem j(2) assms(1) by (auto simp: reth_inv_def)
    then have "hs hdr' = hs hdr" by simp
    then show "v = (h, hdr)" using j assms(1) by (simp add: reth_inv_def inj_eq)
  qed simp
  then show ?thesis using m(2) by (simp add: reth_commit_def reth_number_of_def to_executed_block_def update_conv')
qed

interpretation reth: consensus_bridge "reth_inv hs" "reth_build_payload hs dflt" reth_payload_ready reth_commit
  reth_number_of rs_head for hs :: "header \<Rightarrow> block_hash" and dflt
proof
  fix s p a s' and r :: "bridge_error + payload_id"
  assume "reth_inv hs s" "reth_build_payload hs dflt s p a = (s', r)"
  then show "reth_inv hs s'" by (rule reth_build_inv)
next
  fix s h s' and r' :: "bridge_error + unit"
  assume "reth_inv hs s" "reth_commit s h = (s', r')"
  then show "reth_inv hs s'" by (auto simp: reth_inv_def reth_commit_def split: option.splits)
next
  fix s p n a
  assume "reth_inv hs s" "reth_number_of s p = Some n"
  then show "\<exists>s' i b. reth_build_payload hs dflt s p a = (s', Inr i) \<and> reth_payload_ready s' i = Inr b
      \<and> eb_parent_hash b = p \<and> eb_number b = wrap_u64 (n + 1)"
    by (auto simp: reth_build_payload_def reth_payload_ready_def reth_number_of_def to_executed_block_def Let_def
        update_conv' split: option.splits)
next
  fix s i b
  assume "reth_inv hs s" "reth_payload_ready s i = Inr b"
  then show "\<exists>s'. reth_commit s (eb_hash b) = (s', Inr ()) \<and> rs_head s' = Some (eb_hash b)
      \<and> reth_number_of s' (eb_hash b) = Some (eb_number b)" by (rule reth_ready_commit)
next
  fix s h s' and e :: bridge_error
  assume "reth_commit s h = (s', Inl e)"
  then show "s' = s" by (auto simp: reth_commit_def split: option.splits)
qed

end
