(* ===== verification/Live_Bridge.thy ===== *)
theory Live_Bridge
  imports Ledger Bridge "HOL-Library.Countable"
begin

text \<open>
  The payload side of the live execution bridge (\<open>crates/evm/src/live_node.rs\<close>): building, validating,
  committing and shipping blocks, and snapshots. The state extends the account side of \<open>Ledger\<close>. What the code takes from
  alloy, Reth and serde is the argument \<open>env\<close>: the header hash, the provider, the base fee and header validator
  of the chain spec, the payload builder, the JSON codec. The calls on the
  engine handle are kept in order in a log, because their answers are ignored.
\<close>

section \<open>The surroundings\<close>

record proposed_block_wire =
  wire_header :: header
  wire_block :: executed_block
  wire_execution_data :: "bytes option"

record eth_payload_attributes =
  epa_timestamp :: int
  epa_prev_randao :: bytes
  epa_suggested_fee_recipient :: bytes
  epa_withdrawals :: "bytes list option"
  epa_parent_beacon_block_root :: "bytes option"
  epa_slot_number :: "int option"

record built_payload =
  bp_hash :: block_hash
  bp_header :: header
  bp_block :: bytes

record payload_builder =
  send_new_payload :: "eth_payload_attributes \<Rightarrow> block_hash \<Rightarrow> int option"
  resolve_kind :: "int \<Rightarrow> built_payload option"

record chain_env =
  hash_slow :: "header \<Rightarrow> block_hash"
  default_header :: header
  sealed_header_by_hash :: "block_hash \<Rightarrow> (unit + header option)"
  next_block_base_fee :: "header \<Rightarrow> int \<Rightarrow> int option"
  validate_header_against_parent :: "header \<times> block_hash \<Rightarrow> header \<times> block_hash \<Rightarrow> bool"
  payload_builder_handle :: "payload_builder option"
  from_block_unchecked :: "block_hash \<Rightarrow> bytes \<Rightarrow> bytes"
  engine_handle :: bool
  to_vec :: "proposed_block_wire \<Rightarrow> bytes option"
  from_slice :: "bytes \<Rightarrow> proposed_block_wire option"

section \<open>State\<close>

record pending_payload =
  pp_hash :: block_hash
  pp_header :: header
  pp_fills :: "fill list"
  pp_execution_data :: "bytes option"

datatype engine_call = NewPayload bytes | ForkchoiceUpdated block_hash block_hash block_hash

record live_bridge = trading +
  lb_next_payload_id :: int
  lb_pending :: "(int, pending_payload) hash_map"
  lb_chain :: "(block_hash, header) hash_map"
  lb_head :: "block_hash option"
  lb_engine_log :: "engine_call list"

definition new_live :: live_bridge where
  "new_live = trading.extend new_trading \<lparr>lb_next_payload_id = 0, lb_pending = [], lb_chain = [], lb_head = None,
     lb_engine_log = []\<rparr>"

section \<open>Operations\<close>

definition build_real_payload ::
  "chain_env \<Rightarrow> live_bridge \<Rightarrow> block_hash \<Rightarrow> payload_attrs \<Rightarrow> bridge_error + built_payload" where
  "build_real_payload env b parent attrs =
     (case payload_builder_handle env of
        None \<Rightarrow> Inl Rejected
      | Some builder \<Rightarrow>
          let parent_timestamp =
                (case map_of (lb_chain b) parent of
                   Some h \<Rightarrow> Inr (hd_timestamp h)
                 | None \<Rightarrow> (case sealed_header_by_hash env parent of
                     Inl _ \<Rightarrow> Inl Internal
                   | Inr None \<Rightarrow> Inl Rejected
                   | Inr (Some h) \<Rightarrow> Inr (hd_timestamp h)))
          in case parent_timestamp of
               Inl e \<Rightarrow> Inl e
             | Inr t \<Rightarrow>
                 let attributes = \<lparr>epa_timestamp = max (pa_timestamp attrs) (wrap_u64 (t + 1)),
                       epa_prev_randao = pa_prev_randao attrs, epa_suggested_fee_recipient = pa_fee_recipient attrs,
                       epa_withdrawals = Some [], epa_parent_beacon_block_root = None, epa_slot_number = None\<rparr>
                 in case send_new_payload builder attributes parent of
                      None \<Rightarrow> Inl Internal
                    | Some i \<Rightarrow> (case resolve_kind builder i of None \<Rightarrow> Inl Internal | Some built \<Rightarrow> Inr built))"

definition insert_pending :: "pending_payload \<Rightarrow> live_bridge \<Rightarrow> live_bridge \<times> payload_id" where
  "insert_pending p b =
     (let i = lb_next_payload_id b
      in (b\<lparr>lb_next_payload_id := wrap_u64 (i + 1), lb_pending := AList.update i p (lb_pending b)\<rparr>, i))"

definition parent_lookup :: "chain_env \<Rightarrow> live_bridge \<Rightarrow> block_hash \<Rightarrow> bridge_error + header" where
  "parent_lookup env b parent =
     (case map_of (lb_chain b) parent of
        Some h \<Rightarrow> Inr h
      | None \<Rightarrow> (case sealed_header_by_hash env parent of
          Inl _ \<Rightarrow> Inl Internal
        | Inr None \<Rightarrow> Inl Rejected
        | Inr (Some h) \<Rightarrow> Inr h))"

definition synthesized_header :: "chain_env \<Rightarrow> block_hash \<Rightarrow> header \<Rightarrow> payload_attrs \<Rightarrow> header" where
  "synthesized_header env parent parent_header attrs =
     (let our_timestamp = max (pa_timestamp attrs) (wrap_u64 (hd_timestamp parent_header + 1));
          next_base_fee = next_block_base_fee env parent_header our_timestamp
      in (default_header env)\<lparr>hd_parent_hash := parent, hd_number := wrap_u64 (hd_number parent_header + 1),
           hd_timestamp := our_timestamp, hd_beneficiary := pa_fee_recipient attrs, hd_mix_hash := pa_prev_randao attrs,
           hd_gas_limit := hd_gas_limit parent_header, hd_difficulty := 0, hd_base_fee_per_gas := next_base_fee\<rparr>)"

definition lv_build_payload ::
  "chain_env \<Rightarrow> live_bridge \<Rightarrow> block_hash \<Rightarrow> payload_attrs \<Rightarrow> live_bridge \<times> (bridge_error + payload_id)" where
  "lv_build_payload env b parent attrs =
     (if payload_builder_handle env \<noteq> None
      then case build_real_payload env b parent attrs of
             Inl e \<Rightarrow> (b, Inl e)
           | Inr built \<Rightarrow>
               let execution_data = from_block_unchecked env (bp_hash built) (bp_block built);
                   (b1, i) = insert_pending \<lparr>pp_hash = bp_hash built, pp_header = bp_header built,
                     pp_fills = lb_pending_fills b, pp_execution_data = Some execution_data\<rparr> b
               in (b1\<lparr>lb_pending_fills := []\<rparr>, Inr i)
      else case parent_lookup env b parent of
             Inl e \<Rightarrow> (b, Inl e)
           | Inr parent_header \<Rightarrow>
               let hdr = synthesized_header env parent parent_header attrs;
                   (b1, i) = insert_pending \<lparr>pp_hash = hash_slow env hdr, pp_header = hdr,
                     pp_fills = lb_pending_fills b, pp_execution_data = None\<rparr> b
               in (b1\<lparr>lb_pending_fills := []\<rparr>, Inr i))"

definition payload_fills :: "live_bridge \<Rightarrow> payload_id \<Rightarrow> fill list option" where
  "payload_fills b i = map_option pp_fills (map_of (lb_pending b) i)"

definition lv_payload_ready :: "live_bridge \<Rightarrow> payload_id \<Rightarrow> bridge_error + executed_block" where
  "lv_payload_ready b i =
     (case map_of (lb_pending b) i of
        None \<Rightarrow> Inl Rejected
      | Some p \<Rightarrow> Inr (to_executed_block (pp_hash p) (pp_header p)))"

definition lv_validate_payload :: "chain_env \<Rightarrow> live_bridge \<Rightarrow> executed_block \<Rightarrow> bridge_error + payload_status" where
  "lv_validate_payload env b block =
     (let hdr = (case find_value (\<lambda>p. pp_hash p = eb_hash block) (lb_pending b) of
                   Some p \<Rightarrow> Some (pp_header p)
                 | None \<Rightarrow> map_of (lb_chain b) (eb_hash block))
      in case hdr of
           None \<Rightarrow> Inr Invalid
         | Some h \<Rightarrow> (case sealed_header_by_hash env (eb_parent_hash block) of
             Inl _ \<Rightarrow> Inl Internal
           | Inr None \<Rightarrow> Inr Invalid
           | Inr (Some ph) \<Rightarrow>
               if validate_header_against_parent env (h, eb_hash block) (ph, eb_parent_hash block)
               then Inr Valid else Inr Invalid))"

definition lv_commit :: "chain_env \<Rightarrow> live_bridge \<Rightarrow> block_hash \<Rightarrow> live_bridge \<times> (bridge_error + unit)" where
  "lv_commit env b h =
     (case find_value (\<lambda>p. pp_hash p = h) (lb_pending b) of
        None \<Rightarrow> (b, Inl Rejected)
      | Some entry \<Rightarrow>
          let b1 = b\<lparr>lb_chain := AList.update h (pp_header entry) (lb_chain b), lb_head := Some h\<rparr>;
              new_payload = (case pp_execution_data entry of
                               Some data \<Rightarrow> if engine_handle env then [NewPayload data] else []
                             | None \<Rightarrow> []);
              fcu = (if engine_handle env then [ForkchoiceUpdated h h h] else [])
          in (b1\<lparr>lb_engine_log := lb_engine_log b1 @ new_payload @ fcu\<rparr>, Inr ()))"

definition lv_encode_proposed_block :: "chain_env \<Rightarrow> live_bridge \<Rightarrow> payload_id \<Rightarrow> bridge_error + bytes" where
  "lv_encode_proposed_block env b i =
     (case map_of (lb_pending b) i of
        None \<Rightarrow> Inl Rejected
      | Some p \<Rightarrow>
          let wire = \<lparr>wire_header = pp_header p, wire_block = to_executed_block (pp_hash p) (pp_header p),
                      wire_execution_data = pp_execution_data p\<rparr>
          in case to_vec env wire of None \<Rightarrow> Inl Internal | Some bs \<Rightarrow> Inr bs)"

definition lv_register_proposed_block ::
  "chain_env \<Rightarrow> live_bridge \<Rightarrow> bytes \<Rightarrow> live_bridge \<times> (bridge_error + executed_block)" where
  "lv_register_proposed_block env b bs =
     (case from_slice env bs of
        None \<Rightarrow> (b, Inl Rejected)
      | Some wire \<Rightarrow>
          let computed = hash_slow env (wire_header wire);
              claimed = eb_hash (wire_block wire)
          in if computed \<noteq> claimed then (b, Inl Rejected)
             else (fst (insert_pending \<lparr>pp_hash = computed, pp_header = wire_header wire, pp_fills = [],
                     pp_execution_data = wire_execution_data wire\<rparr> b), Inr (wire_block wire)))"

record bridge_snapshot =
  bsn_chain :: "(block_hash, header) hash_map"
  bsn_head :: "block_hash option"
  bsn_accounts :: "account list"

definition empty_snapshot :: bridge_snapshot where
  "empty_snapshot = \<lparr>bsn_chain = [], bsn_head = None, bsn_accounts = []\<rparr>"

definition lv_snapshot :: "live_bridge \<Rightarrow> bridge_snapshot" where
  "lv_snapshot b = \<lparr>bsn_chain = lb_chain b, bsn_head = lb_head b, bsn_accounts = accounts_snapshot b\<rparr>"

definition lv_load_snapshot :: "live_bridge \<Rightarrow> bridge_snapshot \<Rightarrow> live_bridge" where
  "lv_load_snapshot b snap =
     load_accounts (b\<lparr>lb_chain := bsn_chain snap, lb_head := bsn_head snap\<rparr>) (bsn_accounts snap)"

section \<open>Building on a known parent\<close>

lemma lv_build_synth:
  assumes "payload_builder_handle env = None" "parent_lookup env b p = Inr hp"
  shows "lv_build_payload env b p a =
    (b\<lparr>lb_next_payload_id := wrap_u64 (lb_next_payload_id b + 1), lb_pending_fills := [],
       lb_pending := AList.update (lb_next_payload_id b)
         \<lparr>pp_hash = hash_slow env (synthesized_header env p hp a), pp_header = synthesized_header env p hp a,
          pp_fills = lb_pending_fills b, pp_execution_data = None\<rparr> (lb_pending b)\<rparr>, Inr (lb_next_payload_id b))"
  using assms by (simp add: lv_build_payload_def insert_pending_def Let_def)

lemma synthesized_fields [simp]:
  "hd_parent_hash (synthesized_header env p hp a) = p"
  "hd_number (synthesized_header env p hp a) = wrap_u64 (hd_number hp + 1)"
  "hd_timestamp (synthesized_header env p hp a) = max (pa_timestamp a) (wrap_u64 (hd_timestamp hp + 1))"
  "hd_gas_limit (synthesized_header env p hp a) = hd_gas_limit hp"
  "hd_base_fee_per_gas (synthesized_header env p hp a) =
    next_block_base_fee env hp (hd_timestamp (synthesized_header env p hp a))"
  by (simp_all add: synthesized_header_def Let_def)

section \<open>The committed chain\<close>

text \<open>The payload builder of Reth returns sealed blocks: the hash it reports is the hash of the header.\<close>

definition builder_seals :: "chain_env \<Rightarrow> bool" where
  "builder_seals env \<longleftrightarrow> (\<forall>builder i built. payload_builder_handle env = Some builder \<longrightarrow>
     resolve_kind builder i = Some built \<longrightarrow> bp_hash built = hash_slow env (bp_header built))"

definition pending_hashed :: "chain_env \<Rightarrow> live_bridge \<Rightarrow> bool" where
  "pending_hashed env b \<longleftrightarrow> (\<forall>(i, p) \<in> set (lb_pending b). pp_hash p = hash_slow env (pp_header p))"

definition chain_hashed :: "chain_env \<Rightarrow> live_bridge \<Rightarrow> bool" where
  "chain_hashed env b \<longleftrightarrow> (\<forall>h hdr. map_of (lb_chain b) h = Some hdr \<longrightarrow> h = hash_slow env hdr)
     \<and> (\<forall>h. lb_head b = Some h \<longrightarrow> map_of (lb_chain b) h \<noteq> None)"

lemma pending_hashed_insert:
  assumes "pending_hashed env b" "pp_hash p = hash_slow env (pp_header p)"
  shows "pending_hashed env (fst (insert_pending p b))"
  using assms set_AList_update[of "lb_next_payload_id b" p "lb_pending b"]
  by (fastforce simp: pending_hashed_def insert_pending_def Let_def)

lemma insert_pending_frame [simp]:
  "lb_chain (fst (insert_pending p b)) = lb_chain b" "lb_head (fst (insert_pending p b)) = lb_head b"
  "lb_engine_log (fst (insert_pending p b)) = lb_engine_log b" "lb_accounts (fst (insert_pending p b)) = lb_accounts b"
  by (simp_all add: insert_pending_def Let_def)

lemma real_payload_resolved:
  assumes "build_real_payload env b p a = Inr built" "builder_seals env"
  shows "bp_hash built = hash_slow env (bp_header built)"
  using assms by (auto simp: build_real_payload_def builder_seals_def Let_def split: option.splits sum.splits)

lemma build_cases:
  assumes "lv_build_payload env b p a = (b', r)" "builder_seals env"
  obtains (fail) e where "b' = b" "r = Inl e"
  | (built) pp where "b' = (fst (insert_pending pp b))\<lparr>lb_pending_fills := []\<rparr>" "r = Inr (lb_next_payload_id b)"
      "pp_hash pp = hash_slow env (pp_header pp)" "pp_fills pp = lb_pending_fills b"
  using assms(1) real_payload_resolved[OF _ assms(2)]
  by (auto simp: lv_build_payload_def insert_pending_def Let_def split: if_splits sum.splits)

lemma build_pending_hashed:
  assumes "pending_hashed env b" "builder_seals env" "lv_build_payload env b p a = (b', r)"
  shows "pending_hashed env b'"
  using assms(3,2)
proof (cases rule: build_cases)
  case (built pp)
  then show ?thesis using pending_hashed_insert[OF assms(1), of pp] by (simp add: pending_hashed_def)
qed (use assms(1) in simp)

lemma build_chain:
  assumes "builder_seals env" "lv_build_payload env b p a = (b', r)"
  shows "lb_chain b' = lb_chain b" "lb_head b' = lb_head b" "lb_accounts b' = lb_accounts b"
  using assms(2,1) by (cases rule: build_cases; simp)+

lemma commit_effect:
  assumes "lv_commit env b h = (b', r)"
  obtains (unknown) "r = Inl Rejected" "b' = b" "\<forall>(i, p) \<in> set (lb_pending b). pp_hash p \<noteq> h"
  | (known) i p where "r = Inr ()" "(i, p) \<in> set (lb_pending b)" "pp_hash p = h" "lb_head b' = Some h"
      "map_of (lb_chain b') = (map_of (lb_chain b))(h \<mapsto> pp_header p)" "lb_pending b' = lb_pending b"
      "lb_accounts b' = lb_accounts b"
proof (cases "find_value (\<lambda>p. pp_hash p = h) (lb_pending b)")
  case None
  then show thesis
    using find_value_None[of "\<lambda>p. pp_hash p = h" "lb_pending b"] unknown assms by (fastforce simp: lv_commit_def)
next
  case (Some p)
  obtain i where "(i, p) \<in> set (lb_pending b)" "pp_hash p = h" using find_value_Some[OF Some] by auto
  then show thesis using known[of i p] Some assms by (auto simp: lv_commit_def Let_def update_conv')
qed

text \<open>Every history: blocks built and registered from arbitrary bytes, commits, orders, deposits, withdrawals, restarts.\<close>

inductive live_reach :: "chain_env \<Rightarrow> live_bridge \<Rightarrow> bool" for env where
  start: "live_reach env new_live"
| build: "live_reach env b \<Longrightarrow> live_reach env (fst (lv_build_payload env b p a))"
| register: "live_reach env b \<Longrightarrow> live_reach env (fst (lv_register_proposed_block env b bs))"
| commit: "live_reach env b \<Longrightarrow> live_reach env (fst (lv_commit env b h))"
| order: "live_reach env b \<Longrightarrow> submit_order b ord = Some (b', res) \<Longrightarrow> live_reach env b'"
| deposit: "live_reach env b \<Longrightarrow> live_reach env (fst (bridge_deposit b acc amount))"
| withdraw: "live_reach env b \<Longrightarrow> live_reach env (fst (bridge_withdraw b acc amount))"
| restart: "live_reach env b \<Longrightarrow> live_reach env c \<Longrightarrow> live_reach env (lv_load_snapshot c (lv_snapshot b))"

lemma pending_hashed_frame:
  "lb_pending b' = lb_pending b \<Longrightarrow> pending_hashed env b' = pending_hashed env b"
  by (simp add: pending_hashed_def)

lemma chain_hashed_frame:
  "lb_chain b' = lb_chain b \<Longrightarrow> lb_head b' = lb_head b \<Longrightarrow> chain_hashed env b' = chain_hashed env b"
  by (simp add: chain_hashed_def)

lemma ledger_ops_frame:
  fixes b :: live_bridge
  shows "submit_order b ord = Some (b', res) \<Longrightarrow>
      lb_pending b' = lb_pending b \<and> lb_chain b' = lb_chain b \<and> lb_head b' = lb_head b"
    and "lb_pending (fst (bridge_deposit b acc amount)) = lb_pending b \<and>
      lb_chain (fst (bridge_deposit b acc amount)) = lb_chain b \<and> lb_head (fst (bridge_deposit b acc amount)) = lb_head b"
    and "lb_pending (fst (bridge_withdraw b acc w)) = lb_pending b \<and>
      lb_chain (fst (bridge_withdraw b acc w)) = lb_chain b \<and> lb_head (fst (bridge_withdraw b acc w)) = lb_head b"
  by (auto simp: submit_order_def bridge_deposit_def bridge_withdraw_def Let_def split: option.splits if_splits)

lemma register_pending:
  assumes "lv_register_proposed_block env b bs = (b', r)"
  shows "lb_chain b' = lb_chain b" "lb_head b' = lb_head b" "pending_hashed env b \<Longrightarrow> pending_hashed env b'"
  using assms pending_hashed_insert
  by (auto simp: lv_register_proposed_block_def Let_def split: option.splits if_splits)

lemma commit_hashed:
  assumes "pending_hashed env b" "chain_hashed env b" "lv_commit env b h = (b', r)"
  shows "pending_hashed env b' \<and> chain_hashed env b'"
  using assms(3)
proof (cases rule: commit_effect)
  case (known i p)
  have "h = hash_slow env (pp_header p)" using assms(1) known by (auto simp: pending_hashed_def)
  then show ?thesis using known assms(1,2) by (auto simp: pending_hashed_def chain_hashed_def)
qed (use assms in simp)

lemma live_reach_hashed:
  assumes "live_reach env b" "builder_seals env"
  shows "pending_hashed env b \<and> chain_hashed env b"
  using assms(1)
proof induction
  case start
  then show ?case by (simp add: pending_hashed_def chain_hashed_def new_live_def trading.extend_def)
next
  case (build b p a)
  obtain b' r where e: "lv_build_payload env b p a = (b', r)" by fastforce
  show ?case
    using build.IH build_pending_hashed[OF _ assms(2) e] chain_hashed_frame[OF build_chain(1,2)[OF assms(2) e], of env] e
    by simp
next
  case (register b bs)
  obtain b' r where e: "lv_register_proposed_block env b bs = (b', r)" by fastforce
  show ?case using register.IH register_pending[OF e] chain_hashed_frame[of b' b env] e by simp
next
  case (commit b h)
  obtain b' r where e: "lv_commit env b h = (b', r)" by fastforce
  show ?case using commit_hashed[OF _ _ e] commit.IH e by simp
next
  case (order b ord b' res)
  then show ?case using ledger_ops_frame(1) pending_hashed_frame chain_hashed_frame by metis
next
  case (deposit b acc amount)
  then show ?case using ledger_ops_frame(2) pending_hashed_frame chain_hashed_frame by metis
next
  case (withdraw b acc amount)
  then show ?case using ledger_ops_frame(3) pending_hashed_frame chain_hashed_frame by metis
next
  case (restart b c)
  then show ?case by (simp add: lv_load_snapshot_def lv_snapshot_def load_accounts_def pending_hashed_def chain_hashed_def)
qed

section \<open>The live bridge keeps the contract\<close>

text \<open>What Reth's payload service and provider promise where a builder is installed: headers are looked up by their hash, and a job on the hash of a
  header resolves to a child of that header.\<close>

definition builder_works :: "chain_env \<Rightarrow> bool" where
  "builder_works env \<longleftrightarrow> (\<forall>builder. payload_builder_handle env = Some builder \<longrightarrow>
     (\<forall>h hdr. sealed_header_by_hash env h = Inr (Some hdr) \<longrightarrow> h = hash_slow env hdr)
     \<and> (\<forall>attributes hp. \<exists>i built. send_new_payload builder attributes (hash_slow env hp) = Some i \<and> resolve_kind builder i = Some built
          \<and> hd_parent_hash (bp_header built) = hash_slow env hp \<and> hd_number (bp_header built) = wrap_u64 (hd_number hp + 1)))"

definition chain_sealed :: "chain_env \<Rightarrow> live_bridge \<Rightarrow> bool" where
  "chain_sealed env b \<longleftrightarrow> (\<forall>h hdr. map_of (lb_chain b) h = Some hdr \<longrightarrow> h = hash_slow env hdr)"

definition live_inv :: "chain_env \<Rightarrow> live_bridge \<Rightarrow> bool" where
  "live_inv env b \<longleftrightarrow> inj (hash_slow env) \<and> builder_seals env \<and> builder_works env \<and> pending_hashed env b \<and> chain_sealed env b"

definition lv_number_of :: "chain_env \<Rightarrow> live_bridge \<Rightarrow> block_hash \<Rightarrow> int option" where
  "lv_number_of env b p = (case parent_lookup env b p of Inr h \<Rightarrow> Some (hd_number h) | Inl _ \<Rightarrow> None)"

lemma no_builder: "payload_builder_handle env = None \<Longrightarrow> builder_seals env" "payload_builder_handle env = None \<Longrightarrow> builder_works env"
  by (simp_all add: builder_seals_def builder_works_def)

lemma live_invD:
  assumes "live_inv env b"
  shows "inj (hash_slow env)" "builder_seals env" "builder_works env" "pending_hashed env b" "chain_sealed env b"
  using assms by (simp_all add: live_inv_def)

lemma live_inv_frame: "lb_pending b' = lb_pending b \<Longrightarrow> lb_chain b' = lb_chain b \<Longrightarrow> live_inv env b' = live_inv env b"
  by (simp add: live_inv_def pending_hashed_def chain_sealed_def)

lemma commit_sealed:
  assumes "pending_hashed env b" "chain_sealed env b" "lv_commit env b h = (b', r)"
  shows "pending_hashed env b' \<and> chain_sealed env b'"
  using assms(3)
proof (cases rule: commit_effect)
  case (known i p)
  have "h = hash_slow env (pp_header p)" using assms(1) known by (auto simp: pending_hashed_def)
  then show ?thesis using known assms(1,2) by (auto simp: pending_hashed_def chain_sealed_def)
qed (use assms in simp)

text \<open>Without hash collisions, a pending hash has one header, whichever entry the hash map yields first.\<close>

lemma commit_header:
  assumes "inj (hash_slow env)" "pending_hashed env b" "(i, p) \<in> set (lb_pending b)"
  shows "\<exists>b'. lv_commit env b (pp_hash p) = (b', Inr ()) \<and> lb_head b' = Some (pp_hash p)
    \<and> map_of (lb_chain b') = (map_of (lb_chain b))(pp_hash p \<mapsto> pp_header p)"
proof -
  obtain b' r where e: "lv_commit env b (pp_hash p) = (b', r)" by fastforce
  then show ?thesis
  proof (cases rule: commit_effect)
    case (known j q)
    have "pp_hash p = hash_slow env (pp_header p)" "pp_hash q = hash_slow env (pp_header q)"
      using assms(2,3) known(2) by (auto simp: pending_hashed_def)
    then have "pp_header q = pp_header p" using known(3) assms(1) by (simp add: inj_eq)
    then show ?thesis using known e by auto
  qed (use assms(3) in auto)
qed

lemma lv_ready_commit:
  assumes "live_inv env b" "lv_payload_ready b i = Inr blk"
  shows "\<exists>b'. lv_commit env b (eb_hash blk) = (b', Inr ()) \<and> lb_head b' = Some (eb_hash blk)
    \<and> lv_number_of env b' (eb_hash blk) = Some (eb_number blk)"
proof -
  obtain p where m: "map_of (lb_pending b) i = Some p" "blk = to_executed_block (pp_hash p) (pp_header p)"
    using assms(2) by (auto simp: lv_payload_ready_def split: option.splits)
  then have ip: "(i, p) \<in> set (lb_pending b)" by (auto dest: map_of_SomeD)
  note inv = live_invD(1,4)[OF assms(1)]
  show ?thesis
    using commit_header[OF inv ip] m(2) by (auto simp: lv_number_of_def parent_lookup_def to_executed_block_def)
qed

lemma parent_sealed:
  assumes "builder_works env" "chain_sealed env b" "payload_builder_handle env = Some builder" "parent_lookup env b p = Inr hp"
  shows "p = hash_slow env hp"
  using assms by (auto simp: parent_lookup_def builder_works_def chain_sealed_def split: option.splits sum.splits)

lemma real_payload_built:
  assumes "builder_works env" "chain_sealed env b" "payload_builder_handle env = Some builder" "parent_lookup env b p = Inr hp"
  obtains built where "build_real_payload env b p a = Inr built" "hd_parent_hash (bp_header built) = p"
    "hd_number (bp_header built) = wrap_u64 (hd_number hp + 1)"
proof -
  let ?attrs = "\<lparr>epa_timestamp = max (pa_timestamp a) (wrap_u64 (hd_timestamp hp + 1)), epa_prev_randao = pa_prev_randao a,
    epa_suggested_fee_recipient = pa_fee_recipient a, epa_withdrawals = Some [], epa_parent_beacon_block_root = None, epa_slot_number = None\<rparr>"
  have p: "p = hash_slow env hp" by (rule parent_sealed[OF assms])
  obtain i built where b: "send_new_payload builder ?attrs p = Some i" "resolve_kind builder i = Some built"
    "hd_parent_hash (bp_header built) = p" "hd_number (bp_header built) = wrap_u64 (hd_number hp + 1)"
    using assms(1,3) unfolding builder_works_def p by blast
  have "build_real_payload env b p a = Inr built"
    using assms(3,4) b(1,2) by (auto simp: build_real_payload_def parent_lookup_def Let_def split: option.splits sum.splits)
  then show thesis using that b(3,4) by blast
qed

lemma lv_build_ready:
  assumes "live_inv env b" "lv_number_of env b p = Some n"
  shows "\<exists>b' i blk. lv_build_payload env b p a = (b', Inr i) \<and> lv_payload_ready b' i = Inr blk
    \<and> eb_parent_hash blk = p \<and> eb_number blk = wrap_u64 (n + 1)"
proof -
  obtain hp where hp: "parent_lookup env b p = Inr hp" "n = hd_number hp"
    using assms(2) by (auto simp: lv_number_of_def split: sum.splits)
  show ?thesis
  proof (cases "payload_builder_handle env")
    case None
    from lv_build_synth[OF this hp(1)] show ?thesis
      using hp(2) by (simp add: lv_payload_ready_def to_executed_block_def update_conv')
  next
    case (Some builder)
    obtain built where built: "build_real_payload env b p a = Inr built" "hd_parent_hash (bp_header built) = p"
      "hd_number (bp_header built) = wrap_u64 (hd_number hp + 1)"
      by (rule real_payload_built[OF live_invD(3,5)[OF assms(1)] Some hp(1)])
    then show ?thesis
      using Some hp(2) by (simp add: lv_build_payload_def insert_pending_def lv_payload_ready_def to_executed_block_def update_conv' Let_def)
  qed
qed

interpretation live: consensus_bridge "live_inv env" "lv_build_payload env" lv_payload_ready "lv_commit env"
  "lv_number_of env" lb_head for env
proof
  fix b p a b' and r :: "bridge_error + payload_id"
  assume inv: "live_inv env b" and e: "lv_build_payload env b p a = (b', r)"
  have "pending_hashed env b'" using build_pending_hashed[OF live_invD(4,2)[OF inv] e] .
  then show "live_inv env b'" using inv build_chain(1)[OF live_invD(2)[OF inv] e] by (simp add: live_inv_def chain_sealed_def)
next
  fix b h b' and r' :: "bridge_error + unit"
  assume inv: "live_inv env b" and e: "lv_commit env b h = (b', r')"
  then show "live_inv env b'" using commit_sealed[OF live_invD(4,5)[OF inv] e] by (simp add: live_inv_def)
next
  fix b p n a
  assume "live_inv env b" "lv_number_of env b p = Some n"
  then show "\<exists>b' i blk. lv_build_payload env b p a = (b', Inr i) \<and> lv_payload_ready b' i = Inr blk
      \<and> eb_parent_hash blk = p \<and> eb_number blk = wrap_u64 (n + 1)" by (rule lv_build_ready)
next
  fix b i blk
  assume "live_inv env b" "lv_payload_ready b i = Inr blk"
  then show "\<exists>b'. lv_commit env b (eb_hash blk) = (b', Inr ()) \<and> lb_head b' = Some (eb_hash blk)
      \<and> lv_number_of env b' (eb_hash blk) = Some (eb_number blk)" by (rule lv_ready_commit)
next
  fix b h b' and e :: bridge_error
  assume "lv_commit env b h = (b', Inl e)"
  then show "b' = b" by (cases rule: commit_effect) simp_all
qed

text \<open>What a follower stores when it registers a shipped block: the proposer's header under the proposer's hash.\<close>

lemma encode_register:
  assumes "pending_hashed env b" "pending_hashed env c"
    and codec: "\<forall>w bs. to_vec env w = Some bs \<longrightarrow> from_slice env bs = Some w"
    and "lv_encode_proposed_block env b i = Inr bytes" "lv_payload_ready b i = Inr blk"
  obtains p c' j q where "(i, p) \<in> set (lb_pending b)" "blk = to_executed_block (pp_hash p) (pp_header p)"
    "lv_register_proposed_block env c bytes = (c', Inr blk)" "pending_hashed env c'"
    "(j, q) \<in> set (lb_pending c')" "pp_hash q = pp_hash p" "pp_header q = pp_header p"
proof -
  obtain p where p: "map_of (lb_pending b) i = Some p" "blk = to_executed_block (pp_hash p) (pp_header p)"
    using assms(5) by (auto simp: lv_payload_ready_def split: option.splits)
  have ip: "(i, p) \<in> set (lb_pending b)" using p(1) by (rule map_of_SomeD)
  have hp: "pp_hash p = hash_slow env (pp_header p)" using ip assms(1) by (auto simp: pending_hashed_def)
  have dec: "from_slice env bytes = Some \<lparr>wire_header = pp_header p, wire_block = blk, wire_execution_data = pp_execution_data p\<rparr>"
    using assms(4) p codec by (auto simp: lv_encode_proposed_block_def Let_def split: option.splits)
  let ?q = "\<lparr>pp_hash = pp_hash p, pp_header = pp_header p, pp_fills = [], pp_execution_data = pp_execution_data p\<rparr>"
  let ?c' = "fst (insert_pending ?q c)"
  have "lv_register_proposed_block env c bytes = (?c', Inr blk)"
    using dec p(2) hp by (simp add: lv_register_proposed_block_def to_executed_block_def Let_def)
  moreover have "pending_hashed env ?c'" using pending_hashed_insert[OF assms(2), of ?q] hp by simp
  moreover have "map_of (lb_pending ?c') (lb_next_payload_id c) = Some ?q"
    by (simp add: insert_pending_def update_conv' Let_def)
  then have "(lb_next_payload_id c, ?q) \<in> set (lb_pending ?c')" by (rule map_of_SomeD)
  ultimately show thesis using that[OF ip p(2)] by simp
qed

text \<open>What Reth's header validator checks, by its documentation: number, time, gas limit, base fee.\<close>

definition validator_rules :: "chain_env \<Rightarrow> bool" where
  "validator_rules env \<longleftrightarrow> (\<forall>h hh p ph. hd_parent_hash h = p \<longrightarrow> hd_number h = hd_number ph + 1 \<longrightarrow>
     hd_timestamp ph < hd_timestamp h \<longrightarrow> hd_gas_limit h = hd_gas_limit ph \<longrightarrow>
     hd_base_fee_per_gas h = next_block_base_fee env ph (hd_timestamp h) \<longrightarrow>
     validate_header_against_parent env (h, hh) (ph, p))"

lemma validator_rulesD:
  assumes "validator_rules env" "hd_parent_hash h = p" "hd_number h = hd_number ph + 1" "hd_timestamp ph < hd_timestamp h"
    "hd_gas_limit h = hd_gas_limit ph" "hd_base_fee_per_gas h = next_block_base_fee env ph (hd_timestamp h)"
  shows "validate_header_against_parent env (h, hh) (ph, p)"
  using assms unfolding validator_rules_def by metis

section \<open>A concrete environment\<close>

text \<open>An injective header encoding in place of the hash, a provider that knows the genesis block, a JSON stand-in.\<close>

definition length_prefixed :: "bytes \<Rightarrow> bytes" where
  "length_prefixed bs = int (length bs) # bs"

definition demo_hash :: "header \<Rightarrow> block_hash" where
  "demo_hash h = length_prefixed (hd_parent_hash h) @ [hd_number h, hd_timestamp h]
     @ length_prefixed (hd_beneficiary h) @ length_prefixed (hd_mix_hash h) @ [hd_gas_limit h, hd_difficulty h]
     @ length_prefixed (case hd_base_fee_per_gas h of None \<Rightarrow> [] | Some f \<Rightarrow> [f])
     @ length_prefixed (hd_state_root h) @ length_prefixed (hd_rest h)"

lemma length_prefixed_append: "length_prefixed xs @ ys = length_prefixed xs' @ ys' \<longleftrightarrow> xs = xs' \<and> ys = ys'"
  by (auto simp: length_prefixed_def)

lemma length_prefixed_inj: "length_prefixed xs = length_prefixed xs' \<longleftrightarrow> xs = xs'"
  by (auto simp: length_prefixed_def)

lemma demo_hash_inj: "inj demo_hash"
proof (rule injI)
  fix x y assume "demo_hash x = demo_hash y"
  then show "x = y"
    unfolding demo_hash_def length_prefixed_append append_Cons append_Nil list.inject
    by (cases x; cases y) (auto simp: length_prefixed_inj split: option.splits)
qed

definition demo_genesis :: header where
  "demo_genesis = \<lparr>hd_parent_hash = [], hd_number = 0, hd_timestamp = 0, hd_beneficiary = [], hd_mix_hash = [],
     hd_gas_limit = 21000, hd_difficulty = 0, hd_base_fee_per_gas = Some 7, hd_state_root = [], hd_rest = []\<rparr>"

definition demo_attrs :: payload_attrs where
  "demo_attrs = \<lparr>pa_timestamp = 0, pa_fee_recipient = replicate 20 0, pa_prev_randao = replicate 32 0\<rparr>"

definition demo_block_header :: header where
  "demo_block_header = demo_genesis\<lparr>hd_parent_hash := [0], hd_number := 1, hd_timestamp := 1,
     hd_beneficiary := replicate 20 0, hd_mix_hash := replicate 32 0\<rparr>"

definition demo_wire :: proposed_block_wire where
  "demo_wire = \<lparr>wire_header = demo_block_header, wire_block = to_executed_block (demo_hash demo_block_header) demo_block_header,
     wire_execution_data = None\<rparr>"

definition demo_env :: chain_env where
  "demo_env = \<lparr>hash_slow = demo_hash, default_header = demo_genesis,
     sealed_header_by_hash = (\<lambda>h. Inr (if h = [0] then Some demo_genesis else None)),
     next_block_base_fee = (\<lambda>h t. Some 7),
     validate_header_against_parent = (\<lambda>(h, _) (p, _). hd_number h = hd_number p + 1 \<and> hd_timestamp p < hd_timestamp h
        \<and> hd_gas_limit h = hd_gas_limit p \<and> hd_base_fee_per_gas h = Some 7),
     payload_builder_handle = None, from_block_unchecked = (\<lambda>h bs. bs), engine_handle = True,
     to_vec = (\<lambda>w. if w = demo_wire then Some [1] else None),
     from_slice = (\<lambda>bs. if bs = [1] then Some demo_wire else None)\<rparr>"

lemma demo_synthesized: "synthesized_header demo_env [0] demo_genesis demo_attrs = demo_block_header"
  by (simp add: synthesized_header_def demo_env_def demo_genesis_def demo_block_header_def demo_attrs_def
      wrap_u64_def)

lemma demo_env_facts [simp]:
  "payload_builder_handle demo_env = None" "hash_slow demo_env = demo_hash" "inj (hash_slow demo_env)"
  "parent_lookup demo_env new_live [0] = Inr demo_genesis" "live_inv demo_env new_live"
  by (simp_all add: demo_env_def demo_hash_inj parent_lookup_def new_live_def trading.extend_def live_inv_def pending_hashed_def
      chain_sealed_def no_builder)

text \<open>The same environment with a payload builder, as the devnet installs it. The job number codes the parent hash; the builder reads the number of the parent
  off that hash.\<close>

definition demo_child :: "block_hash \<Rightarrow> header" where
  "demo_child h = demo_genesis\<lparr>hd_parent_hash := h, hd_number := wrap_u64 (h ! (1 + nat (h ! 0)) + 1)\<rparr>"

definition demo_builder :: payload_builder where
  "demo_builder = \<lparr>send_new_payload = (\<lambda>attributes h. Some (int (list_encode (map int_encode h)))),
     resolve_kind = (\<lambda>i. let h = map int_decode (list_decode (nat i))
       in Some \<lparr>bp_hash = demo_hash (demo_child h), bp_header = demo_child h, bp_block = []\<rparr>)\<rparr>"

definition demo_builder_env :: chain_env where
  "demo_builder_env = demo_env\<lparr>payload_builder_handle := Some demo_builder,
     sealed_header_by_hash := (\<lambda>h. Inr (if h = demo_hash demo_genesis then Some demo_genesis else None))\<rparr>"

lemma demo_child_hash: "demo_child (demo_hash hp) = demo_genesis\<lparr>hd_parent_hash := demo_hash hp, hd_number := wrap_u64 (hd_number hp + 1)\<rparr>"
  by (simp add: demo_child_def demo_hash_def length_prefixed_def nth_append)

lemma demo_builder_facts:
  "live_inv demo_builder_env new_live" "parent_lookup demo_builder_env new_live (demo_hash demo_genesis) = Inr demo_genesis"
proof -
  have "builder_works demo_builder_env"
    by (auto simp: builder_works_def demo_builder_env_def demo_builder_def demo_env_def demo_child_hash comp_def Let_def split: if_splits)
  moreover have "builder_seals demo_builder_env"
    by (auto simp: builder_seals_def demo_builder_env_def demo_builder_def demo_env_def Let_def)
  ultimately show "live_inv demo_builder_env new_live"
    by (simp add: live_inv_def pending_hashed_def chain_sealed_def new_live_def trading.extend_def)
      (simp add: demo_builder_env_def demo_env_def demo_hash_inj)
  show "parent_lookup demo_builder_env new_live (demo_hash demo_genesis) = Inr demo_genesis"
    by (simp add: parent_lookup_def demo_builder_env_def new_live_def trading.extend_def)
qed

section \<open>Properties\<close>



text \<open>A built block. The block extends its parent: next number, a timestamp later than the parent's and
  not before the requested one; the fills queued so far are attached to this payload and to no later one; the header
  validator of the chain accepts it when it checks what its documentation lists (number, time, gas limit, base fee).\<close>

theorem built_block_valid:
  assumes "payload_builder_handle env = None" "parent_lookup env b p = Inr hp" "pending_hashed env b" "inj (hash_slow env)"
    and "0 \<le> hd_number hp" "hd_number hp < u64_max" "0 \<le> hd_timestamp hp" "hd_timestamp hp < u64_max"
    and "sealed_header_by_hash env p = Inr (Some hp)" "validator_rules env"
  shows "\<exists>b' i blk. lv_build_payload env b p a = (b', Inr i) \<and> lv_payload_ready b' i = Inr blk
    \<and> eb_parent_hash blk = p \<and> eb_number blk = hd_number hp + 1
    \<and> eb_timestamp blk = max (pa_timestamp a) (hd_timestamp hp + 1)
    \<and> payload_fills b' i = Some (lb_pending_fills b) \<and> lb_pending_fills b' = [] \<and> lb_accounts b' = lb_accounts b
    \<and> lv_validate_payload env b' blk = Inr Valid"
proof -
  let ?hdr = "synthesized_header env p hp a"
  let ?pp = "\<lparr>pp_hash = hash_slow env ?hdr, pp_header = ?hdr, pp_fills = lb_pending_fills b, pp_execution_data = None\<rparr>"
  obtain b' where b': "lv_build_payload env b p a = (b', Inr (lb_next_payload_id b))"
    "lb_pending b' = AList.update (lb_next_payload_id b) ?pp (lb_pending b)" "lb_pending_fills b' = []"
    "lb_accounts b' = lb_accounts b"
    using lv_build_synth[OF assms(1,2)] by simp
  have w: "wrap_u64 (hd_number hp + 1) = hd_number hp + 1" "wrap_u64 (hd_timestamp hp + 1) = hd_timestamp hp + 1"
    using assms(5-8) by (simp_all add: wrap_u64_def)
  have ph: "pending_hashed env b'" using build_pending_hashed[OF assms(3) no_builder(1)[OF assms(1)] b'(1)] .
  have get: "map_of (lb_pending b') (lb_next_payload_id b) = Some ?pp" by (simp add: b'(2) update_conv')
  obtain q where q: "find_value (\<lambda>q. pp_hash q = hash_slow env ?hdr) (lb_pending b') = Some q"
    using find_value_exists[OF map_of_SomeD[OF get], of "\<lambda>q. pp_hash q = hash_slow env ?hdr"] by auto
  have "pp_header q = ?hdr"
    using find_value_Some[OF q] ph assms(4) by (auto simp: pending_hashed_def inj_eq)
  moreover have "validate_header_against_parent env (?hdr, hash_slow env ?hdr) (hp, p)"
    by (rule validator_rulesD[OF assms(10)]) (simp_all add: w)
  ultimately have "lv_validate_payload env b' (to_executed_block (hash_slow env ?hdr) ?hdr) = Inr Valid"
    using q assms(9) by (simp add: lv_validate_payload_def to_executed_block_def)
  then show ?thesis
    using b' get w by (simp add: lv_payload_ready_def to_executed_block_def payload_fills_def)
qed

theorem built_block_valid_witness:
  "\<exists>b' i blk. lv_build_payload demo_env new_live [0] demo_attrs = (b', Inr i) \<and> lv_payload_ready b' i = Inr blk
     \<and> eb_number blk = 1 \<and> lv_validate_payload demo_env b' blk = Inr Valid"
proof -
  have "validator_rules demo_env" by (auto simp: validator_rules_def demo_env_def)
  moreover have "sealed_header_by_hash demo_env [0] = Inr (Some demo_genesis)" by (simp add: demo_env_def)
  moreover have "pending_hashed demo_env new_live" using demo_env_facts(5) by (simp add: live_inv_def)
  ultimately show ?thesis
    using built_block_valid[of demo_env new_live "[0]" demo_genesis demo_attrs]
    by (auto simp: demo_genesis_def demo_hash_inj)
qed

text \<open>Proposer and followers agree. A follower that registers the bytes of a proposed block obtains exactly the
  proposer's block; after both commit it, both have the same head and the same header for it, and whatever either builds on top next
  (from the same attributes) is the same block.\<close>

theorem proposer_follower_agree:
  assumes "inj (hash_slow env)" "pending_hashed env b" "pending_hashed env c" "payload_builder_handle env = None"
    and codec: "\<forall>w bs. to_vec env w = Some bs \<longrightarrow> from_slice env bs = Some w"
    and "lv_encode_proposed_block env b i = Inr bytes" "lv_payload_ready b i = Inr blk"
  shows "\<exists>b' c' c''. lv_register_proposed_block env c bytes = (c', Inr blk)
    \<and> lv_commit env b (eb_hash blk) = (b', Inr ()) \<and> lv_commit env c' (eb_hash blk) = (c'', Inr ())
    \<and> lb_head b' = lb_head c'' \<and> map_of (lb_chain b') (eb_hash blk) = map_of (lb_chain c'') (eb_hash blk)
    \<and> (\<forall>a. \<exists>b3 c3 ib ic nxt. lv_build_payload env b' (eb_hash blk) a = (b3, Inr ib) \<and> lv_payload_ready b3 ib = Inr nxt
         \<and> lv_build_payload env c'' (eb_hash blk) a = (c3, Inr ic) \<and> lv_payload_ready c3 ic = Inr nxt)"
proof -
  obtain p c' j q where p: "(i, p) \<in> set (lb_pending b)" "blk = to_executed_block (pp_hash p) (pp_header p)"
    and c': "lv_register_proposed_block env c bytes = (c', Inr blk)" "pending_hashed env c'"
    and q: "(j, q) \<in> set (lb_pending c')" "pp_hash q = pp_hash p" "pp_header q = pp_header p"
    using encode_register[OF assms(2,3) codec assms(6,7)] by metis
  obtain b' where b': "lv_commit env b (pp_hash p) = (b', Inr ())" "lb_head b' = Some (pp_hash p)"
    "map_of (lb_chain b') (pp_hash p) = Some (pp_header p)" using commit_header[OF assms(1,2) p(1)] by auto
  obtain c'' where c'': "lv_commit env c' (pp_hash p) = (c'', Inr ())" "lb_head c'' = Some (pp_hash p)"
    "map_of (lb_chain c'') (pp_hash p) = Some (pp_header p)" using commit_header[OF assms(1) c'(2) q(1)] q(2,3) by auto
  have par: "parent_lookup env b' (pp_hash p) = Inr (pp_header p)" "parent_lookup env c'' (pp_hash p) = Inr (pp_header p)"
    using b'(3) c''(3) by (simp_all add: parent_lookup_def)
  have h: "eb_hash blk = pp_hash p" using p(2) by (simp add: to_executed_block_def)
  show ?thesis
    unfolding h using c'(1) b' c'' lv_build_synth[OF assms(4) par(1)] lv_build_synth[OF assms(4) par(2)]
    by (simp add: lv_payload_ready_def update_conv')
qed

theorem proposer_follower_agree_witness:
  "\<exists>b i blk c'. lv_build_payload demo_env new_live [0] demo_attrs = (b, Inr i) \<and> lv_payload_ready b i = Inr blk
     \<and> lv_register_proposed_block demo_env new_live [1] = (c', Inr blk)"
proof -
  obtain b where b: "lv_build_payload demo_env new_live [0] demo_attrs = (b, Inr 0)"
    "lb_pending b = [(0, \<lparr>pp_hash = demo_hash demo_block_header, pp_header = demo_block_header, pp_fills = [], pp_execution_data = None\<rparr>)]"
    using lv_build_synth[OF demo_env_facts(1,4), of demo_attrs]
    by (simp add: demo_synthesized new_live_def trading.extend_def new_trading_def)
  have "lv_payload_ready b 0 = Inr (to_executed_block (demo_hash demo_block_header) demo_block_header)"
    by (simp add: lv_payload_ready_def b(2))
  moreover have "lv_encode_proposed_block demo_env b 0 = Inr [1]"
    by (simp add: lv_encode_proposed_block_def b(2) demo_env_def demo_wire_def)
  moreover have "pending_hashed demo_env b" "pending_hashed demo_env new_live"
    using b(2) demo_env_facts(5) by (simp_all add: pending_hashed_def live_inv_def)
  moreover have "\<forall>w bs. to_vec demo_env w = Some bs \<longrightarrow> from_slice demo_env bs = Some w" by (simp add: demo_env_def)
  ultimately show ?thesis
    using proposer_follower_agree[of demo_env b new_live 0 "[1]"] b(1) by (fastforce simp: demo_hash_inj)
qed

text \<open>C8: what a bridge commits is what it hashed. After any history, including proposals received as arbitrary bytes
  and restarts from snapshots, every header of the committed chain is stored under its own hash, and the head is a committed block.
  A commit of a hash nobody proposed is refused and changes nothing.\<close>

theorem committed_chain_authentic:
  assumes "live_reach env b" "builder_seals env"
  shows "(\<forall>h hdr. map_of (lb_chain b) h = Some hdr \<longrightarrow> h = hash_slow env hdr)
    \<and> (\<forall>h. lb_head b = Some h \<longrightarrow> (\<exists>hdr. map_of (lb_chain b) h = Some hdr))
    \<and> (\<forall>h. (\<forall>(i, p) \<in> set (lb_pending b). pp_hash p \<noteq> h) \<longrightarrow> lv_commit env b h = (b, Inl Rejected))"
proof -
  have "lv_commit env b h = (b, Inl Rejected)" if none: "\<forall>(i, p) \<in> set (lb_pending b). pp_hash p \<noteq> h" for h
  proof -
    obtain b' r where e: "lv_commit env b h = (b', r)" by fastforce
    then show ?thesis by (cases rule: commit_effect) (use none e in auto)
  qed
  then show ?thesis using live_reach_hashed[OF assms] by (auto simp: chain_hashed_def)
qed

theorem committed_chain_authentic_witness:
  "lv_commit demo_env (fst (lv_register_proposed_block demo_env new_live [1])) [9] =
     (fst (lv_register_proposed_block demo_env new_live [1]), Inl Rejected)"
proof -
  let ?b = "fst (lv_register_proposed_block demo_env new_live [1])"
  have "live_reach demo_env ?b" by (intro live_reach.intros)
  moreover have "builder_seals demo_env" by (simp add: no_builder(1))
  moreover have "\<forall>(i, p) \<in> set (lb_pending ?b). pp_hash p \<noteq> [9]"
    by (simp add: lv_register_proposed_block_def demo_env_def demo_wire_def to_executed_block_def insert_pending_def new_live_def
        trading.extend_def demo_hash_def length_prefixed_def Let_def)
  ultimately show ?thesis using committed_chain_authentic[of demo_env ?b] by blast
qed

end
