(* ===== verification/Consensus.thy ===== *)
theory Consensus
  imports Bridge "HOL-Library.List_Lexorder"
begin

text \<open>
  The consensus types of \<open>crates/consensus\<close>: heights, validator sets, proposals, votes and proposal
  parts (\<open>types/\<close>), proposer selection (\<open>context.rs\<close>), the bytes signatures commit to (\<open>signing.rs\<close>)
  and the signing provider (\<open>signing_provider.rs\<close>). Malachite's \<open>Round\<close> is the integer its
  \<open>as_i64\<close> returns: \<open>-1\<close> for \<open>Round::Nil\<close>, a \<open>u32\<close> otherwise. Ed25519 is the argument \<open>ed\<close>, JSON
  serialisation the argument \<open>json\<close>.
\<close>

section \<open>Types\<close>

type_synonym address = bytes
type_synonym height = int
type_synonym round = int
type_synonym pub_key = bytes
type_synonym sig_bytes = bytes

definition round_ok :: "round \<Rightarrow> bool" where
  "round_ok r \<longleftrightarrow> r = -1 \<or> in_u32 r"

abbreviation Round_Nil :: round where
  "Round_Nil \<equiv> -1"

definition height_ZERO :: height where "height_ZERO = 0"
definition height_INITIAL :: height where "height_INITIAL = 1"

definition increment_by :: "height \<Rightarrow> int \<Rightarrow> height" where
  "increment_by h n = sat_u64 (h + n)"

definition decrement_by :: "height \<Rightarrow> int \<Rightarrow> height option" where
  "decrement_by h n = (if h < n then None else Some (h - n))"

abbreviation increment :: "height \<Rightarrow> height" where
  "increment h \<equiv> increment_by h 1"

datatype 'v nil_or_val = NilVal | Val 'v
datatype vote_type = Prevote | Precommit

record validator =
  val_address :: address
  val_public_key :: pub_key
  val_voting_power :: int

type_synonym validator_set = "validator list"

record proposal =
  prop_height :: height
  prop_round :: round
  prop_value :: block_hash
  prop_pol_round :: round
  prop_address :: address

record proposal_part =
  part_height :: height
  part_round :: round
  part_pol_round :: round
  part_proposer :: address
  part_block_bytes :: bytes

record vote =
  vote_height :: height
  vote_round :: round
  vote_value_id :: "block_hash nil_or_val"
  vote_vote_type :: vote_type
  vote_address :: address

section \<open>Validator sets and proposer selection\<close>

definition validator_key :: "validator \<Rightarrow> int \<times> address" where
  "validator_key v = (- val_voting_power v, val_address v)"

definition validator_set_new :: "validator list \<Rightarrow> validator_set" where
  "validator_set_new vs = sort_key validator_key vs"

definition total_voting_power :: "validator_set \<Rightarrow> int" where
  "total_voting_power vs = fold (\<lambda>v acc. wrap_u64 (acc + val_voting_power v)) vs 0"

definition get_by_address :: "validator_set \<Rightarrow> address \<Rightarrow> validator option" where
  "get_by_address vs a = find (\<lambda>v. val_address v = a) vs"

definition get_by_index :: "validator_set \<Rightarrow> nat \<Rightarrow> validator option" where
  "get_by_index vs i = (if i < length vs then Some (vs ! i) else None)"

text \<open>An empty set fails the assertion: \<open>None\<close>.\<close>

definition select_proposer :: "validator_set \<Rightarrow> height \<Rightarrow> round \<Rightarrow> validator option" where
  "select_proposer vs h r =
     (let count = length vs
      in if count = 0 then None
         else let round_u64 = max r 0;
                  index = nat (wrap_u64 (h + round_u64)) mod count
              in get_by_index vs index)"

definition new_proposal :: "height \<Rightarrow> round \<Rightarrow> block_hash \<Rightarrow> round \<Rightarrow> address \<Rightarrow> proposal" where
  "new_proposal h r v pol a = \<lparr>prop_height = h, prop_round = r, prop_value = v, prop_pol_round = pol, prop_address = a\<rparr>"

definition new_prevote :: "height \<Rightarrow> round \<Rightarrow> block_hash nil_or_val \<Rightarrow> address \<Rightarrow> vote" where
  "new_prevote h r v a = \<lparr>vote_height = h, vote_round = r, vote_value_id = v, vote_vote_type = Prevote, vote_address = a\<rparr>"

definition new_precommit :: "height \<Rightarrow> round \<Rightarrow> block_hash nil_or_val \<Rightarrow> address \<Rightarrow> vote" where
  "new_precommit h r v a = \<lparr>vote_height = h, vote_round = r, vote_value_id = v, vote_vote_type = Precommit, vote_address = a\<rparr>"

section \<open>Signing\<close>

definition i64_le_bytes :: "int \<Rightarrow> bytes" where
  "i64_le_bytes x = to_le_bytes 8 (x mod 18446744073709551616)"

definition vote_signing_bytes :: "vote \<Rightarrow> bytes" where
  "vote_signing_bytes v =
     to_le_bytes 8 (vote_height v) @ i64_le_bytes (vote_round v)
     @ [case vote_vote_type v of Prevote \<Rightarrow> 0 | Precommit \<Rightarrow> 1]
     @ (case vote_value_id v of NilVal \<Rightarrow> [0] | Val h \<Rightarrow> 1 # h)
     @ vote_address v"

definition proposal_signing_bytes :: "proposal \<Rightarrow> bytes" where
  "proposal_signing_bytes p =
     to_le_bytes 8 (prop_height p) @ i64_le_bytes (prop_round p) @ prop_value p
     @ i64_le_bytes (prop_pol_round p) @ prop_address p"

text \<open>The Ed25519 package: public key of a private key, signing, verification.\<close>

record 'k ed25519 =
  ed_public_key :: "'k \<Rightarrow> pub_key"
  ed_sign :: "'k \<Rightarrow> bytes \<Rightarrow> sig_bytes"
  ed_verify :: "pub_key \<Rightarrow> bytes \<Rightarrow> sig_bytes \<Rightarrow> bool"

record 'm signed_message =
  sm_message :: 'm
  sm_signature :: sig_bytes

definition sign_vote :: "'k ed25519 \<Rightarrow> vote \<Rightarrow> 'k \<Rightarrow> vote signed_message" where
  "sign_vote ed v sk = \<lparr>sm_message = v, sm_signature = ed_sign ed sk (vote_signing_bytes v)\<rparr>"

definition sign_proposal :: "'k ed25519 \<Rightarrow> proposal \<Rightarrow> 'k \<Rightarrow> proposal signed_message" where
  "sign_proposal ed p sk = \<lparr>sm_message = p, sm_signature = ed_sign ed sk (proposal_signing_bytes p)\<rparr>"

definition verify_vote :: "'k ed25519 \<Rightarrow> vote \<Rightarrow> sig_bytes \<Rightarrow> pub_key \<Rightarrow> bool" where
  "verify_vote ed v sig pk = ed_verify ed pk (vote_signing_bytes v) sig"

definition verify_signed_proposal :: "'k ed25519 \<Rightarrow> proposal \<Rightarrow> sig_bytes \<Rightarrow> pub_key \<Rightarrow> bool" where
  "verify_signed_proposal ed p sig pk = ed_verify ed pk (proposal_signing_bytes p) sig"

text \<open>A proposal part that does not serialise makes signing panic and verification fail.\<close>

definition sign_proposal_part ::
  "'k ed25519 \<Rightarrow> (proposal_part \<Rightarrow> bytes option) \<Rightarrow> proposal_part \<Rightarrow> 'k \<Rightarrow> proposal_part signed_message option" where
  "sign_proposal_part ed json part sk =
     map_option (\<lambda>bs. \<lparr>sm_message = part, sm_signature = ed_sign ed sk bs\<rparr>) (json part)"

definition verify_signed_proposal_part ::
  "'k ed25519 \<Rightarrow> (proposal_part \<Rightarrow> bytes option) \<Rightarrow> proposal_part \<Rightarrow> sig_bytes \<Rightarrow> pub_key \<Rightarrow> bool" where
  "verify_signed_proposal_part ed json part sig pk =
     (case json part of None \<Rightarrow> False | Some bs \<Rightarrow> ed_verify ed pk bs sig)"

definition sign_vote_extension :: "'k ed25519 \<Rightarrow> unit \<Rightarrow> 'k \<Rightarrow> unit signed_message" where
  "sign_vote_extension ed ext sk = \<lparr>sm_message = ext, sm_signature = ed_sign ed sk []\<rparr>"

definition verify_signed_vote_extension :: "'k ed25519 \<Rightarrow> unit \<Rightarrow> sig_bytes \<Rightarrow> pub_key \<Rightarrow> bool" where
  "verify_signed_vote_extension ed ext sig pk = ed_verify ed pk [] sig"

section \<open>The validator set is canonical\<close>

lemma validator_set_mset: "mset (validator_set_new vs) = mset vs"
  by (simp add: validator_set_new_def)

lemma validator_set_canonical:
  assumes "mset vs = mset ws" "distinct (map val_address vs)"
  shows "validator_set_new vs = validator_set_new ws"
  unfolding validator_set_new_def
proof (rule sort_key_perm[OF assms(1)])
  show "inj_on validator_key (set vs)"
    using assms(2) by (auto simp: inj_on_def validator_key_def distinct_map)
qed

lemma total_voting_power_wraps: "total_voting_power vs = wrap_u64 (sum_list (map val_voting_power vs))"
proof -
  have "fold (\<lambda>v acc. wrap_u64 (acc + val_voting_power v)) vs (wrap_u64 a)
      = wrap_u64 (a + sum_list (map val_voting_power vs))" for a
  proof (induction vs arbitrary: a)
    case (Cons v vs)
    have "wrap_u64 (wrap_u64 a + val_voting_power v) = wrap_u64 (a + val_voting_power v)"
      by (simp add: wrap_u64_def mod_add_left_eq)
    then show ?case using Cons.IH[of "a + val_voting_power v"] by (simp add: add.assoc)
  qed simp
  from this[of 0] show ?thesis by (simp add: total_voting_power_def wrap_u64_def)
qed

section \<open>Round robin\<close>

lemma select_proposer_index:
  assumes "vs \<noteq> []" "0 \<le> h" "0 \<le> r" "h + r \<le> u64_max"
  shows "select_proposer vs h r = Some (vs ! (nat (h + r) mod length vs))"
  using assms by (simp add: select_proposer_def get_by_index_def wrap_u64_def Let_def)

text \<open>In a window of \<open>n\<close> consecutive indices every residue occurs exactly once.\<close>

lemma shifted_mod_eq:
  assumes "x \<le> y" "y < n" "(a + x) mod n = (a + y) mod (n::nat)"
  shows "x = y"
proof -
  have "n dvd (a + y) - (a + x)" using assms(1,3) mod_eq_dvd_iff_nat[of "a + x" "a + y" n] by simp
  then show ?thesis using assms(1,2) dvd_imp_le[of n "y - x"] by (cases "x = y") auto
qed

lemma window_residues:
  assumes "0 < n"
  shows "bij_betw (\<lambda>k. (a + k) mod n) {..<n} {..<n::nat}"
proof -
  have "inj_on (\<lambda>k. (a + k) mod n) {..<n}"
  proof (rule linorder_inj_onI)
    fix x y assume "x < y" "x \<in> {..<n}" "y \<in> {..<n}"
    then show "(a + x) mod n \<noteq> (a + y) mod n" using shifted_mod_eq[of x y n a] by auto
  qed auto
  moreover have "(\<lambda>k. (a + k) mod n) ` {..<n} \<subseteq> {..<n}" using assms by auto
  ultimately show ?thesis by (simp add: bij_betw_def card_image card_subset_eq)
qed

lemma window_unique:
  assumes "i < n"
  shows "\<exists>!k. k < n \<and> (a + k) mod n = (i :: nat)"
proof -
  have bij: "bij_betw (\<lambda>k. (a + k) mod n) {..<n} {..<n}" using assms by (intro window_residues) simp
  then have "i \<in> (\<lambda>k. (a + k) mod n) ` {..<n}" using assms by (simp add: bij_betw_def)
  then obtain k where k: "k < n" "(a + k) mod n = i" by auto
  moreover have "j = k" if "j < n" "(a + j) mod n = i" for j
    using inj_onD[OF bij_betw_imp_inj_on[OF bij], of j k] that k by simp
  ultimately show ?thesis by blast
qed

section \<open>Messages determine their fields\<close>

definition vote_ok :: "vote \<Rightarrow> bool" where
  "vote_ok v \<longleftrightarrow> in_u64 (vote_height v) \<and> round_ok (vote_round v) \<and> length (vote_address v) = 20
     \<and> (\<forall>h. vote_value_id v = Val h \<longrightarrow> length h = 32)"

definition proposal_ok :: "proposal \<Rightarrow> bool" where
  "proposal_ok p \<longleftrightarrow> in_u64 (prop_height p) \<and> round_ok (prop_round p) \<and> round_ok (prop_pol_round p)
     \<and> length (prop_value p) = 32 \<and> length (prop_address p) = 20"

lemma length_i64_le_bytes [simp]: "length (i64_le_bytes x) = 8"
  by (simp add: i64_le_bytes_def)

lemma i64_le_bytes_inj:
  assumes "i64_le_bytes x = i64_le_bytes y" "in_i64 x" "in_i64 y"
  shows "x = y"
proof -
  have "x mod 18446744073709551616 = y mod 18446744073709551616"
    using assms(1) to_le_bytes_inj[of 8 "x mod 18446744073709551616" "y mod 18446744073709551616"]
    by (simp add: i64_le_bytes_def)
  moreover have "wrap_i64 (z mod 18446744073709551616) = wrap_i64 z" for z
    unfolding wrap_i64_def by (simp only: mod_add_left_eq)
  ultimately have "wrap_i64 x = wrap_i64 y" by metis
  then show ?thesis using assms(2,3) by simp
qed

lemma round_ok_i64: "round_ok r \<Longrightarrow> in_i64 r"
  by (auto simp: round_ok_def in_u32_def in_i64_def)

lemma height_bytes_inj: "to_le_bytes 8 x = to_le_bytes 8 y \<Longrightarrow> in_u64 x \<Longrightarrow> in_u64 y \<Longrightarrow> x = y"
  using to_le_bytes_inj[of 8 x y] by (simp add: in_u64_def)

lemma vote_bytes_length:
  "vote_ok v \<Longrightarrow> length (vote_signing_bytes v) = (case vote_value_id v of NilVal \<Rightarrow> 38 | Val _ \<Rightarrow> 70)"
  by (auto simp: vote_ok_def vote_signing_bytes_def split: nil_or_val.splits)

lemma proposal_bytes_length: "proposal_ok p \<Longrightarrow> length (proposal_signing_bytes p) = 76"
  by (simp add: proposal_ok_def proposal_signing_bytes_def)

lemma vote_bytes_inj:
  assumes "vote_ok v" "vote_ok w" "vote_signing_bytes v = vote_signing_bytes w"
  shows "v = w"
proof -
  have t: "(case vote_vote_type v of Prevote \<Rightarrow> 0 | Precommit \<Rightarrow> (1 :: int))
      = (case vote_vote_type w of Prevote \<Rightarrow> 0 | Precommit \<Rightarrow> 1)"
    and h: "to_le_bytes 8 (vote_height v) = to_le_bytes 8 (vote_height w)"
    and r: "i64_le_bytes (vote_round v) = i64_le_bytes (vote_round w)"
    and rest: "(case vote_value_id v of NilVal \<Rightarrow> [0] | Val h \<Rightarrow> 1 # h) @ vote_address v
      = (case vote_value_id w of NilVal \<Rightarrow> [0] | Val h \<Rightarrow> 1 # h) @ vote_address w"
    using assms(3) by (simp_all add: vote_signing_bytes_def)
  have "vote_value_id v = vote_value_id w \<and> vote_address v = vote_address w"
    using rest assms(1,2) by (auto simp: vote_ok_def split: nil_or_val.splits)
  moreover have "vote_vote_type v = vote_vote_type w" using t by (auto split: vote_type.splits)
  moreover have "vote_height v = vote_height w" "vote_round v = vote_round w"
    using h r assms(1,2) height_bytes_inj i64_le_bytes_inj round_ok_i64 by (auto simp: vote_ok_def)
  ultimately show ?thesis by (cases v; cases w) simp
qed

lemma proposal_bytes_inj:
  assumes "proposal_ok p" "proposal_ok q" "proposal_signing_bytes p = proposal_signing_bytes q"
  shows "p = q"
proof -
  have "to_le_bytes 8 (prop_height p) = to_le_bytes 8 (prop_height q)" "i64_le_bytes (prop_round p) = i64_le_bytes (prop_round q)"
    "prop_value p = prop_value q" "i64_le_bytes (prop_pol_round p) = i64_le_bytes (prop_pol_round q)"
    "prop_address p = prop_address q"
    using assms by (simp_all add: proposal_signing_bytes_def proposal_ok_def)
  moreover have "prop_height p = prop_height q" "prop_round p = prop_round q" "prop_pol_round p = prop_pol_round q"
    using calculation assms(1,2) height_bytes_inj i64_le_bytes_inj round_ok_i64 by (auto simp: proposal_ok_def)
  ultimately show ?thesis by (cases p; cases q) simp
qed

section \<open>Properties\<close>

text \<open>C12: proposer selection is fair and canonical. All nodes sort the same validators to the same set, whatever
  order they were configured in; selection never panics on a non-empty set; and over any window of as many consecutive
  heights (or rounds of a height) as there are validators, every validator is the proposer exactly once.\<close>

theorem select_proposer_fair:
  assumes "mset vs = mset ws" "distinct (map val_address vs)" "vs \<noteq> []"
    and "0 \<le> h" "0 \<le> r" "h + r + int (length vs) \<le> u64_max" "v \<in> set vs"
  shows "validator_set_new vs = validator_set_new ws
    \<and> (\<exists>!k. k < length vs \<and> select_proposer (validator_set_new vs) (h + int k) r = Some v)
    \<and> (\<exists>!k. k < length vs \<and> select_proposer (validator_set_new vs) h (r + int k) = Some v)"
proof -
  let ?s = "validator_set_new vs" and ?n = "length vs"
  have s: "length ?s = ?n" "?s \<noteq> []" "distinct ?s" "set ?s = set vs"
    using assms(2,3) by (simp_all add: validator_set_new_def distinct_map flip: length_greater_0_conv)
  have sel: "select_proposer ?s (h + int k) r = Some (?s ! ((nat (h + r) + k) mod ?n))
      \<and> select_proposer ?s h (r + int k) = Some (?s ! ((nat (h + r) + k) mod ?n))" if "k < ?n" for k
    using select_proposer_index[OF s(2), of "h + int k" r] select_proposer_index[OF s(2), of h "r + int k"] s(1) that assms(4-6)
    by (simp add: nat_add_distrib algebra_simps)
  obtain i where i: "i < ?n" "?s ! i = v" using assms(7) s by (metis in_set_conv_nth)
  have "?s ! j = v \<longleftrightarrow> j = i" if "j < ?n" for j using that i s(1,3) nth_eq_iff_index_eq[of ?s j i] by auto
  moreover have "(nat (h + r) + k) mod ?n < ?n" for k using assms(3) by simp
  ultimately have eq: "select_proposer ?s (h + int k) r = Some v \<longleftrightarrow> (nat (h + r) + k) mod ?n = i"
    "select_proposer ?s h (r + int k) = Some v \<longleftrightarrow> (nat (h + r) + k) mod ?n = i" if "k < ?n" for k
    using sel[OF that] by simp_all
  have "(\<exists>!k. k < ?n \<and> select_proposer ?s (h + int k) r = Some v) \<and> (\<exists>!k. k < ?n \<and> select_proposer ?s h (r + int k) = Some v)"
    using window_unique[OF i(1), of "nat (h + r)"] eq by (simp cong: conj_cong)
  then show ?thesis using validator_set_canonical[OF assms(1,2)] by simp
qed

definition demo_validator :: "int \<Rightarrow> int \<Rightarrow> validator" where
  "demo_validator b w = \<lparr>val_address = replicate 20 b, val_public_key = [b], val_voting_power = w\<rparr>"

theorem select_proposer_fair_witness:
  "validator_set_new [demo_validator 1 100, demo_validator 2 300] = validator_set_new [demo_validator 2 300, demo_validator 1 100]
   \<and> (\<exists>!k. k < 2 \<and> select_proposer (validator_set_new [demo_validator 1 100, demo_validator 2 300]) (7 + int k) 0
        = Some (demo_validator 1 100))"
proof -
  let ?vs = "[demo_validator 1 100, demo_validator 2 300]" and ?ws = "[demo_validator 2 300, demo_validator 1 100]"
  have m: "mset ?vs = mset ?ws" by (simp add: add_mset_commute)
  have d: "distinct (map val_address ?vs)" by (simp add: demo_validator_def replicate_eq_replicate)
  have n: "length ?vs = 2" "?vs \<noteq> []" "demo_validator 1 100 \<in> set ?vs" by simp_all
  have b: "0 \<le> (7::int)" "0 \<le> (0::int)" "7 + 0 + int (length ?vs) \<le> u64_max" by simp_all
  from select_proposer_fair[OF m d n(2) b n(3)] show ?thesis unfolding n(1) by (elim conjE) (intro conjI)
qed

text \<open>C21: signatures bind every field and the kind of message. For a scheme in which a signature made by a key
  verifies under its public key for the signed bytes only, a signed vote verifies exactly for itself, a signed proposal exactly for
  itself, and neither ever verifies as the other or as the (empty) vote extension.\<close>

theorem signatures_bind_messages:
  assumes "\<forall>m m'. ed_verify ed (ed_public_key ed sk) m (ed_sign ed sk m') \<longleftrightarrow> m = m'"
    and "vote_ok v" "vote_ok w" "proposal_ok p" "proposal_ok q"
  shows "verify_vote ed w (sm_signature (sign_vote ed v sk)) (ed_public_key ed sk) = (w = v)
    \<and> verify_signed_proposal ed q (sm_signature (sign_proposal ed p sk)) (ed_public_key ed sk) = (q = p)
    \<and> \<not> verify_vote ed w (sm_signature (sign_proposal ed p sk)) (ed_public_key ed sk)
    \<and> \<not> verify_signed_proposal ed q (sm_signature (sign_vote ed v sk)) (ed_public_key ed sk)
    \<and> \<not> verify_vote ed w (sm_signature (sign_vote_extension ed () sk)) (ed_public_key ed sk)
    \<and> \<not> verify_signed_proposal ed q (sm_signature (sign_vote_extension ed () sk)) (ed_public_key ed sk)"
proof -
  have len: "length (vote_signing_bytes u) = 38 \<or> length (vote_signing_bytes u) = 70" if "vote_ok u" for u
    using vote_bytes_length[OF that] by (auto split: nil_or_val.splits)
  have "vote_signing_bytes w \<noteq> proposal_signing_bytes p" "proposal_signing_bytes q \<noteq> vote_signing_bytes v"
    "vote_signing_bytes w \<noteq> []" "proposal_signing_bytes q \<noteq> []"
    using len[OF assms(2)] len[OF assms(3)] proposal_bytes_length[OF assms(4)] proposal_bytes_length[OF assms(5)] by auto
  moreover have "vote_signing_bytes w = vote_signing_bytes v \<longleftrightarrow> w = v"
    "proposal_signing_bytes q = proposal_signing_bytes p \<longleftrightarrow> q = p"
    using vote_bytes_inj[OF assms(3,2)] proposal_bytes_inj[OF assms(5,4)] by auto
  ultimately show ?thesis
    using assms(1) by (simp add: verify_vote_def verify_signed_proposal_def sign_vote_def sign_proposal_def sign_vote_extension_def)
qed

text \<open>A scheme whose signature is the key and the message.\<close>

definition demo_ed :: "bytes ed25519" where
  "demo_ed = \<lparr>ed_public_key = (\<lambda>k. k), ed_sign = (\<lambda>k m. k @ m), ed_verify = (\<lambda>pk m sig. sig = pk @ m)\<rparr>"

theorem signatures_bind_messages_witness:
  "\<not> verify_vote demo_ed (new_precommit 7 0 NilVal (replicate 20 1)) (sm_signature (sign_vote demo_ed (new_prevote 7 0 NilVal (replicate 20 1)) [9])) [9]"
proof -
  have v: "vote_ok (new_precommit 7 0 NilVal (replicate 20 1))" "vote_ok (new_prevote 7 0 NilVal (replicate 20 1))"
    by (simp_all add: vote_ok_def new_precommit_def new_prevote_def in_u64_def round_ok_def in_u32_def)
  have p: "proposal_ok (new_proposal 7 0 (replicate 32 0) Round_Nil (replicate 20 1))"
    by (simp add: proposal_ok_def new_proposal_def in_u64_def round_ok_def in_u32_def)
  have "new_precommit 7 0 NilVal (replicate 20 1) \<noteq> new_prevote 7 0 NilVal (replicate 20 1)"
    by (simp add: new_precommit_def new_prevote_def)
  moreover have "\<forall>m m'. ed_verify demo_ed (ed_public_key demo_ed [9]) m (ed_sign demo_ed [9] m') \<longleftrightarrow> m = m'"
    by (auto simp: demo_ed_def)
  moreover have "ed_public_key demo_ed [9] = [9]" by (simp add: demo_ed_def)
  ultimately show ?thesis using signatures_bind_messages[OF _ v(2,1) p p] by metis
qed

end
