(* ===== verification/Codec.thy ===== *)
theory Codec
  imports Consensus
begin

text \<open>
  The JSON codec of the consensus messages (\<open>crates/consensus/src/codec.rs\<close>). Each message is converted to a
  serde-friendly shim and back; the shims and conversions are modelled, serde itself is an argument (a pair of a
  serialiser and a parser per shim type). The contract every conversion keeps is the locale \<open>shim\<close>: converting there and back gives the
  message; what the codec gains from it is proved once, in the locale, and used through one interpretation per message type.
  Malachite's message types are records and datatypes with the fields the conversions touch; a \<open>StreamId\<close> is its
  bytes; a \<open>PeerId\<close> is an argument type with its two byte conversions.
\<close>

section \<open>Serde and the generic codec\<close>

datatype codec_error = Json | Bad_PeerId

record 'r serde =
  sd_to_vec :: "'r \<Rightarrow> bytes option"
  sd_from_slice :: "bytes \<Rightarrow> 'r option"

definition serde_ok :: "'r serde \<Rightarrow> bool" where
  "serde_ok js \<longleftrightarrow> (\<forall>r bs. sd_to_vec js r = Some bs \<longrightarrow> sd_from_slice js bs = Some r)"

definition codec_encode :: "'r serde \<Rightarrow> ('m \<Rightarrow> 'r) \<Rightarrow> 'm \<Rightarrow> codec_error + bytes" where
  "codec_encode js to_raw msg = (case sd_to_vec js (to_raw msg) of None \<Rightarrow> Inl Json | Some bs \<Rightarrow> Inr bs)"

definition codec_decode :: "'r serde \<Rightarrow> ('r \<Rightarrow> codec_error + 'm) \<Rightarrow> bytes \<Rightarrow> codec_error + 'm" where
  "codec_decode js of_raw bs = (case sd_from_slice js bs of None \<Rightarrow> Inl Json | Some raw \<Rightarrow> of_raw raw)"

locale shim =
  fixes ok :: "'m \<Rightarrow> bool" and to_raw :: "'m \<Rightarrow> 'r" and of_raw :: "'r \<Rightarrow> codec_error + 'm"
  assumes of_to: "ok m \<Longrightarrow> of_raw (to_raw m) = Inr m"
begin

lemma decode_encode:
  assumes "serde_ok js" "ok m" "codec_encode js to_raw m = Inr bs"
  shows "codec_decode js of_raw bs = Inr m"
  using assms of_to by (auto simp: serde_ok_def codec_encode_def codec_decode_def split: option.splits)

lemma encode_inj:
  assumes "serde_ok js" "ok m" "ok m'" "codec_encode js to_raw m = Inr bs" "codec_encode js to_raw m' = Inr bs"
  shows "m = m'"
  using decode_encode[OF assms(1,2,4)] decode_encode[OF assms(1,3,5)] by simp

end

section \<open>Votes and proposals\<close>

datatype signed_consensus_msg = SCM_Vote "vote signed_message" | SCM_Proposal "proposal signed_message"

record raw_signed_vote =
  rsv_message :: vote
  rsv_signature :: sig_bytes

record raw_signed_proposal =
  rsp_message :: proposal
  rsp_signature :: sig_bytes

datatype raw_signed_consensus_msg = Raw_Vote raw_signed_vote | Raw_Proposal raw_signed_proposal

fun raw_of_signed :: "signed_consensus_msg \<Rightarrow> raw_signed_consensus_msg" where
  "raw_of_signed (SCM_Vote v) = Raw_Vote \<lparr>rsv_message = sm_message v, rsv_signature = sm_signature v\<rparr>"
| "raw_of_signed (SCM_Proposal p) = Raw_Proposal \<lparr>rsp_message = sm_message p, rsp_signature = sm_signature p\<rparr>"

fun signed_of_raw :: "raw_signed_consensus_msg \<Rightarrow> signed_consensus_msg" where
  "signed_of_raw (Raw_Vote v) = SCM_Vote \<lparr>sm_message = rsv_message v, sm_signature = rsv_signature v\<rparr>"
| "signed_of_raw (Raw_Proposal p) = SCM_Proposal \<lparr>sm_message = rsp_message p, sm_signature = rsp_signature p\<rparr>"

interpretation signed_shim: shim "\<lambda>_. True" raw_of_signed "\<lambda>r. Inr (signed_of_raw r)"
proof
  fix m show "Inr (signed_of_raw (raw_of_signed m)) = Inr m" by (cases m) simp_all
qed

section \<open>Liveness messages\<close>

record polka_signature =
  ps_address :: address
  ps_signature :: sig_bytes

record polka_certificate =
  pc_height :: height
  pc_round :: round
  pc_value_id :: block_hash
  pc_signatures :: "polka_signature list"

text \<open>Malachite's \<open>RoundCertificateType\<close> passes through unchanged.\<close>

type_synonym round_certificate_type = int

record round_signature =
  rs_vote_type :: vote_type
  rs_value_id :: "block_hash nil_or_val"
  rs_address :: address
  rs_signature :: sig_bytes

record round_certificate =
  rc_height :: height
  rc_round :: round
  rc_cert_type :: round_certificate_type
  rc_signatures :: "round_signature list"

datatype liveness_msg = LM_Vote "vote signed_message" | LM_Polka polka_certificate | LM_Skip round_certificate

record raw_polka_signature =
  rps_address :: address
  rps_signature :: sig_bytes

record raw_polka_certificate =
  rpc_height :: height
  rpc_round :: round
  rpc_value_id :: block_hash
  rpc_signatures :: "raw_polka_signature list"

record raw_round_signature =
  rrs_vote_type :: vote_type
  rrs_value_id :: "block_hash nil_or_val"
  rrs_address :: address
  rrs_signature :: sig_bytes

record raw_round_certificate =
  rrc_height :: height
  rrc_round :: round
  rrc_cert_type :: round_certificate_type
  rrc_signatures :: "raw_round_signature list"

datatype raw_liveness_msg = Raw_LVote raw_signed_vote | Raw_Polka raw_polka_certificate | Raw_Skip raw_round_certificate

fun raw_of_liveness :: "liveness_msg \<Rightarrow> raw_liveness_msg" where
  "raw_of_liveness (LM_Vote v) = Raw_LVote \<lparr>rsv_message = sm_message v, rsv_signature = sm_signature v\<rparr>"
| "raw_of_liveness (LM_Polka c) = Raw_Polka \<lparr>rpc_height = pc_height c, rpc_round = pc_round c, rpc_value_id = pc_value_id c,
     rpc_signatures = map (\<lambda>s. \<lparr>rps_address = ps_address s, rps_signature = ps_signature s\<rparr>) (pc_signatures c)\<rparr>"
| "raw_of_liveness (LM_Skip c) = Raw_Skip \<lparr>rrc_height = rc_height c, rrc_round = rc_round c, rrc_cert_type = rc_cert_type c,
     rrc_signatures = map (\<lambda>s. \<lparr>rrs_vote_type = rs_vote_type s, rrs_value_id = rs_value_id s, rrs_address = rs_address s,
       rrs_signature = rs_signature s\<rparr>) (rc_signatures c)\<rparr>"

fun liveness_of_raw :: "raw_liveness_msg \<Rightarrow> liveness_msg" where
  "liveness_of_raw (Raw_LVote v) = LM_Vote \<lparr>sm_message = rsv_message v, sm_signature = rsv_signature v\<rparr>"
| "liveness_of_raw (Raw_Polka c) = LM_Polka \<lparr>pc_height = rpc_height c, pc_round = rpc_round c, pc_value_id = rpc_value_id c,
     pc_signatures = map (\<lambda>s. \<lparr>ps_address = rps_address s, ps_signature = rps_signature s\<rparr>) (rpc_signatures c)\<rparr>"
| "liveness_of_raw (Raw_Skip c) = LM_Skip \<lparr>rc_height = rrc_height c, rc_round = rrc_round c, rc_cert_type = rrc_cert_type c,
     rc_signatures = map (\<lambda>s. \<lparr>rs_vote_type = rrs_vote_type s, rs_value_id = rrs_value_id s, rs_address = rrs_address s,
       rs_signature = rrs_signature s\<rparr>) (rrc_signatures c)\<rparr>"

text \<open>A record rebuilt from its fields is the record.\<close>

lemma certificate_eta [simp]:
  fixes s :: polka_signature and c :: polka_certificate and t :: round_signature and d :: round_certificate
  shows "\<lparr>ps_address = ps_address s, ps_signature = ps_signature s\<rparr> = s"
    "\<lparr>pc_height = pc_height c, pc_round = pc_round c, pc_value_id = pc_value_id c, pc_signatures = pc_signatures c\<rparr> = c"
    "\<lparr>rs_vote_type = rs_vote_type t, rs_value_id = rs_value_id t, rs_address = rs_address t, rs_signature = rs_signature t\<rparr> = t"
    "\<lparr>rc_height = rc_height d, rc_round = rc_round d, rc_cert_type = rc_cert_type d, rc_signatures = rc_signatures d\<rparr> = d"
  by simp_all

interpretation liveness_shim: shim "\<lambda>_. True" raw_of_liveness "\<lambda>r. Inr (liveness_of_raw r)"
proof
  fix m show "Inr (liveness_of_raw (raw_of_liveness m)) = Inr m" by (cases m) (simp_all add: comp_def)
qed

section \<open>Streamed proposal parts\<close>

datatype stream_content = Data proposal_part | Fin

record stream_message =
  stm_stream_id :: bytes
  stm_sequence :: int
  stm_content :: stream_content

datatype raw_stream_content = Raw_Data proposal_part | Raw_Fin

record raw_stream_message =
  rstm_stream_id :: bytes
  rstm_sequence :: int
  rstm_content :: raw_stream_content

definition raw_of_stream :: "stream_message \<Rightarrow> raw_stream_message" where
  "raw_of_stream msg = \<lparr>rstm_stream_id = stm_stream_id msg, rstm_sequence = stm_sequence msg,
     rstm_content = (case stm_content msg of Data p \<Rightarrow> Raw_Data p | Fin \<Rightarrow> Raw_Fin)\<rparr>"

definition stream_of_raw :: "raw_stream_message \<Rightarrow> stream_message" where
  "stream_of_raw raw = \<lparr>stm_stream_id = rstm_stream_id raw, stm_sequence = rstm_sequence raw,
     stm_content = (case rstm_content raw of Raw_Data p \<Rightarrow> Data p | Raw_Fin \<Rightarrow> Fin)\<rparr>"

interpretation stream_shim: shim "\<lambda>_. True" raw_of_stream "\<lambda>r. Inr (stream_of_raw r)"
proof
  fix m show "Inr (stream_of_raw (raw_of_stream m)) = Inr m"
    by (cases m) (simp add: stream_of_raw_def raw_of_stream_def split: stream_content.splits)
qed

text \<open>A bare part needs no shim.\<close>

interpretation part_shim: shim "\<lambda>_. True" "\<lambda>p :: proposal_part. p" Inr
  by unfold_locales simp

section \<open>Proposed values (write-ahead log)\<close>

datatype validity = VValid | VInvalid
datatype raw_validity = Raw_Valid | Raw_Invalid

fun raw_of_validity :: "validity \<Rightarrow> raw_validity" where
  "raw_of_validity VValid = Raw_Valid"
| "raw_of_validity VInvalid = Raw_Invalid"

fun validity_of_raw :: "raw_validity \<Rightarrow> validity" where
  "validity_of_raw Raw_Valid = VValid"
| "validity_of_raw Raw_Invalid = VInvalid"

record proposed_value =
  pv_height :: height
  pv_round :: round
  pv_valid_round :: round
  pv_proposer :: address
  pv_value :: block_hash
  pv_validity :: validity

record raw_proposed_value =
  rpv_height :: height
  rpv_round :: round
  rpv_valid_round :: round
  rpv_proposer :: address
  rpv_value :: block_hash
  rpv_validity :: raw_validity

definition raw_of_proposed :: "proposed_value \<Rightarrow> raw_proposed_value" where
  "raw_of_proposed v = \<lparr>rpv_height = pv_height v, rpv_round = pv_round v, rpv_valid_round = pv_valid_round v,
     rpv_proposer = pv_proposer v, rpv_value = pv_value v, rpv_validity = raw_of_validity (pv_validity v)\<rparr>"

definition proposed_of_raw :: "raw_proposed_value \<Rightarrow> proposed_value" where
  "proposed_of_raw r = \<lparr>pv_height = rpv_height r, pv_round = rpv_round r, pv_valid_round = rpv_valid_round r,
     pv_proposer = rpv_proposer r, pv_value = rpv_value r, pv_validity = validity_of_raw (rpv_validity r)\<rparr>"

lemma validity_round_trip [simp]: "validity_of_raw (raw_of_validity v) = v"
  by (cases v) simp_all

interpretation proposed_shim: shim "\<lambda>_. True" raw_of_proposed "\<lambda>r. Inr (proposed_of_raw r)"
proof
  fix m show "Inr (proposed_of_raw (raw_of_proposed m)) = Inr m"
    by (cases m) (simp add: proposed_of_raw_def raw_of_proposed_def)
qed

section \<open>Synchronisation messages\<close>

record 'p peer_codec =
  peer_to_bytes :: "'p \<Rightarrow> bytes"
  peer_from_bytes :: "bytes \<Rightarrow> 'p option"

record 'p status =
  st_peer_id :: 'p
  st_tip_height :: height
  st_history_min_height :: height

record raw_status =
  rst_peer_id :: bytes
  rst_tip_height :: height
  rst_history_min_height :: height

definition raw_of_status :: "'p peer_codec \<Rightarrow> 'p status \<Rightarrow> raw_status" where
  "raw_of_status pc s = \<lparr>rst_peer_id = peer_to_bytes pc (st_peer_id s), rst_tip_height = st_tip_height s,
     rst_history_min_height = st_history_min_height s\<rparr>"

definition status_of_raw :: "'p peer_codec \<Rightarrow> raw_status \<Rightarrow> codec_error + 'p status" where
  "status_of_raw pc r =
     (case peer_from_bytes pc (rst_peer_id r) of
        None \<Rightarrow> Inl Bad_PeerId
      | Some p \<Rightarrow> Inr \<lparr>st_peer_id = p, st_tip_height = rst_tip_height r,
                       st_history_min_height = rst_history_min_height r\<rparr>)"

definition peer_ok :: "'p peer_codec \<Rightarrow> 'p status \<Rightarrow> bool" where
  "peer_ok pc s \<longleftrightarrow> peer_from_bytes pc (peer_to_bytes pc (st_peer_id s)) = Some (st_peer_id s)"

interpretation status_shim: shim "peer_ok pc" "raw_of_status pc" "status_of_raw pc" for pc :: "'p peer_codec"
proof
  fix m assume "peer_ok pc m"
  then show "status_of_raw pc (raw_of_status pc m) = Inr m"
    by (cases m) (simp add: peer_ok_def status_of_raw_def raw_of_status_def)
qed

datatype sync_request = ValueRequest height

record raw_value_request =
  rvr_height :: height

datatype raw_request = Raw_ValueRequest raw_value_request

fun raw_of_request :: "sync_request \<Rightarrow> raw_request" where
  "raw_of_request (ValueRequest h) = Raw_ValueRequest \<lparr>rvr_height = h\<rparr>"

fun request_of_raw :: "raw_request \<Rightarrow> sync_request" where
  "request_of_raw (Raw_ValueRequest r) = ValueRequest (rvr_height r)"

interpretation request_shim: shim "\<lambda>_. True" raw_of_request "\<lambda>r. Inr (request_of_raw r)"
proof
  fix m show "Inr (request_of_raw (raw_of_request m)) = Inr m" by (cases m) simp
qed

record commit_signature =
  cs_address :: address
  cs_signature :: sig_bytes

record commit_certificate =
  cc_height :: height
  cc_round :: round
  cc_value_id :: block_hash
  cc_signatures :: "commit_signature list"

record raw_decided_value =
  dv_value_bytes :: bytes
  dv_certificate :: commit_certificate

record value_response =
  vr_height :: height
  vr_value :: "raw_decided_value option"

datatype sync_response = ValueResponse value_response

record raw_commit_signature =
  rcs_address :: address
  rcs_signature :: sig_bytes

record raw_commit_certificate =
  rcc_height :: height
  rcc_round :: round
  rcc_value_id :: block_hash
  rcc_signatures :: "raw_commit_signature list"

record raw_decided =
  rd_value_bytes :: bytes
  rd_certificate :: raw_commit_certificate

record raw_value_response =
  rvrs_height :: height
  rvrs_value :: "raw_decided option"

datatype raw_response = Raw_ValueResponse raw_value_response

fun raw_of_response :: "sync_response \<Rightarrow> raw_response" where
  "raw_of_response (ValueResponse vr) = Raw_ValueResponse \<lparr>rvrs_height = vr_height vr,
     rvrs_value = map_option (\<lambda>d. \<lparr>rd_value_bytes = dv_value_bytes d,
       rd_certificate = \<lparr>rcc_height = cc_height (dv_certificate d), rcc_round = cc_round (dv_certificate d),
         rcc_value_id = cc_value_id (dv_certificate d),
         rcc_signatures = map (\<lambda>s. \<lparr>rcs_address = cs_address s, rcs_signature = cs_signature s\<rparr>)
           (cc_signatures (dv_certificate d))\<rparr>\<rparr>) (vr_value vr)\<rparr>"

fun response_of_raw :: "raw_response \<Rightarrow> sync_response" where
  "response_of_raw (Raw_ValueResponse vr) = ValueResponse \<lparr>vr_height = rvrs_height vr,
     vr_value = map_option (\<lambda>d. \<lparr>dv_value_bytes = rd_value_bytes d,
       dv_certificate = \<lparr>cc_height = rcc_height (rd_certificate d), cc_round = rcc_round (rd_certificate d),
         cc_value_id = rcc_value_id (rd_certificate d),
         cc_signatures = map (\<lambda>s. \<lparr>cs_address = rcs_address s, cs_signature = rcs_signature s\<rparr>)
           (rcc_signatures (rd_certificate d))\<rparr>\<rparr>) (rvrs_value vr)\<rparr>"

lemma response_eta [simp]:
  fixes s :: commit_signature and c :: commit_certificate and d :: raw_decided_value and v :: value_response
  shows "\<lparr>cs_address = cs_address s, cs_signature = cs_signature s\<rparr> = s"
    "\<lparr>cc_height = cc_height c, cc_round = cc_round c, cc_value_id = cc_value_id c, cc_signatures = cc_signatures c\<rparr> = c"
    "\<lparr>dv_value_bytes = dv_value_bytes d, dv_certificate = dv_certificate d\<rparr> = d"
    "\<lparr>vr_height = vr_height v, vr_value = vr_value v\<rparr> = v"
  by simp_all

interpretation response_shim: shim "\<lambda>_. True" raw_of_response "\<lambda>r. Inr (response_of_raw r)"
proof
  fix m show "Inr (response_of_raw (raw_of_response m)) = Inr m"
    by (cases m) (simp add: comp_def option.map_comp option.map_ident)
qed

section \<open>Properties\<close>


text \<open>A serialiser that knows one value.\<close>

definition demo_serde :: "'r \<Rightarrow> 'r serde" where
  "demo_serde r = \<lparr>sd_to_vec = (\<lambda>r'. if r' = r then Some [1] else None), sd_from_slice = (\<lambda>bs. Some r)\<rparr>"

lemma demo_serde_ok: "serde_ok (demo_serde r)"
  by (simp add: serde_ok_def demo_serde_def)


end
