(* ===== verification/Engine_App.thy ===== *)
theory Engine_App
  imports Codec Live_Bridge
begin

text \<open>
  The application loop of consensus (\<open>crates/consensus/src/engine_app.rs\<close>): one handler arm per \<open>AppMsg\<close>, the
  assembly of streamed proposals, and the loop that ends after a number of decisions. The bridge is a record of operations (the trait object),
  the commit hook a function on the bridge, which it shares with the loop, and on a state of its own; replies and published network messages are logs. The interface the loop
  relies on is the locale \<open>replicated_bridge\<close>, an extension of \<open>consensus_bridge\<close>, interpreted on the live bridge.
\<close>

section \<open>Messages and state\<close>

record 's bridge_ops =
  bo_build_payload :: "'s \<Rightarrow> block_hash \<Rightarrow> payload_attrs \<Rightarrow> 's \<times> (bridge_error + payload_id)"
  bo_payload_ready :: "'s \<Rightarrow> payload_id \<Rightarrow> bridge_error + executed_block"
  bo_commit :: "'s \<Rightarrow> block_hash \<Rightarrow> 's \<times> (bridge_error + unit)"
  bo_encode_proposed_block :: "'s \<Rightarrow> payload_id \<Rightarrow> bridge_error + bytes"
  bo_register_proposed_block :: "'s \<Rightarrow> bytes \<Rightarrow> 's \<times> (bridge_error + executed_block)"

type_synonym peer_id = bytes

datatype app_msg =
    ConsensusReady
  | StartedRound height round
  | GetValue height round
  | ExtendVote
  | VerifyVoteExtension
  | RestreamProposal
  | GetHistoryMinHeight
  | ReceivedProposalPart peer_id stream_message
  | GetValidatorSet
  | Decided commit_certificate
  | GetDecidedValue
  | ProcessSyncedValue

datatype app_reply =
    ReadyReply height validator_set
  | StartedReply "proposed_value list"
  | ValueReply height round block_hash
  | ExtendReply
  | ExtensionOk
  | MinHeightReply height
  | ProposedReply "proposed_value option"
  | ValidatorSetReply validator_set
  | NextStart height validator_set
  | NoDecidedValue
  | NoSyncedValue

datatype app_error = BridgeFailed bridge_error | NoTimestamp | HookFailed | PublishFailed | EmptyValidatorSet | ChannelClosed

record in_progress_stream =
  ips_data :: "proposal_part option"
  ips_fin_seen :: bool

definition default_stream :: in_progress_stream where
  "default_stream = \<lparr>ips_data = None, ips_fin_seen = False\<rparr>"

record ('s, 'h) app_state =
  ap_bridge :: 's
  ap_hook :: 'h
  ap_decided :: "block_hash list"
  ap_current_parent :: block_hash
  ap_current_height :: height
  ap_history_min_height :: height
  ap_block_times :: "(block_hash, int) hash_map"
  ap_streams :: "(peer_id \<times> bytes, in_progress_stream) btree"
  ap_next_stream_id :: int
  ap_network :: "stream_message list"
  ap_replies :: "app_reply list"

record ('s, 'h) app_config =
  cfg_ops :: "'s bridge_ops"
  cfg_hook :: "'s \<Rightarrow> 'h \<Rightarrow> block_hash \<Rightarrow> height \<Rightarrow> int \<Rightarrow> 's \<times> 'h \<times> bool"
  cfg_validator_set :: validator_set
  cfg_stop_after :: nat
  cfg_network_open :: bool

datatype ('s, 'h) outcome = Go "('s, 'h) app_state" | Done "('s, 'h) app_state" | Stop app_error "('s, 'h) app_state"

definition initial_app :: "'s \<Rightarrow> 'h \<Rightarrow> block_hash \<Rightarrow> height \<Rightarrow> ('s, 'h) app_state" where
  "initial_app s h initial_parent initial_height =
     \<lparr>ap_bridge = s, ap_hook = h, ap_decided = [], ap_current_parent = initial_parent, ap_current_height = initial_height,
      ap_history_min_height = initial_height, ap_block_times = [], ap_streams = [], ap_next_stream_id = 0,
      ap_network = [], ap_replies = []\<rparr>"

definition reply :: "app_reply \<Rightarrow> ('s, 'h) app_state \<Rightarrow> ('s, 'h) app_state" where
  "reply r st = st\<lparr>ap_replies := ap_replies st @ [r]\<rparr>"

section \<open>Helpers of the loop\<close>

definition default_attrs :: payload_attrs where
  "default_attrs = \<lparr>pa_timestamp = 0, pa_fee_recipient = replicate 20 0, pa_prev_randao = replicate 32 0\<rparr>"

definition i64_be_bytes :: "int \<Rightarrow> bytes" where
  "i64_be_bytes x = to_be_bytes 8 (x mod 18446744073709551616)"

definition make_stream_id :: "height \<Rightarrow> round \<Rightarrow> int \<Rightarrow> bytes \<times> int" where
  "make_stream_id h r counter =
     (to_be_bytes 8 h @ i64_be_bytes r @ to_be_bytes 8 counter, wrap_u64 (counter + 1))"

definition select_proposer_address :: "validator_set \<Rightarrow> height \<Rightarrow> round \<Rightarrow> address option" where
  "select_proposer_address vs h r =
     (let count = length vs
      in if count = 0 then None
         else let round_u64 = max r 0;
                  index = nat (wrap_u64 (h + round_u64)) mod count
              in map_option val_address (get_by_index vs index))"

section \<open>The arms\<close>

definition on_get_value :: "('s, 'h) app_config \<Rightarrow> ('s, 'h) app_state \<Rightarrow> height \<Rightarrow> round \<Rightarrow> ('s, 'h) outcome" where
  "on_get_value cfg st h r =
     (case bo_build_payload (cfg_ops cfg) (ap_bridge st) (ap_current_parent st) default_attrs of
        (s1, Inl e) \<Rightarrow> Stop (BridgeFailed e) (st\<lparr>ap_bridge := s1\<rparr>)
      | (s1, Inr i) \<Rightarrow>
          let st1 = st\<lparr>ap_bridge := s1\<rparr>
          in case bo_payload_ready (cfg_ops cfg) s1 i of
               Inl e \<Rightarrow> Stop (BridgeFailed e) st1
             | Inr block \<Rightarrow>
                 let st2 = reply (ValueReply h r (eb_hash block))
                       (st1\<lparr>ap_block_times := AList.update (eb_hash block) (eb_timestamp block) (ap_block_times st1)\<rparr>)
                 in case bo_encode_proposed_block (cfg_ops cfg) s1 i of
                      Inl e \<Rightarrow> Stop (BridgeFailed e) st2
                    | Inr block_bytes \<Rightarrow> (case select_proposer_address (cfg_validator_set cfg) h r of
                        None \<Rightarrow> Stop EmptyValidatorSet st2
                      | Some proposer \<Rightarrow>
                          let part = \<lparr>part_height = h, part_round = r, part_pol_round = Round_Nil,
                                part_proposer = proposer, part_block_bytes = block_bytes\<rparr>;
                              (stream_id, next_id) = make_stream_id h r (ap_next_stream_id st2);
                              st3 = st2\<lparr>ap_next_stream_id := next_id\<rparr>
                          in if \<not> cfg_network_open cfg then Stop PublishFailed st3
                             else Go (st3\<lparr>ap_network := ap_network st3 @
                               [\<lparr>stm_stream_id = stream_id, stm_sequence = 0, stm_content = Data part\<rparr>,
                                \<lparr>stm_stream_id = stream_id, stm_sequence = 1, stm_content = Fin\<rparr>]\<rparr>)))"

definition stream_entry :: "('s, 'h) app_state \<Rightarrow> peer_id \<times> bytes \<Rightarrow> in_progress_stream" where
  "stream_entry st key = (case map_of (ap_streams st) key of Some e \<Rightarrow> e | None \<Rightarrow> default_stream)"

definition add_content :: "stream_content \<Rightarrow> in_progress_stream \<Rightarrow> in_progress_stream" where
  "add_content c e = (case c of Data p \<Rightarrow> e\<lparr>ips_data := Some p\<rparr> | Fin \<Rightarrow> e\<lparr>ips_fin_seen := True\<rparr>)"

definition on_received_part ::
  "('s, 'h) app_config \<Rightarrow> ('s, 'h) app_state \<Rightarrow> peer_id \<Rightarrow> stream_message \<Rightarrow> ('s, 'h) outcome" where
  "on_received_part cfg st from_peer msg =
     (let key = (from_peer, stm_stream_id msg);
          entry = add_content (stm_content msg) (stream_entry st key);
          st1 = st\<lparr>ap_streams := bt_insert key entry (ap_streams st)\<rparr>
      in case (ips_data entry, ips_fin_seen entry) of
           (Some part, True) \<Rightarrow>
             let st2 = st1\<lparr>ap_streams := bt_remove key (ap_streams st1)\<rparr>
             in (case bo_register_proposed_block (cfg_ops cfg) (ap_bridge st2) (part_block_bytes part) of
                   (s', Inl e) \<Rightarrow> Stop (BridgeFailed e) (st2\<lparr>ap_bridge := s'\<rparr>)
                 | (s', Inr block) \<Rightarrow>
                     Go (reply (ProposedReply (Some \<lparr>pv_height = part_height part, pv_round = part_round part,
                           pv_valid_round = part_pol_round part, pv_proposer = part_proposer part,
                           pv_value = eb_hash block, pv_validity = VValid\<rparr>))
                         (st2\<lparr>ap_bridge := s',
                              ap_block_times := AList.update (eb_hash block) (eb_timestamp block) (ap_block_times st2)\<rparr>)))
         | _ \<Rightarrow> Go (reply (ProposedReply None) st1))"

definition on_decided :: "('s, 'h) app_config \<Rightarrow> ('s, 'h) app_state \<Rightarrow> commit_certificate \<Rightarrow> ('s, 'h) outcome" where
  "on_decided cfg st cert =
     (let h = cc_value_id cert
      in case map_of (ap_block_times st) h of
           None \<Rightarrow> Stop NoTimestamp st
         | Some block_time \<Rightarrow>
             let st1 = st\<lparr>ap_block_times := AList.delete h (ap_block_times st)\<rparr>
             in case bo_commit (cfg_ops cfg) (ap_bridge st1) h of
                  (s', Inl e) \<Rightarrow> Stop (BridgeFailed e) (st1\<lparr>ap_bridge := s'\<rparr>)
                | (s', Inr _) \<Rightarrow>
                    let (s'', hook', ok) = cfg_hook cfg s' (ap_hook st1) h (cc_height cert) block_time;
                        st3 = st1\<lparr>ap_bridge := s'', ap_hook := hook'\<rparr>
                    in if \<not> ok then Stop HookFailed st3
                       else let st4 = st3\<lparr>ap_decided := ap_decided st3 @ [h], ap_current_parent := h\<rparr>;
                                next_height = increment (cc_height cert)
                            in if length (ap_decided st4) \<ge> cfg_stop_after cfg
                               then Done (reply (NextStart next_height (cfg_validator_set cfg)) st4)
                               else Go (reply (NextStart next_height (cfg_validator_set cfg))
                                      (st4\<lparr>ap_current_height := next_height\<rparr>)))"

fun handle :: "('s, 'h) app_config \<Rightarrow> ('s, 'h) app_state \<Rightarrow> app_msg \<Rightarrow> ('s, 'h) outcome" where
  "handle cfg st ConsensusReady = Go (reply (ReadyReply (ap_current_height st) (cfg_validator_set cfg)) st)"
| "handle cfg st (StartedRound h r) = Go (reply (StartedReply []) (st\<lparr>ap_current_height := h\<rparr>))"
| "handle cfg st (GetValue h r) = on_get_value cfg st h r"
| "handle cfg st ExtendVote = Go (reply ExtendReply st)"
| "handle cfg st VerifyVoteExtension = Go (reply ExtensionOk st)"
| "handle cfg st RestreamProposal = Go st"
| "handle cfg st GetHistoryMinHeight = Go (reply (MinHeightReply (ap_history_min_height st)) st)"
| "handle cfg st (ReceivedProposalPart p m) = on_received_part cfg st p m"
| "handle cfg st GetValidatorSet = Go (reply (ValidatorSetReply (cfg_validator_set cfg)) st)"
| "handle cfg st (Decided cert) = on_decided cfg st cert"
| "handle cfg st GetDecidedValue = Go (reply NoDecidedValue st)"
| "handle cfg st ProcessSyncedValue = Go (reply NoSyncedValue st)"

text \<open>The loop over the messages of the channel, until it closes.\<close>

fun run_engine_app ::
  "('s, 'h) app_config \<Rightarrow> ('s, 'h) app_state \<Rightarrow> app_msg list \<Rightarrow> (app_error + block_hash list) \<times> ('s, 'h) app_state" where
  "run_engine_app cfg st [] = (Inl ChannelClosed, st)"
| "run_engine_app cfg st (msg # msgs) =
     (case handle cfg st msg of
        Go st' \<Rightarrow> run_engine_app cfg st' msgs
      | Done st' \<Rightarrow> (Inr (ap_decided st'), st')
      | Stop e st' \<Rightarrow> (Inl e, st'))"

section \<open>Selection and stream ids\<close>

lemma select_proposer_address_eq: "select_proposer_address vs h r = map_option val_address (select_proposer vs h r)"
  by (simp add: select_proposer_address_def select_proposer_def Let_def)

lemma make_stream_id_inj:
  assumes "fst (make_stream_id h r c) = fst (make_stream_id h' r' c')" "in_u64 c" "in_u64 c'"
  shows "c = c'"
  using assms to_be_bytes_inj[of 8 c c'] by (simp add: make_stream_id_def i64_be_bytes_def in_u64_def)

section \<open>The interface the loop relies on\<close>

fun state_of :: "('s, 'h) outcome \<Rightarrow> ('s, 'h) app_state" where
  "state_of (Go st) = st"
| "state_of (Done st) = st"
| "state_of (Stop e st) = st"

text \<open>\<open>known s h\<close>: the bridge holds a block with hash \<open>h\<close>, built or registered. \<open>room s n\<close>: the payload
  counter has room for \<open>n\<close> more payloads before it wraps and ids are reused.\<close>

locale replicated_bridge =
  consensus_bridge bridge_inv build_payload payload_ready commit number_of head_of
  for bridge_inv :: "'s \<Rightarrow> bool"
    and build_payload :: "'s \<Rightarrow> block_hash \<Rightarrow> payload_attrs \<Rightarrow> 's \<times> (bridge_error + payload_id)"
    and payload_ready :: "'s \<Rightarrow> payload_id \<Rightarrow> bridge_error + executed_block"
    and commit :: "'s \<Rightarrow> block_hash \<Rightarrow> 's \<times> (bridge_error + unit)"
    and number_of :: "'s \<Rightarrow> block_hash \<Rightarrow> int option"
    and head_of :: "'s \<Rightarrow> block_hash option" +
  fixes encode_proposed_block :: "'s \<Rightarrow> payload_id \<Rightarrow> bridge_error + bytes"
    and register_proposed_block :: "'s \<Rightarrow> bytes \<Rightarrow> 's \<times> (bridge_error + executed_block)"
    and known :: "'s \<Rightarrow> block_hash \<Rightarrow> bool"
    and room :: "'s \<Rightarrow> nat \<Rightarrow> bool"
    and view :: "'s \<Rightarrow> 'v"
  assumes room_mono: "room s (Suc n) \<Longrightarrow> room s n"
    and build_head: "bridge_inv s \<Longrightarrow> build_payload s p a = (s', r) \<Longrightarrow> head_of s' = head_of s"
    and build_room: "bridge_inv s \<Longrightarrow> build_payload s p a = (s', r) \<Longrightarrow> room s (Suc n) \<Longrightarrow> room s' n"
    and build_known: "bridge_inv s \<Longrightarrow> build_payload s p a = (s', r) \<Longrightarrow> room s (Suc n) \<Longrightarrow> known s h \<Longrightarrow> known s' h"
    and ready_known: "payload_ready s i = Inr b \<Longrightarrow> known s (eb_hash b)"
    and register_inv: "bridge_inv s \<Longrightarrow> register_proposed_block s bs = (s', r'') \<Longrightarrow> bridge_inv s'"
    and register_head: "register_proposed_block s bs = (s', r'') \<Longrightarrow> head_of s' = head_of s"
    and register_room: "register_proposed_block s bs = (s', r'') \<Longrightarrow> room s (Suc n) \<Longrightarrow> room s' n"
    and register_known: "register_proposed_block s bs = (s', r'') \<Longrightarrow> room s (Suc n) \<Longrightarrow> known s h \<Longrightarrow> known s' h"
    and register_new: "register_proposed_block s bs = (s', Inr b) \<Longrightarrow> known s' (eb_hash b)"
    and commit_room: "commit s h = (s', r') \<Longrightarrow> room s (Suc n) \<Longrightarrow> room s' n"
    and commit_known: "commit s h' = (s', r') \<Longrightarrow> known s h \<Longrightarrow> known s' h"
    and build_view: "bridge_inv s \<Longrightarrow> build_payload s p a = (s', r) \<Longrightarrow> view s' = view s"
    and register_view: "register_proposed_block s bs = (s', r'') \<Longrightarrow> view s' = view s"
    and commit_view: "commit s h = (s', r') \<Longrightarrow> view s' = view s"
    and known_commit: "bridge_inv s \<Longrightarrow> known s h \<Longrightarrow> \<exists>s'. commit s h = (s', Inr ()) \<and> head_of s' = Some h"
begin

text \<open>\<open>J\<close> is an invariant of what the hook sees and of its state, \<open>g\<close> what a call does to the two.\<close>

definition hook_good ::
  "('v \<Rightarrow> 'h \<Rightarrow> bool) \<Rightarrow> (block_hash \<times> height \<times> int \<Rightarrow> 'v \<times> 'h \<Rightarrow> 'v \<times> 'h) \<Rightarrow> ('s, 'h) app_config \<Rightarrow> bool" where
  "hook_good J g cfg \<longleftrightarrow> (\<forall>s k h ht t s' k' ok. J (view s) k \<longrightarrow> cfg_hook cfg s k h ht t = (s', k', ok) \<longrightarrow>
     ok \<and> J (view s') k' \<and> (view s', k') = g (h, ht, t) (view s, k) \<and> (bridge_inv s \<longrightarrow> bridge_inv s') \<and> head_of s' = head_of s
     \<and> (\<forall>n. room s n \<longrightarrow> room s' n) \<and> (\<forall>h'. known s h' \<longrightarrow> known s' h'))"

definition uses ::
  "('v \<Rightarrow> 'h \<Rightarrow> bool) \<Rightarrow> (block_hash \<times> height \<times> int \<Rightarrow> 'v \<times> 'h \<Rightarrow> 'v \<times> 'h) \<Rightarrow> ('s, 'h) app_config \<Rightarrow> bool" where
  "uses J g cfg \<longleftrightarrow> cfg_ops cfg = \<lparr>bo_build_payload = build_payload, bo_payload_ready = payload_ready, bo_commit = commit,
     bo_encode_proposed_block = encode_proposed_block, bo_register_proposed_block = register_proposed_block\<rparr> \<and> hook_good J g cfg"

definition hook_in_step ::
  "(block_hash \<times> height \<times> int \<Rightarrow> 'v \<times> 'h \<Rightarrow> 'v \<times> 'h) \<Rightarrow> 'v \<times> 'h \<Rightarrow> ('s, 'h) app_state \<Rightarrow> bool" where
  "hook_in_step g vk st \<longleftrightarrow> (\<exists>calls. map fst calls = ap_decided st \<and> (view (ap_bridge st), ap_hook st) = fold g calls vk)"

definition app_ok ::
  "('v \<Rightarrow> 'h \<Rightarrow> bool) \<Rightarrow> (block_hash \<times> height \<times> int \<Rightarrow> 'v \<times> 'h \<Rightarrow> 'v \<times> 'h) \<Rightarrow> 'v \<times> 'h \<Rightarrow> block_hash \<Rightarrow> ('s, 'h) app_state \<Rightarrow> bool" where
  "app_ok J g vk p0 st \<longleftrightarrow> bridge_inv (ap_bridge st) \<and> (\<forall>h t. map_of (ap_block_times st) h = Some t \<longrightarrow> known (ap_bridge st) h)
     \<and> ap_current_parent st = last (p0 # ap_decided st)
     \<and> (ap_decided st \<noteq> [] \<longrightarrow> head_of (ap_bridge st) = Some (last (ap_decided st)))
     \<and> J (view (ap_bridge st)) (ap_hook st) \<and> hook_in_step g vk st"

lemma get_value_ok:
  assumes "uses J g cfg" "app_ok J g vk p0 st" "room (ap_bridge st) (Suc n)"
  shows "app_ok J g vk p0 (state_of (on_get_value cfg st h r)) \<and> room (ap_bridge (state_of (on_get_value cfg st h r))) n"
proof -
  obtain s1 res where b: "build_payload (ap_bridge st) (ap_current_parent st) default_attrs = (s1, res)" by fastforce
  have inv: "bridge_inv (ap_bridge st)" using assms(2) by (simp add: app_ok_def)
  note facts = build_inv[OF inv b] build_head[OF inv b] build_room[OF inv b assms(3)] build_known[OF inv b assms(3)] ready_known
    build_view[OF inv b]
  show ?thesis
    using assms(1,2) b facts
    by (auto simp: on_get_value_def uses_def app_ok_def hook_in_step_def reply_def Let_def update_conv' split: sum.splits option.splits
        prod.splits if_splits)
qed

lemma received_part_ok:
  assumes "uses J g cfg" "app_ok J g vk p0 st" "room (ap_bridge st) (Suc n)"
  shows "app_ok J g vk p0 (state_of (on_received_part cfg st p m)) \<and> room (ap_bridge (state_of (on_received_part cfg st p m))) n"
proof -
  have inv: "bridge_inv (ap_bridge st)" using assms(2) by (simp add: app_ok_def)
  have step: "bridge_inv s' \<and> head_of s' = head_of (ap_bridge st) \<and> room s' n \<and> view s' = view (ap_bridge st)
      \<and> (\<forall>h. known (ap_bridge st) h \<longrightarrow> known s' h) \<and> (\<forall>b. r = Inr b \<longrightarrow> known s' (eb_hash b))"
    if "register_proposed_block (ap_bridge st) bs = (s', r)" for bs s' r
    using register_inv[OF inv that] register_head[OF that] register_room[OF that assms(3)] register_known[OF that assms(3)]
      register_new register_view[OF that] that by auto
  show ?thesis
    using assms(1,2) room_mono[OF assms(3)]
    by (auto simp: on_received_part_def uses_def app_ok_def hook_in_step_def reply_def Let_def update_conv' dest!: step
        split: sum.splits option.splits prod.splits bool.splits if_splits)
qed

text \<open>A decision on a block this node built or registered always goes through, and its hook call is the only one.\<close>

lemma decision_succeeds:
  assumes "uses J g cfg" "app_ok J g vk p0 st" "map_of (ap_block_times st) (cc_value_id cert) = Some t"
  obtains st' where "on_decided cfg st cert = (if length (ap_decided st) + 1 \<ge> cfg_stop_after cfg then Done st' else Go st')"
    "ap_decided st' = ap_decided st @ [cc_value_id cert]" "head_of (ap_bridge st') = Some (cc_value_id cert)"
    "app_ok J g vk p0 st'" "\<And>n. room (ap_bridge st) (Suc n) \<Longrightarrow> room (ap_bridge st') n"
proof -
  let ?h = "cc_value_id cert" and ?ht = "cc_height cert"
  have inv: "bridge_inv (ap_bridge st)" "known (ap_bridge st) ?h" "J (view (ap_bridge st)) (ap_hook st)"
    using assms(2,3) by (auto simp: app_ok_def)
  obtain s' where c: "commit (ap_bridge st) ?h = (s', Inr ())" "head_of s' = Some ?h" using known_commit[OF inv(1,2)] by blast
  note facts = commit_inv[OF inv(1) c(1)] commit_room[OF c(1)] commit_known[OF c(1)] commit_view[OF c(1)]
  obtain s2 k2 ok where hk: "cfg_hook cfg s' (ap_hook st) ?h ?ht t = (s2, k2, ok)" by (cases "cfg_hook cfg s' (ap_hook st) ?h ?ht t") auto
  then have g: "ok \<and> J (view s2) k2 \<and> (view s2, k2) = g (?h, ?ht, t) (view (ap_bridge st), ap_hook st) \<and> bridge_inv s2
      \<and> head_of s2 = Some ?h \<and> (\<forall>n. room s' n \<longrightarrow> room s2 n) \<and> (\<forall>h'. known s' h' \<longrightarrow> known s2 h')"
    using assms(1) inv(3) facts(1,4) c(2) unfolding uses_def hook_good_def by metis
  obtain calls where calls: "map fst calls = ap_decided st" "(view (ap_bridge st), ap_hook st) = fold g calls vk"
    using assms(2) by (auto simp: app_ok_def hook_in_step_def)
  obtain st' where d: "on_decided cfg st cert = (if length (ap_decided st) + 1 \<ge> cfg_stop_after cfg then Done st' else Go st')"
    "ap_decided st' = ap_decided st @ [?h]" "ap_bridge st' = s2" "ap_hook st' = k2" "ap_current_parent st' = ?h"
    "ap_block_times st' = AList.delete ?h (ap_block_times st)"
    using assms(1,3) c g hk
    by (cases "length (ap_decided st) + 1 \<ge> cfg_stop_after cfg") (simp_all add: on_decided_def uses_def reply_def Let_def)
  have "map fst (calls @ [(?h, ?ht, t)]) = ap_decided st'" "(view (ap_bridge st'), ap_hook st') = fold g (calls @ [(?h, ?ht, t)]) vk"
    using calls g d by simp_all
  then have "hook_in_step g vk st'" unfolding hook_in_step_def by blast
  then have "app_ok J g vk p0 st'"
    using assms(2) g d facts(3) by (auto simp: app_ok_def delete_conv' split: if_splits)
  moreover have "room (ap_bridge st') n" if "room (ap_bridge st) (Suc n)" for n using facts(2)[OF that] g d(3) by simp
  ultimately show thesis using that d(1,2,3) g by blast
qed

lemma decided_ok:
  assumes "uses J g cfg" "app_ok J g vk p0 st" "room (ap_bridge st) (Suc n)"
  shows "app_ok J g vk p0 (state_of (on_decided cfg st cert)) \<and> room (ap_bridge (state_of (on_decided cfg st cert))) n
    \<and> (\<forall>st'. on_decided cfg st cert = Go st' \<longrightarrow> length (ap_decided st') < cfg_stop_after cfg)
    \<and> (\<forall>st'. on_decided cfg st cert = Done st' \<longrightarrow> length (ap_decided st') = length (ap_decided st) + 1
         \<and> cfg_stop_after cfg \<le> length (ap_decided st'))"
proof (cases "map_of (ap_block_times st) (cc_value_id cert)")
  case None
  then show ?thesis using assms(2) room_mono[OF assms(3)] by (simp add: on_decided_def)
next
  case (Some t)
  show ?thesis by (rule decision_succeeds[OF assms(1,2) Some]) (use assms(3) in auto)
qed

lemma quiet_arms:
  "ap_decided (state_of (on_get_value cfg st h r)) = ap_decided st" "on_get_value cfg st h r \<noteq> Done st'"
  "ap_decided (state_of (on_received_part cfg st p msg)) = ap_decided st" "on_received_part cfg st p msg \<noteq> Done st'"
  by (auto simp: on_get_value_def on_received_part_def reply_def Let_def split: prod.splits sum.splits option.splits bool.splits)

text \<open>One message: the invariant is kept and the number of decisions stays below the target until the loop ends at it.\<close>

lemma handle_ok:
  assumes "uses J g cfg" "app_ok J g vk p0 st" "room (ap_bridge st) (Suc n)" "length (ap_decided st) < max 1 (cfg_stop_after cfg)"
  shows "app_ok J g vk p0 (state_of (handle cfg st m)) \<and> room (ap_bridge (state_of (handle cfg st m))) n
    \<and> (\<forall>st'. handle cfg st m = Go st' \<longrightarrow> length (ap_decided st') < max 1 (cfg_stop_after cfg))
    \<and> (\<forall>st'. handle cfg st m = Done st' \<longrightarrow> length (ap_decided st') = max 1 (cfg_stop_after cfg))"
proof (cases m)
  case (GetValue h r)
  then show ?thesis using get_value_ok[OF assms(1-3)] quiet_arms(1,2)[of cfg st h r] assms(4) by (metis handle.simps(3) state_of.simps(1))
next
  case (ReceivedProposalPart p msg)
  then show ?thesis
    using received_part_ok[OF assms(1-3)] quiet_arms(3,4)[of cfg st p msg] assms(4) by (metis handle.simps(8) state_of.simps(1))
next
  case (Decided cert)
  then show ?thesis using decided_ok[OF assms(1-3), of cert] assms(4) by auto
qed (use assms(2,4) room_mono[OF assms(3)] in \<open>simp_all add: app_ok_def hook_in_step_def reply_def\<close>)

lemma run_ok:
  assumes "uses J g cfg" "app_ok J g vk p0 st" "room (ap_bridge st) (length msgs)" "length (ap_decided st) < max 1 (cfg_stop_after cfg)"
    and "run_engine_app cfg st msgs = (res, st')"
  shows "app_ok J g vk p0 st' \<and> (\<forall>ds. res = Inr ds \<longrightarrow> ds = ap_decided st' \<and> length ds = max 1 (cfg_stop_after cfg))"
  using assms(2-5)
proof (induction msgs arbitrary: st)
  case (Cons m msgs)
  note step = handle_ok[OF assms(1) Cons.prems(1), of "length msgs" m]
  show ?case
  proof (cases "handle cfg st m")
    case (Go st1)
    then show ?thesis using step Cons.prems Cons.IH[of st1] by simp
  qed (use step Cons.prems in auto)
qed auto

end

section \<open>The live bridge under the loop\<close>

definition live_ops :: "chain_env \<Rightarrow> live_bridge bridge_ops" where
  "live_ops env = \<lparr>bo_build_payload = lv_build_payload env, bo_payload_ready = lv_payload_ready, bo_commit = lv_commit env,
     bo_encode_proposed_block = lv_encode_proposed_block env, bo_register_proposed_block = lv_register_proposed_block env\<rparr>"

definition lv_known :: "live_bridge \<Rightarrow> block_hash \<Rightarrow> bool" where
  "lv_known b h \<longleftrightarrow> (\<exists>(i, p) \<in> set (lb_pending b). pp_hash p = h)"

definition lv_room :: "live_bridge \<Rightarrow> nat \<Rightarrow> bool" where
  "lv_room b n \<longleftrightarrow> 0 \<le> lb_next_payload_id b \<and> lb_next_payload_id b + int n \<le> u64_max
     \<and> (\<forall>i \<in> fst ` set (lb_pending b). i < lb_next_payload_id b)"

lemma update_fresh: "k \<notin> fst ` set m \<Longrightarrow> AList.update k v m = m @ [(k, v)]"
  by (induction m) auto

lemma insert_pending_room:
  assumes "lv_room b (Suc n)"
  shows "lv_room (fst (insert_pending p b)) n" "set (lb_pending (fst (insert_pending p b))) = insert (lb_next_payload_id b, p) (set (lb_pending b))"
proof -
  let ?i = "lb_next_payload_id b"
  have "?i \<notin> fst ` set (lb_pending b)" using assms by (auto simp: lv_room_def)
  then have up: "lb_pending (fst (insert_pending p b)) = lb_pending b @ [(?i, p)]"
    by (simp add: insert_pending_def Let_def update_fresh)
  then show "set (lb_pending (fst (insert_pending p b))) = insert (?i, p) (set (lb_pending b))" by simp
  have "lb_next_payload_id (fst (insert_pending p b)) = ?i + 1"
    using assms by (simp add: insert_pending_def Let_def lv_room_def wrap_u64_def)
  then show "lv_room (fst (insert_pending p b)) n" using assms up by (auto simp: lv_room_def)
qed

lemma lv_known_insert: "lv_room b (Suc n) \<Longrightarrow> lv_known (fst (insert_pending p b)) h \<longleftrightarrow> pp_hash p = h \<or> lv_known b h"
  using insert_pending_room(2)[of b n p] by (auto simp: lv_known_def)

lemma fills_frame [simp]:
  "lv_room (b\<lparr>lb_pending_fills := fs\<rparr>) n = lv_room b n" "lv_known (b\<lparr>lb_pending_fills := fs\<rparr>) h = lv_known b h"
  by (simp_all add: lv_room_def lv_known_def)

lemma lv_room_mono: "lv_room b (Suc n) \<Longrightarrow> lv_room b n"
  by (simp add: lv_room_def)

lemma build_room_known:
  assumes "live_inv env b" "lv_build_payload env b p a = (b', r)" "lv_room b (Suc n)"
  shows "lv_room b' n" "lv_known b h \<Longrightarrow> lv_known b' h"
proof -
  have "builder_seals env" by (rule live_invD(2)[OF assms(1)])
  from assms(2) this have "lv_room b' n \<and> (lv_known b h \<longrightarrow> lv_known b' h)"
    by (cases rule: build_cases) (use assms(3) lv_room_mono insert_pending_room(1) lv_known_insert in auto)
  then show "lv_room b' n" "lv_known b h \<Longrightarrow> lv_known b' h" by auto
qed

lemma register_cases:
  assumes "lv_register_proposed_block env b bs = (b', r)"
  obtains (reject) e where "b' = b" "r = Inl e"
  | (accept) q blk where "b' = fst (insert_pending q b)" "r = Inr blk" "pp_hash q = eb_hash blk"
  using assms by (auto simp: lv_register_proposed_block_def Let_def split: option.splits if_splits)

lemma register_new_known:
  assumes "lv_register_proposed_block env b bs = (b', Inr blk)"
  shows "lv_known b' (eb_hash blk)"
  using assms
proof (cases rule: register_cases)
  case (accept q blk')
  have "map_of (lb_pending b') (lb_next_payload_id b) = Some q"
    using accept(1) by (simp add: insert_pending_def Let_def update_conv')
  then show ?thesis using accept(2,3) by (force simp: lv_known_def dest: map_of_SomeD)
qed simp

lemma commit_frame:
  assumes "lv_commit env b h = (b', r)"
  shows "lb_pending b' = lb_pending b" "lb_next_payload_id b' = lb_next_payload_id b"
  using assms by (auto simp: lv_commit_def Let_def split: option.splits)

text \<open>The hook sees the bridge through \<open>trading_view\<close>; the payload side is what it must leave alone.\<close>

definition payload_side :: "live_bridge \<Rightarrow> int \<times> (int, pending_payload) hash_map \<times> (block_hash, header) hash_map \<times> block_hash option" where
  "payload_side b = (lb_next_payload_id b, lb_pending b, lb_chain b, lb_head b)"

lemma build_view_frame:
  assumes "lv_build_payload env b p a = (b', r)"
  shows "trading_view b' = trading_view b"
  using assms by (auto simp: lv_build_payload_def trading_view_def insert_pending_def Let_def split: if_splits sum.splits)

lemma payload_side_frame:
  assumes "payload_side b' = payload_side b"
  shows "live_inv env b' = live_inv env b" "lb_head b' = lb_head b" "lv_room b' n = lv_room b n" "lv_known b' h = lv_known b h"
  using assms by (simp_all add: payload_side_def live_inv_def pending_hashed_def chain_sealed_def lv_room_def lv_known_def)

interpretation live_app: replicated_bridge "live_inv env" "lv_build_payload env" lv_payload_ready "lv_commit env"
  "lv_number_of env" lb_head "lv_encode_proposed_block env" "lv_register_proposed_block env" lv_known lv_room
  trading_view for env
proof
  fix b n show "lv_room b (Suc n) \<Longrightarrow> lv_room b n" by (rule lv_room_mono)
next
  fix b p a b' and r :: "bridge_error + payload_id"
  assume inv: "live_inv env b" and e: "lv_build_payload env b p a = (b', r)"
  show "lb_head b' = lb_head b" by (rule build_chain(2)[OF live_invD(2)[OF inv] e])
next
  fix b p a b' n and r :: "bridge_error + payload_id"
  assume "live_inv env b" "lv_build_payload env b p a = (b', r)" "lv_room b (Suc n)"
  then show "lv_room b' n" by (rule build_room_known)
next
  fix b p a b' n h and r :: "bridge_error + payload_id"
  assume "live_inv env b" "lv_build_payload env b p a = (b', r)" "lv_room b (Suc n)" "lv_known b h"
  then show "lv_known b' h" by (rule build_room_known)
next
  fix b i blk assume "lv_payload_ready b i = Inr blk"
  then show "lv_known b (eb_hash blk)"
    by (force simp: lv_payload_ready_def lv_known_def to_executed_block_def split: option.splits dest: map_of_SomeD)
next
  fix b bs b' and r :: "bridge_error + executed_block"
  assume "live_inv env b" "lv_register_proposed_block env b bs = (b', r)"
  then show "live_inv env b'" using register_pending(1,3) by (simp add: live_inv_def chain_sealed_def)
next
  fix b bs b' and r :: "bridge_error + executed_block"
  assume "lv_register_proposed_block env b bs = (b', r)"
  then show "lb_head b' = lb_head b" by (rule register_pending)
next
  fix b bs b' n and r :: "bridge_error + executed_block"
  assume "lv_register_proposed_block env b bs = (b', r)" "lv_room b (Suc n)"
  then show "lv_room b' n" by (cases rule: register_cases) (auto intro: lv_room_mono insert_pending_room)
next
  fix b bs b' n h and r :: "bridge_error + executed_block"
  assume "lv_register_proposed_block env b bs = (b', r)" "lv_room b (Suc n)" "lv_known b h"
  then show "lv_known b' h" by (cases rule: register_cases) (auto simp: lv_known_insert)
next
  fix b bs b' blk assume "lv_register_proposed_block env b bs = (b', Inr blk)"
  then show "lv_known b' (eb_hash blk)" by (rule register_new_known)
next
  fix b h b' n and r :: "bridge_error + unit"
  assume "lv_commit env b h = (b', r)" "lv_room b (Suc n)"
  then show "lv_room b' n" using commit_frame lv_room_mono by (simp add: lv_room_def)
next
  fix b h' b' h and r :: "bridge_error + unit"
  assume "lv_commit env b h' = (b', r)" "lv_known b h"
  then show "lv_known b' h" using commit_frame by (simp add: lv_known_def)
next
  fix b p a b' and r :: "bridge_error + payload_id"
  assume "live_inv env b" and e: "lv_build_payload env b p a = (b', r)"
  then show "trading_view b' = trading_view b" using build_view_frame[OF e] by simp
next
  fix b bs b' and r :: "bridge_error + executed_block"
  assume "lv_register_proposed_block env b bs = (b', r)"
  then show "trading_view b' = trading_view b" by (cases rule: register_cases) (simp_all add: trading_view_def insert_pending_def Let_def)
next
  fix b h b' and r :: "bridge_error + unit"
  assume "lv_commit env b h = (b', r)"
  then show "trading_view b' = trading_view b" by (auto simp: trading_view_def lv_commit_def Let_def split: option.splits)
next
  fix b h assume "live_inv env b" "lv_known b h"
  then obtain i p where "(i, p) \<in> set (lb_pending b)" "pp_hash p = h" "inj (hash_slow env)" "pending_hashed env b"
    by (auto simp: lv_known_def live_inv_def)
  then show "\<exists>b'. lv_commit env b h = (b', Inr ()) \<and> lb_head b' = Some h" using commit_header by blast
qed

section \<open>One proposal, two nodes\<close>

lemma get_value_Go:
  assumes "handle cfg st (GetValue h r) = Go st'"
  obtains s1 i blk bs proposer sid where
    "bo_build_payload (cfg_ops cfg) (ap_bridge st) (ap_current_parent st) default_attrs = (s1, Inr i)"
    "bo_payload_ready (cfg_ops cfg) s1 i = Inr blk" "bo_encode_proposed_block (cfg_ops cfg) s1 i = Inr bs"
    "select_proposer_address (cfg_validator_set cfg) h r = Some proposer" "ap_bridge st' = s1"
    "map_of (ap_block_times st') (eb_hash blk) = Some (eb_timestamp blk)"
    "ap_replies st' = ap_replies st @ [ValueReply h r (eb_hash blk)]"
    "ap_network st' = ap_network st @
       [\<lparr>stm_stream_id = sid, stm_sequence = 0, stm_content = Data \<lparr>part_height = h, part_round = r,
           part_pol_round = Round_Nil, part_proposer = proposer, part_block_bytes = bs\<rparr>\<rparr>,
        \<lparr>stm_stream_id = sid, stm_sequence = 1, stm_content = Fin\<rparr>]"
proof -
  obtain s1 i where b: "bo_build_payload (cfg_ops cfg) (ap_bridge st) (ap_current_parent st) default_attrs = (s1, Inr i)"
    using assms by (auto simp: on_get_value_def split: prod.splits sum.splits)
  obtain blk where y: "bo_payload_ready (cfg_ops cfg) s1 i = Inr blk"
    using assms b by (auto simp: on_get_value_def Let_def split: sum.splits)
  obtain bs where e: "bo_encode_proposed_block (cfg_ops cfg) s1 i = Inr bs"
    using assms b y by (auto simp: on_get_value_def Let_def split: sum.splits)
  obtain proposer where p: "select_proposer_address (cfg_validator_set cfg) h r = Some proposer"
    using assms b y e by (auto simp: on_get_value_def Let_def split: option.splits)
  show thesis
    using that[OF b y e p] assms b y e p
    by (auto simp: on_get_value_def reply_def make_stream_id_def Let_def update_conv' split: if_splits)
qed

text \<open>The two messages of a fresh stream, in either order, register the block once.\<close>

lemma received_first:
  assumes "stream_entry st (peer, stm_stream_id m) = default_stream" "bt_ok (ap_streams st)"
  obtains st1 where "handle cfg st (ReceivedProposalPart peer m) = Go st1" "ap_bridge st1 = ap_bridge st"
    "stream_entry st1 (peer, stm_stream_id m) = add_content (stm_content m) default_stream"
    "ap_block_times st1 = ap_block_times st" "bt_ok (ap_streams st1)"
  using assms
  by (cases "stm_content m")
    (auto simp: on_received_part_def add_content_def default_stream_def reply_def Let_def stream_entry_def map_of_bt_insert
      bt_insert_ok)

lemma received_second:
  assumes "add_content (stm_content m) (stream_entry st (peer, stm_stream_id m)) = \<lparr>ips_data = Some part, ips_fin_seen = True\<rparr>"
    and "bo_register_proposed_block (cfg_ops cfg) (ap_bridge st) (part_block_bytes part) = (s', Inr blk)"
  obtains st2 where "handle cfg st (ReceivedProposalPart peer m) = Go st2" "ap_bridge st2 = s'"
    "map_of (ap_block_times st2) (eb_hash blk) = Some (eb_timestamp blk)"
    "ap_replies st2 = ap_replies st @ [ProposedReply (Some \<lparr>pv_height = part_height part, pv_round = part_round part,
       pv_valid_round = part_pol_round part, pv_proposer = part_proposer part, pv_value = eb_hash blk, pv_validity = VValid\<rparr>)]"
  using assms by (auto simp: on_received_part_def reply_def Let_def update_conv')

lemma received_both:
  assumes "m1 = \<lparr>stm_stream_id = sid, stm_sequence = 0, stm_content = Data part\<rparr> \<and> m2 = \<lparr>stm_stream_id = sid, stm_sequence = 1, stm_content = Fin\<rparr>
      \<or> m1 = \<lparr>stm_stream_id = sid, stm_sequence = 1, stm_content = Fin\<rparr> \<and> m2 = \<lparr>stm_stream_id = sid, stm_sequence = 0, stm_content = Data part\<rparr>"
    and "map_of (ap_streams st) (peer, sid) = None" "bt_ok (ap_streams st)"
    and "bo_register_proposed_block (cfg_ops cfg) (ap_bridge st) (part_block_bytes part) = (s', Inr blk)"
  obtains st1 st2 where "handle cfg st (ReceivedProposalPart peer m1) = Go st1"
    "handle cfg st1 (ReceivedProposalPart peer m2) = Go st2" "ap_bridge st2 = s'"
    "map_of (ap_block_times st2) (eb_hash blk) = Some (eb_timestamp blk)"
    "last (ap_replies st2) = ProposedReply (Some \<lparr>pv_height = part_height part, pv_round = part_round part,
       pv_valid_round = part_pol_round part, pv_proposer = part_proposer part, pv_value = eb_hash blk, pv_validity = VValid\<rparr>)"
proof -
  have sid: "stm_stream_id m1 = sid" "stm_stream_id m2 = sid" using assms(1) by auto
  have fresh: "stream_entry st (peer, stm_stream_id m1) = default_stream" using assms(2) sid by (simp add: stream_entry_def)
  obtain st1 where st1: "handle cfg st (ReceivedProposalPart peer m1) = Go st1" "ap_bridge st1 = ap_bridge st"
    "stream_entry st1 (peer, sid) = add_content (stm_content m1) default_stream"
    using received_first[OF fresh assms(3)] sid by metis
  have "add_content (stm_content m2) (stream_entry st1 (peer, stm_stream_id m2)) = \<lparr>ips_data = Some part, ips_fin_seen = True\<rparr>"
    unfolding sid st1(3) using assms(1) by (elim disjE) (simp_all add: add_content_def default_stream_def)
  moreover have "bo_register_proposed_block (cfg_ops cfg) (ap_bridge st1) (part_block_bytes part) = (s', Inr blk)"
    using assms(4) st1(2) by simp
  ultimately show thesis using received_second that[OF st1(1)] by (metis last_snoc)
qed

text \<open>The follower's side of a shipped block, next to the proposer's commit of it.\<close>

lemma follower_accepts:
  assumes "cfg_ops cf = live_ops env" "bt_ok (ap_streams F)"
    and "m1 = \<lparr>stm_stream_id = sid, stm_sequence = 0, stm_content = Data part\<rparr> \<and> m2 = \<lparr>stm_stream_id = sid, stm_sequence = 1, stm_content = Fin\<rparr>
      \<or> m1 = \<lparr>stm_stream_id = sid, stm_sequence = 1, stm_content = Fin\<rparr> \<and> m2 = \<lparr>stm_stream_id = sid, stm_sequence = 0, stm_content = Data part\<rparr>"
    and "map_of (ap_streams F) (peer, sid) = None"
    and "lv_register_proposed_block env (ap_bridge F) (part_block_bytes part) = (c, Inr blk)"
    and "lv_commit env c (eb_hash blk) = (c', Inr ())" "lv_commit env b (eb_hash blk) = (b', Inr ())" "lb_head b' = lb_head c'"
    and "map_of (lb_chain b') (eb_hash blk) = map_of (lb_chain c') (eb_hash blk)"
    and "map_of bt (eb_hash blk) = Some (eb_timestamp blk)"
    and "map_option val_address (select_proposer vs h r) = Some (part_proposer part)" "part_height part = h" "part_round part = r"
  shows "\<exists>F1 F2 pv b' c'. handle cf F (ReceivedProposalPart peer m1) = Go F1 \<and> handle cf F1 (ReceivedProposalPart peer m2) = Go F2
    \<and> last (ap_replies F2) = ProposedReply (Some pv) \<and> pv_value pv = eb_hash blk \<and> pv_height pv = h \<and> pv_round pv = r
    \<and> map_option val_address (select_proposer vs h r) = Some (pv_proposer pv)
    \<and> map_of (ap_block_times F2) (eb_hash blk) = map_of bt (eb_hash blk)
    \<and> lv_commit env b (eb_hash blk) = (b', Inr ()) \<and> lv_commit env (ap_bridge F2) (eb_hash blk) = (c', Inr ())
    \<and> lb_head b' = lb_head c' \<and> map_of (lb_chain b') (eb_hash blk) = map_of (lb_chain c') (eb_hash blk)"
proof -
  have reg: "bo_register_proposed_block (cfg_ops cf) (ap_bridge F) (part_block_bytes part) = (c, Inr blk)"
    using assms(5) by (simp add: assms(1) live_ops_def)
  let ?pv = "\<lparr>pv_height = part_height part, pv_round = part_round part, pv_valid_round = part_pol_round part,
    pv_proposer = part_proposer part, pv_value = eb_hash blk, pv_validity = VValid\<rparr>"
  obtain F1 F2 where F: "handle cf F (ReceivedProposalPart peer m1) = Go F1" "handle cf F1 (ReceivedProposalPart peer m2) = Go F2"
    "ap_bridge F2 = c" "map_of (ap_block_times F2) (eb_hash blk) = Some (eb_timestamp blk)"
    "last (ap_replies F2) = ProposedReply (Some ?pv)"
    by (rule received_both[OF assms(3,4,2) reg])
  show ?thesis
    by (rule exI[of _ F1], rule exI[of _ F2], rule exI[of _ ?pv], rule exI[of _ b'], rule exI[of _ c'])
      (use F assms(6-13) in simp)
qed

lemma proposal_reaches:
  assumes "cfg_ops cp = live_ops env" "cfg_ops cf = live_ops env"
    and "live_inv env (ap_bridge P)" "live_inv env (ap_bridge F)" "bt_ok (ap_streams F)"
    and codec: "\<forall>w bs. to_vec env w = Some bs \<longrightarrow> from_slice env bs = Some w"
    and "handle cp P (GetValue h r) = Go P'"
  shows "\<exists>d f v. ap_network P' = ap_network P @ [d, f] \<and> last (ap_replies P') = ValueReply h r v
    \<and> map_of (ap_block_times P') v \<noteq> None \<and>
    (\<forall>peer m1 m2. (m1 = d \<and> m2 = f \<or> m1 = f \<and> m2 = d) \<and> map_of (ap_streams F) (peer, stm_stream_id d) = None \<longrightarrow>
      (\<exists>F1 F2 pv b' c'. handle cf F (ReceivedProposalPart peer m1) = Go F1 \<and> handle cf F1 (ReceivedProposalPart peer m2) = Go F2
        \<and> last (ap_replies F2) = ProposedReply (Some pv) \<and> pv_value pv = v \<and> pv_height pv = h \<and> pv_round pv = r
        \<and> map_option val_address (select_proposer (cfg_validator_set cp) h r) = Some (pv_proposer pv)
        \<and> map_of (ap_block_times F2) v = map_of (ap_block_times P') v
        \<and> lv_commit env (ap_bridge P') v = (b', Inr ()) \<and> lv_commit env (ap_bridge F2) v = (c', Inr ())
        \<and> lb_head b' = lb_head c' \<and> map_of (lb_chain b') v = map_of (lb_chain c') v))"
proof -
  obtain s1 i blk bs proposer sid where g:
    "lv_build_payload env (ap_bridge P) (ap_current_parent P) default_attrs = (s1, Inr i)" "lv_payload_ready s1 i = Inr blk"
    "lv_encode_proposed_block env s1 i = Inr bs" "select_proposer_address (cfg_validator_set cp) h r = Some proposer"
    "ap_bridge P' = s1" "map_of (ap_block_times P') (eb_hash blk) = Some (eb_timestamp blk)"
    "ap_replies P' = ap_replies P @ [ValueReply h r (eb_hash blk)]"
    "ap_network P' = ap_network P @
       [\<lparr>stm_stream_id = sid, stm_sequence = 0, stm_content = Data \<lparr>part_height = h, part_round = r,
           part_pol_round = Round_Nil, part_proposer = proposer, part_block_bytes = bs\<rparr>\<rparr>,
        \<lparr>stm_stream_id = sid, stm_sequence = 1, stm_content = Fin\<rparr>]"
    by (rule get_value_Go[OF assms(7)]) (simp add: assms(1) live_ops_def)
  have inj: "inj (hash_slow env)" and ph: "pending_hashed env s1" "pending_hashed env (ap_bridge F)"
    using live.build_inv[OF assms(3) g(1)] assms(4) by (simp_all add: live_inv_def)
  obtain p c j q where p: "(i, p) \<in> set (lb_pending s1)" "blk = to_executed_block (pp_hash p) (pp_header p)"
    and c: "lv_register_proposed_block env (ap_bridge F) bs = (c, Inr blk)" "pending_hashed env c"
    and q: "(j, q) \<in> set (lb_pending c)" "pp_hash q = pp_hash p" "pp_header q = pp_header p"
    using encode_register[OF ph codec g(3,2)] by metis
  have v: "eb_hash blk = pp_hash p" using p(2) by (simp add: to_executed_block_def)
  obtain b' where b': "lv_commit env s1 (pp_hash p) = (b', Inr ())" "lb_head b' = Some (pp_hash p)"
    "map_of (lb_chain b') (pp_hash p) = Some (pp_header p)" using commit_header[OF inj ph(1) p(1)] by auto
  obtain c' where c': "lv_commit env c (pp_hash p) = (c', Inr ())" "lb_head c' = Some (pp_hash p)"
    "map_of (lb_chain c') (pp_hash p) = Some (pp_header p)" using commit_header[OF inj c(2) q(1)] q(2,3) by auto
  have addr: "map_option val_address (select_proposer (cfg_validator_set cp) h r) = Some proposer"
    using g(4) by (simp add: select_proposer_address_eq)
  let ?part = "\<lparr>part_height = h, part_round = r, part_pol_round = Round_Nil, part_proposer = proposer, part_block_bytes = bs\<rparr>"
  let ?d = "\<lparr>stm_stream_id = sid, stm_sequence = 0, stm_content = Data ?part\<rparr>"
  let ?f = "\<lparr>stm_stream_id = sid, stm_sequence = 1, stm_content = Fin\<rparr>"
  have commits: "lv_commit env (ap_bridge P') (eb_hash blk) = (b', Inr ())" "lv_commit env c (eb_hash blk) = (c', Inr ())"
    "lb_head b' = lb_head c'" "map_of (lb_chain b') (eb_hash blk) = map_of (lb_chain c') (eb_hash blk)"
    using b' c' by (simp_all add: v g(5))
  have reg: "lv_register_proposed_block env (ap_bridge F) (part_block_bytes ?part) = (c, Inr blk)" using c(1) by simp
  have sid: "stm_stream_id ?d = sid" by simp
  show ?thesis
    by (rule exI[of _ ?d], rule exI[of _ ?f], rule exI[of _ "eb_hash blk"], unfold sid, intro conjI allI impI, rule g(8),
        simp add: g(7), simp add: g(6), elim conjE, rule follower_accepts[OF assms(2,5) _ _ reg commits(2,1,3,4) g(6)])
      (simp_all add: addr)
qed

lemma decided_live:
  assumes "cfg_ops cfg = live_ops env" "map_of (ap_block_times st) (cc_value_id cert) = Some t"
    and "lv_commit env (ap_bridge st) (cc_value_id cert) = (b', Inr ())"
    and "cfg_hook cfg b' (ap_hook st) (cc_value_id cert) (cc_height cert) t = (b2, k2, True)"
  obtains st' where "handle cfg st (Decided cert) = Go st' \<or> handle cfg st (Decided cert) = Done st'"
    "ap_bridge st' = b2" "ap_hook st' = k2" "ap_current_parent st' = cc_value_id cert" "ap_decided st' = ap_decided st @ [cc_value_id cert]"
  using assms by (cases "length (ap_decided st) + 1 \<ge> cfg_stop_after cfg") (simp_all add: on_decided_def live_ops_def reply_def Let_def)

section \<open>Properties\<close>

text \<open>A hook over the live bridge that leaves the payload side alone, keeps \<open>J\<close> and acts as \<open>g\<close>.\<close>

definition hook_follows ::
  "(trading_view \<Rightarrow> 'h \<Rightarrow> bool) \<Rightarrow>
   (block_hash \<times> height \<times> int \<Rightarrow> trading_view \<times> 'h \<Rightarrow>
      trading_view \<times> 'h) \<Rightarrow>
   (live_bridge \<Rightarrow> 'h \<Rightarrow> block_hash \<Rightarrow> height \<Rightarrow> int \<Rightarrow> live_bridge \<times> 'h \<times> bool) \<Rightarrow> bool" where
  "hook_follows J g hook \<longleftrightarrow> (\<forall>s k h ht t s' k' ok. J (trading_view s) k \<longrightarrow> hook s k h ht t = (s', k', ok) \<longrightarrow>
     ok \<and> payload_side s' = payload_side s \<and> J (trading_view s') k' \<and> (trading_view s', k') = g (h, ht, t) (trading_view s, k))"

lemma live_uses:
  assumes "cfg_ops cfg = live_ops env" "hook_follows J g (cfg_hook cfg)"
  shows "live_app.uses env J g cfg"
proof -
  have "live_app.hook_good env J g cfg"
    unfolding live_app.hook_good_def
  proof (intro allI impI)
    fix s k h ht t s' k' ok
    assume "J (trading_view s) k" "cfg_hook cfg s k h ht t = (s', k', ok)"
    then have *: "ok" "payload_side s' = payload_side s" "J (trading_view s') k'"
      "(trading_view s', k') = g (h, ht, t) (trading_view s, k)"
      using assms(2) unfolding hook_follows_def by blast+
    then show "ok \<and> J (trading_view s') k' \<and> (trading_view s', k') = g (h, ht, t) (trading_view s, k)
      \<and> (live_inv env s \<longrightarrow> live_inv env s') \<and> lb_head s' = lb_head s \<and> (\<forall>n. lv_room s n \<longrightarrow> lv_room s' n)
      \<and> (\<forall>h'. lv_known s h' \<longrightarrow> lv_known s' h')"
      by (simp add: payload_side_frame[OF *(2)])
  qed
  then show ?thesis using assms(1) by (simp add: live_app.uses_def live_ops_def)
qed


definition demo_cfg :: "(live_bridge, (block_hash \<times> height \<times> int) list) app_config" where
  "demo_cfg = \<lparr>cfg_ops = live_ops demo_env, cfg_hook = (\<lambda>b k h ht t. (b, k @ [(h, ht, t)], True)),
     cfg_validator_set = [demo_validator 1 100], cfg_stop_after = 1, cfg_network_open = True\<rparr>"

lemma demo_cfg_facts [simp]:
  "cfg_ops demo_cfg = live_ops demo_env"
  "hook_follows (\<lambda>_ _. True) (\<lambda>call (v, k). (v, k @ [call])) (cfg_hook demo_cfg)" "lv_room new_live n = (int n \<le> u64_max)"
  by (auto simp: demo_cfg_def hook_follows_def lv_room_def new_live_def trading.extend_def)


text \<open>A proposal reaches the other validators intact. When a node on a live bridge answers \<open>GetValue\<close>, it publishes two
  messages; a follower that receives them in either order, on a stream it has not seen, hands consensus exactly the proposed block hash
  with the proposer's height, round and address, has recorded the same block time, and both nodes can commit it, with the same head
  and the same header.\<close>

theorem proposal_replicates:
  assumes "cfg_ops cp = live_ops env" "cfg_ops cf = live_ops env"
    and "live_inv env (ap_bridge P)" "live_inv env (ap_bridge F)" "bt_ok (ap_streams F)"
    and codec: "\<forall>w bs. to_vec env w = Some bs \<longrightarrow> from_slice env bs = Some w"
    and "handle cp P (GetValue h r) = Go P'"
  shows "\<exists>d f v. ap_network P' = ap_network P @ [d, f] \<and> last (ap_replies P') = ValueReply h r v
    \<and> map_of (ap_block_times P') v \<noteq> None \<and>
    (\<forall>peer m1 m2. (m1 = d \<and> m2 = f \<or> m1 = f \<and> m2 = d) \<and> map_of (ap_streams F) (peer, stm_stream_id d) = None \<longrightarrow>
      (\<exists>F1 F2 pv b' c'. handle cf F (ReceivedProposalPart peer m1) = Go F1 \<and> handle cf F1 (ReceivedProposalPart peer m2) = Go F2
        \<and> last (ap_replies F2) = ProposedReply (Some pv) \<and> pv_value pv = v \<and> pv_height pv = h \<and> pv_round pv = r
        \<and> map_option val_address (select_proposer (cfg_validator_set cp) h r) = Some (pv_proposer pv)
        \<and> map_of (ap_block_times F2) v = map_of (ap_block_times P') v
        \<and> lv_commit env (ap_bridge P') v = (b', Inr ()) \<and> lv_commit env (ap_bridge F2) v = (c', Inr ())
        \<and> lb_head b' = lb_head c' \<and> map_of (lb_chain b') v = map_of (lb_chain c') v))"
  by (rule proposal_reaches[OF assms])

lemma demo_get_value:
  assumes "cfg_ops cfg = live_ops demo_env" "cfg_validator_set cfg = [demo_validator 1 100]" "cfg_network_open cfg"
  obtains P' where "handle cfg (initial_app new_live k [0] 1) (GetValue 1 0) = Go P'"
proof -
  let ?pp = "\<lparr>pp_hash = demo_hash demo_block_header, pp_header = demo_block_header, pp_fills = [], pp_execution_data = None\<rparr>"
  have attrs: "default_attrs = demo_attrs" by (simp add: default_attrs_def demo_attrs_def)
  obtain b where b: "lv_build_payload demo_env new_live [0] default_attrs = (b, Inr 0)" "lb_pending b = [(0, ?pp)]"
    using lv_build_synth[OF demo_env_facts(1,4), of demo_attrs]
    by (simp add: attrs demo_synthesized new_live_def trading.extend_def new_trading_def)
  have "lv_payload_ready b 0 = Inr (to_executed_block (demo_hash demo_block_header) demo_block_header)"
    "lv_encode_proposed_block demo_env b 0 = Inr [1]"
    by (simp_all add: lv_payload_ready_def lv_encode_proposed_block_def b(2) demo_env_def demo_wire_def)
  moreover have "select_proposer_address (cfg_validator_set cfg) 1 0 = Some (replicate 20 1)"
    by (simp add: assms(2) select_proposer_address_def get_by_index_def demo_validator_def)
  ultimately show thesis
    using that b(1) assms by (simp add: on_get_value_def initial_app_def live_ops_def make_stream_id_def Let_def)
qed

theorem proposal_replicates_witness:
  "\<exists>P' d f v. handle demo_cfg (initial_app new_live [] [0] 1) (GetValue 1 0) = Go P'
     \<and> ap_network P' = [d, f] \<and> last (ap_replies P') = ValueReply 1 0 v"
proof -
  obtain P' where P': "handle demo_cfg (initial_app new_live [] [0] 1) (GetValue 1 0) = Go P'"
    by (rule demo_get_value[of demo_cfg "[]"]) (simp_all add: demo_cfg_def)
  let ?F = "initial_app new_live () [0] 1 :: (live_bridge, unit) app_state"
  let ?cf = "\<lparr>cfg_ops = live_ops demo_env, cfg_hook = (\<lambda>b k h ht t. (b, k, True)), cfg_validator_set = [demo_validator 1 100],
    cfg_stop_after = 1, cfg_network_open = True\<rparr> :: (live_bridge, unit) app_config"
  have cf: "cfg_ops ?cf = live_ops demo_env" by simp
  have inv: "live_inv demo_env (ap_bridge (initial_app new_live [] [0] 1 :: (live_bridge, (block_hash \<times> height \<times> int) list) app_state))"
    "live_inv demo_env (ap_bridge ?F)" "bt_ok (ap_streams ?F)"
    by (simp_all add: initial_app_def bt_ok_def)
  have codec: "\<forall>w bs. to_vec demo_env w = Some bs \<longrightarrow> from_slice demo_env bs = Some w" by (simp add: demo_env_def)
  have net: "ap_network (initial_app new_live ([] :: (block_hash \<times> height \<times> int) list) [0] 1) = []" by (simp add: initial_app_def)
  show ?thesis
    using P' proposal_replicates[OF demo_cfg_facts(1) cf inv codec P'] unfolding net by auto
qed

text \<open>A proposal the bridge refuses (bytes that do not parse, or whose header hash differs from the claimed one) does not become an invalid
  value: the error leaves the loop, so one malformed stream from a peer ends the node.\<close>

theorem refused_proposal_stops_loop:
  assumes "cfg_ops cfg = live_ops env" "add_content (stm_content m) (stream_entry st (peer, stm_stream_id m)) = \<lparr>ips_data = Some part, ips_fin_seen = True\<rparr>"
    and "from_slice env (part_block_bytes part) = None"
  shows "\<exists>st'. run_engine_app cfg st (ReceivedProposalPart peer m # msgs) = (Inl (BridgeFailed Rejected), st')"
  using assms by (simp add: on_received_part_def live_ops_def lv_register_proposed_block_def Let_def)

text \<open>The time a follower records for a block is the one on the wire, which the check of the header hash does not cover: two messages with the same header,
  and so the same block hash, can make two followers record different times for the same block.\<close>

theorem wire_time_unauthenticated:
  assumes "from_slice env bs1 = Some w" "from_slice env bs2 = Some (w\<lparr>wire_block := (wire_block w)\<lparr>eb_timestamp := t\<rparr>\<rparr>)"
    and "hash_slow env (wire_header w) = eb_hash (wire_block w)" "t \<noteq> eb_timestamp (wire_block w)"
  shows "\<exists>blk1 blk2. snd (lv_register_proposed_block env b bs1) = Inr blk1 \<and> snd (lv_register_proposed_block env b bs2) = Inr blk2
    \<and> eb_hash blk1 = eb_hash blk2 \<and> eb_timestamp blk1 \<noteq> eb_timestamp blk2"
  using assms by (simp add: lv_register_proposed_block_def Let_def)

end
