(* ===== verification/Scenario.thy ===== *)
theory Scenario
  imports Ledger
begin

text \<open>
  What the devnet binary feeds into the account side of the bridge before and between blocks (\<open>bin/openhl/src\<close>): the
  fixture replayer of \<open>seed_fixture.rs\<close>, the per-height applier of \<open>chain_history.rs\<close> and the built-in scenario of
  \<open>main.rs\<close> (\<open>seed_accounts_via_fills\<close>, \<open>seed_mark_orders\<close> and the deposits). JSON parsing and printing are not modelled. A panic of the
  order book is \<open>None\<close>; a fixture error is \<open>Inl\<close>.
\<close>

section \<open>Fixtures\<close>

datatype side_rpc = Rpc_Buy | Rpc_Sell
datatype order_kind_rpc = Kind_Limit | Kind_Market

record trade_op =
  to_id :: int
  to_account :: account_id
  to_side :: side_rpc
  to_qty :: qty
  to_kind :: order_kind_rpc
  to_price :: "price option"

record deposit_op =
  dep_account :: account_id
  dep_amount :: int

record seed_fixture =
  sf_trades :: "trade_op list"
  sf_deposits :: "deposit_op list"

datatype replay_error = LimitWithoutPrice int

fun side_of_rpc :: "side_rpc \<Rightarrow> side" where
  "side_of_rpc Rpc_Buy = Buy"
| "side_of_rpc Rpc_Sell = Sell"

definition trade_order_type :: "trade_op \<Rightarrow> replay_error + order_type" where
  "trade_order_type t =
     (case to_kind t of
        Kind_Limit \<Rightarrow> (case to_price t of None \<Rightarrow> Inl (LimitWithoutPrice (to_id t)) | Some p \<Rightarrow> Inr (Limit p))
      | Kind_Market \<Rightarrow> Inr Market)"

definition trade_order :: "trade_op \<Rightarrow> order_type \<Rightarrow> order" where
  "trade_order t ot = \<lparr>ord_id = to_id t, ord_account = to_account t, ord_side = side_of_rpc (to_side t), ord_qty = to_qty t, ord_type = ot\<rparr>"

fun run_trades :: "'x trading_scheme \<Rightarrow> trade_op list \<Rightarrow> nat \<Rightarrow> ('x trading_scheme \<times> (replay_error + nat)) option" where
  "run_trades b [] total_fills = Some (b, Inr total_fills)"
| "run_trades b (t # ts) total_fills =
     (case trade_order_type t of
        Inl e \<Rightarrow> Some (b, Inl e)
      | Inr ot \<Rightarrow> (case submit_order b (trade_order t ot) of
          None \<Rightarrow> None
        | Some (b', r) \<Rightarrow> run_trades b' ts (total_fills + length (fills r))))"

definition run_deposits :: "'x trading_scheme \<Rightarrow> deposit_op list \<Rightarrow> 'x trading_scheme" where
  "run_deposits b ds = fold (\<lambda>d b. fst (bridge_deposit b (dep_account d) (dep_amount d))) ds b"

definition replay :: "'x trading_scheme \<Rightarrow> seed_fixture \<Rightarrow> ('x trading_scheme \<times> (replay_error + nat)) option" where
  "replay b fixture =
     (case run_trades b (sf_trades fixture) 0 of
        None \<Rightarrow> None
      | Some (b', Inl e) \<Rightarrow> Some (b', Inl e)
      | Some (b', Inr total_fills) \<Rightarrow> Some (run_deposits b' (sf_deposits fixture), Inr total_fills))"

section \<open>Chain history\<close>

record history_block =
  hb_height :: int
  hb_trades :: "trade_op list"
  hb_deposits :: "deposit_op list"

record chain_history_applier =
  by_height :: "(int, history_block) btree"
  applied :: "int set"

fun index_blocks :: "history_block list \<Rightarrow> (int, history_block) btree \<Rightarrow> (int, history_block) btree option" where
  "index_blocks [] m = Some m"
| "index_blocks (b # bs) m = (if map_of m (hb_height b) \<noteq> None then None else index_blocks bs (bt_insert (hb_height b) b m))"

definition new_applier :: "history_block list \<Rightarrow> chain_history_applier option" where
  "new_applier blocks = map_option (\<lambda>m. \<lparr>by_height = m, applied = {}\<rparr>) (index_blocks blocks [])"

definition total_blocks :: "chain_history_applier \<Rightarrow> nat" where
  "total_blocks ap = length (by_height ap)"

definition heights :: "chain_history_applier \<Rightarrow> int list" where
  "heights ap = map fst (by_height ap)"

text \<open>The height is marked before its events run, so it stays marked when one of them is refused.\<close>

definition apply_for_height ::
  "chain_history_applier \<Rightarrow> 'x trading_scheme \<Rightarrow> int \<Rightarrow>
     (chain_history_applier \<times> 'x trading_scheme \<times> (replay_error + (nat \<times> nat \<times> nat) option)) option" where
  "apply_for_height ap b height =
     (case map_of (by_height ap) height of
        None \<Rightarrow> Some (ap, b, Inr None)
      | Some block \<Rightarrow>
          if height \<in> applied ap then Some (ap, b, Inr None)
          else let ap' = ap\<lparr>applied := insert height (applied ap)\<rparr>
               in case run_trades b (hb_trades block) 0 of
                    None \<Rightarrow> None
                  | Some (b', Inl e) \<Rightarrow> Some (ap', b', Inl e)
                  | Some (b', Inr total_fills) \<Rightarrow>
                      Some (ap', run_deposits b' (hb_deposits block),
                        Inr (Some (length (hb_trades block), total_fills, length (hb_deposits block)))))"

section \<open>The built-in scenario\<close>

definition limit_order :: "int \<Rightarrow> account_id \<Rightarrow> side \<Rightarrow> qty \<Rightarrow> price \<Rightarrow> order" where
  "limit_order i a sd q p = \<lparr>ord_id = i, ord_account = a, ord_side = sd, ord_qty = q, ord_type = Limit p\<rparr>"

definition market_order :: "int \<Rightarrow> account_id \<Rightarrow> side \<Rightarrow> qty \<Rightarrow> order" where
  "market_order i a sd q = \<lparr>ord_id = i, ord_account = a, ord_side = sd, ord_qty = q, ord_type = Market\<rparr>"

fun submit_all :: "'x trading_scheme \<Rightarrow> order list \<Rightarrow> nat \<Rightarrow> ('x trading_scheme \<times> nat) option" where
  "submit_all b [] n = Some (b, n)"
| "submit_all b (ord # ords) n =
     (case submit_order b ord of None \<Rightarrow> None | Some (b', r) \<Rightarrow> submit_all b' ords (n + length (fills r)))"

definition seed_accounts_via_fills :: "'x trading_scheme \<Rightarrow> ('x trading_scheme \<times> nat) option" where
  "seed_accounts_via_fills b = submit_all b
     [limit_order 1001 40 Sell 10 110, market_order 1002 10 Buy 10,
      limit_order 1003 40 Sell 10 110, market_order 1004 20 Buy 10,
      limit_order 1005 40 Sell 30 110, market_order 1006 30 Buy 30,
      limit_order 1007 50 Sell 20 110, market_order 1008 30 Buy 20] 0"

definition seed_mark_orders :: "'x trading_scheme \<Rightarrow> 'x trading_scheme option" where
  "seed_mark_orders b = map_option fst (submit_all b [limit_order 2001 1 Buy 1 95, limit_order 2002 2 Sell 1 97] 0)"

definition seed_deposits :: "(account_id \<times> int) list" where
  "seed_deposits = [(10, 200), (20, 90), (30, 100), (40, 300), (50, 200)]"

definition default_seed :: "'x trading_scheme \<Rightarrow> ('x trading_scheme \<times> nat) option" where
  "default_seed b =
     (case seed_accounts_via_fills b of
        None \<Rightarrow> None
      | Some (b1, fills_count) \<Rightarrow> (case seed_mark_orders b1 of
          None \<Rightarrow> None
        | Some b2 \<Rightarrow> Some (fold (\<lambda>(a, coll) b. fst (bridge_deposit b a coll)) seed_deposits b2, fills_count)))"

section \<open>Frames\<close>

lemma run_deposits_view:
  assumes "trading_view b = trading_view c"
  shows "trading_view (run_deposits b ds) = trading_view (run_deposits c ds)"
  using assms
proof (induction ds arbitrary: b c)
  case (Cons d ds)
  then show ?case using deposit_view[of b c] by (simp add: run_deposits_def)
qed (simp add: run_deposits_def)

lemma run_deposits_more [simp]: "trading.more (run_deposits b ds) = trading.more b"
  by (induction ds arbitrary: b) (simp_all add: run_deposits_def)

lemma run_trades_view:
  assumes "trading_view b = trading_view c"
  shows "map_option (\<lambda>(b', r). (trading_view b', r)) (run_trades b ts n) = map_option (\<lambda>(c', r). (trading_view c', r)) (run_trades c ts n)"
  using assms
proof (induction ts arbitrary: b c n)
  case (Cons t ts)
  show ?case
  proof (cases "trade_order_type t")
    case (Inl e)
    then show ?thesis using Cons.prems by simp
  next
    case (Inr ot)
    then show ?thesis
      using submit_order_view[OF Cons.prems, of "trade_order t ot"] Cons.IH by (auto split: option.splits)
  qed
qed simp

lemma run_trades_more: "run_trades b ts n = Some (b', r) \<Longrightarrow> trading.more b' = trading.more b"
proof (induction ts arbitrary: b n)
  case (Cons t ts)
  then show ?case using submit_order_more[of b] by (fastforce split: sum.splits option.splits)
qed simp

lemma apply_for_height_view:
  assumes "trading_view b = trading_view c"
  shows "map_option (\<lambda>(ap', b', r). (ap', trading_view b', r)) (apply_for_height ap b h)
    = map_option (\<lambda>(ap', c', r). (ap', trading_view c', r)) (apply_for_height ap c h)"
proof (cases "map_of (by_height ap) h")
  case (Some blk)
  then show ?thesis
    using assms run_trades_view[OF assms, of "hb_trades blk" 0] run_deposits_view
    by (fastforce simp: apply_for_height_def Let_def split: option.splits sum.splits)
qed (use assms in \<open>simp add: apply_for_height_def\<close>)

lemma apply_for_height_more: "apply_for_height ap b h = Some (ap', b', r) \<Longrightarrow> trading.more b' = trading.more b"
  by (auto simp: apply_for_height_def Let_def dest!: run_trades_more split: option.splits sum.splits if_splits)

section \<open>Well-formedness\<close>

definition tables_ok :: "'x trading_scheme \<Rightarrow> bool" where
  "tables_ok b \<longleftrightarrow> book_ok (lb_clob b) \<and> accounts_ok (lb_accounts b)"

definition trade_ok :: "trade_op \<Rightarrow> bool" where
  "trade_ok t \<longleftrightarrow> in_u64 (to_qty t) \<and> (to_kind t = Kind_Limit \<longrightarrow> to_price t \<noteq> None)"

lemma submit_order_tables:
  assumes "tables_ok b" "0 \<le> ord_qty ord"
  obtains b' r where "submit_order b ord = Some (b', r)" "tables_ok b'"
proof -
  have bk: "book_ok (lb_clob b)" using assms(1) by (simp add: tables_ok_def)
  obtain book' res where s: "submit (lb_clob b) ord = Some (book', res)" "book_ok book'" using submit_spec[OF bk assms(2)] by blast
  show thesis
  proof (cases "fills res = []")
    case True
    then show thesis using that s assms(1) by (simp add: submit_order_def tables_ok_def)
  next
    case False
    then show thesis using that s assms(1) by (simp add: submit_order_def tables_ok_def Let_def apply_fills_ok)
  qed
qed

lemma deposit_tables: "tables_ok b \<Longrightarrow> tables_ok (fst (bridge_deposit b a x))"
  by (simp add: tables_ok_def bridge_deposit_def Let_def update_collateral_frame)

lemma run_deposits_tables: "tables_ok b \<Longrightarrow> tables_ok (run_deposits b ds)"
  by (induction ds arbitrary: b) (simp_all add: run_deposits_def deposit_tables)

text \<open>Trades that carry their prices never fail and never panic.\<close>

lemma run_trades_tables:
  assumes "tables_ok b" "\<forall>t \<in> set ts. trade_ok t"
  obtains b' m where "run_trades b ts n = Some (b', Inr m)" "tables_ok b'"
  using assms
proof (induction ts arbitrary: b n thesis)
  case (Cons t ts)
  obtain ot where ot: "trade_order_type t = Inr ot"
    using Cons.prems(3) by (cases "to_kind t") (auto simp: trade_order_type_def trade_ok_def)
  have "0 \<le> ord_qty (trade_order t ot)" using Cons.prems(3) by (simp add: trade_order_def trade_ok_def in_u64_def)
  then obtain b1 r where b1: "submit_order b (trade_order t ot) = Some (b1, r)" "tables_ok b1"
    using submit_order_tables[OF Cons.prems(2)] by blast
  obtain b' m where "run_trades b1 ts (n + length (fills r)) = Some (b', Inr m)" "tables_ok b'"
    using Cons.IH[OF _ b1(2)] Cons.prems(3) by (metis list.set_intros(2))
  then show ?case using Cons.prems(1) ot b1(1) by simp
qed simp

definition applier_ok :: "chain_history_applier \<Rightarrow> bool" where
  "applier_ok ap \<longleftrightarrow> (\<forall>(h, blk) \<in> set (by_height ap). \<forall>t \<in> set (hb_trades blk). trade_ok t)"

lemma apply_for_height_tables:
  assumes "tables_ok b" "applier_ok ap"
  obtains ap' b' c where "apply_for_height ap b h = Some (ap', b', Inr c)" "tables_ok b'" "applier_ok ap'"
proof (cases "map_of (by_height ap) h = None \<or> h \<in> applied ap")
  case True
  then have "apply_for_height ap b h = Some (ap, b, Inr None)" by (auto simp: apply_for_height_def split: option.splits)
  then show thesis using that assms by blast
next
  case False
  then obtain blk where blk: "map_of (by_height ap) h = Some blk" "h \<notin> applied ap" by auto
  then have "\<forall>t \<in> set (hb_trades blk). trade_ok t" using assms(2) by (force simp: applier_ok_def dest: map_of_SomeD)
  then obtain b' m where "run_trades b (hb_trades blk) 0 = Some (b', Inr m)" "tables_ok b'" using run_trades_tables[OF assms(1)] by metis
  then show thesis
    using that[of "ap\<lparr>applied := insert h (applied ap)\<rparr>"] blk assms(2) run_deposits_tables[of b' "hb_deposits blk"]
    by (simp add: apply_for_height_def applier_ok_def Let_def)
qed

section \<open>Exactly once\<close>

fun apply_heights ::
  "chain_history_applier \<Rightarrow> 'x trading_scheme \<Rightarrow> int list \<Rightarrow> (chain_history_applier \<times> 'x trading_scheme) option" where
  "apply_heights ap b [] = Some (ap, b)"
| "apply_heights ap b (h # hs) =
     (case apply_for_height ap b h of Some (ap', b', Inr _) \<Rightarrow> apply_heights ap' b' hs | _ \<Rightarrow> None)"

fun replay_all :: "'x trading_scheme \<Rightarrow> history_block list \<Rightarrow> 'x trading_scheme option" where
  "replay_all b [] = Some b"
| "replay_all b (blk # blks) =
     (case replay b \<lparr>sf_trades = hb_trades blk, sf_deposits = hb_deposits blk\<rparr> of
        Some (b', Inr _) \<Rightarrow> replay_all b' blks
      | _ \<Rightarrow> None)"

fun first_occurrences :: "'a list \<Rightarrow> 'a list" where
  "first_occurrences [] = []"
| "first_occurrences (x # xs) = x # filter (\<lambda>y. y \<noteq> x) (first_occurrences xs)"

lemma index_blocks_None:
  assumes "bt_ok m"
  shows "index_blocks bs m = None \<longleftrightarrow> \<not> (distinct (map hb_height bs) \<and> (\<forall>b \<in> set bs. map_of m (hb_height b) = None))"
  using assms
proof (induction bs arbitrary: m)
  case (Cons b bs)
  show ?case
    using Cons.IH[OF bt_insert_ok[OF Cons.prems, of "hb_height b" b]] by (auto simp: map_of_bt_insert[OF Cons.prems] image_iff split: if_splits) metis
qed simp

lemma index_blocks_lookup:
  assumes "bt_ok m" "index_blocks bs m = Some m'"
  shows "bt_ok m' \<and> (\<forall>h. map_of m' h = (case find (\<lambda>b. hb_height b = h) bs of Some b \<Rightarrow> Some b | None \<Rightarrow> map_of m h))"
  using assms
proof (induction bs arbitrary: m)
  case (Cons b bs)
  have nm: "map_of m (hb_height b) = None" and ix: "index_blocks bs (bt_insert (hb_height b) b m) = Some m'"
    using Cons.prems(2) by (auto split: if_splits)
  have "\<not> (\<exists>x \<in> set bs. hb_height x = hb_height b)"
    using ix index_blocks_None[OF bt_insert_ok[OF Cons.prems(1)], of bs "hb_height b" b] by (auto simp: map_of_bt_insert[OF Cons.prems(1)])
  then have "find (\<lambda>x. hb_height x = hb_height b) bs = None" by (auto simp: find_None_iff)
  then show ?case
    using Cons.IH[OF bt_insert_ok[OF Cons.prems(1)] ix] by (auto simp: map_of_bt_insert[OF Cons.prems(1)] split: option.splits)
qed simp

lemma find_filter: "distinct (map f xs) \<Longrightarrow> filter (\<lambda>x. f x = k) xs = (case find (\<lambda>x. f x = k) xs of Some x \<Rightarrow> [x] | None \<Rightarrow> [])"
proof (induction xs)
  case (Cons x xs)
  have "find (\<lambda>y. f y = f x) xs = None" using Cons.prems by (auto simp: find_None_iff image_iff)
  then show ?case using Cons by auto
qed simp

lemma concat_filter_cong: "(\<And>x. P x \<noteq> Q x \<Longrightarrow> F x = []) \<Longrightarrow> concat (map F (filter P xs)) = concat (map F (filter Q xs))"
  by (induction xs) auto

lemma apply_heights_replay:
  assumes "\<forall>h. map_of (by_height ap) h = find (\<lambda>b. hb_height b = h) hist"
  shows "map_option snd (apply_heights ap b hs) = replay_all b
    (concat (map (\<lambda>h. case find (\<lambda>b. hb_height b = h) hist of Some x \<Rightarrow> [x] | None \<Rightarrow> []) (filter (\<lambda>h. h \<notin> applied ap) (first_occurrences hs))))"
  using assms
proof (induction hs arbitrary: ap b)
  case (Cons h hs)
  let ?F = "\<lambda>h. case find (\<lambda>b. hb_height b = h) hist of Some x \<Rightarrow> [x] | None \<Rightarrow> []"
  let ?fo = "first_occurrences hs"
  consider (idle) "?F h = [] \<or> h \<in> applied ap" | (run) blk where "find (\<lambda>b. hb_height b = h) hist = Some blk" "h \<notin> applied ap"
    by (cases "find (\<lambda>b. hb_height b = h) hist") auto
  then show ?case
  proof cases
    case idle
    then have "apply_for_height ap b h = Some (ap, b, Inr None)"
      using Cons.prems by (auto simp: apply_for_height_def split: option.splits)
    moreover have "concat (map ?F (filter (\<lambda>h. h \<notin> applied ap) (filter (\<lambda>y. y \<noteq> h) ?fo))) = concat (map ?F (filter (\<lambda>h. h \<notin> applied ap) ?fo))"
      using idle unfolding filter_filter by (intro concat_filter_cong) auto
    ultimately show ?thesis using idle Cons.IH[OF Cons.prems, of b] by auto
  next
    case run
    let ?ap = "ap\<lparr>applied := insert h (applied ap)\<rparr>"
    have IH: "map_option snd (apply_heights ?ap b' hs) = replay_all b'
        (concat (map ?F (filter (\<lambda>x. x \<notin> applied ap) (filter (\<lambda>y. y \<noteq> h) ?fo))))" for b' :: "'a trading_scheme"
      using Cons.IH[of ?ap b'] Cons.prems by (simp add: conj_commute)
    show ?thesis
      using run Cons.prems IH by (simp add: apply_for_height_def replay_def Let_def split: option.splits sum.splits)
  qed
qed simp

section \<open>The reference fixture\<close>

text \<open>The fixture \<open>examples/seed-default.json\<close>, which is documented to replay the built-in scenario.\<close>

definition fixture_limit :: "int \<Rightarrow> account_id \<Rightarrow> side_rpc \<Rightarrow> qty \<Rightarrow> price \<Rightarrow> trade_op" where
  "fixture_limit i a sd q p = \<lparr>to_id = i, to_account = a, to_side = sd, to_qty = q, to_kind = Kind_Limit, to_price = Some p\<rparr>"

definition fixture_market :: "int \<Rightarrow> account_id \<Rightarrow> side_rpc \<Rightarrow> qty \<Rightarrow> trade_op" where
  "fixture_market i a sd q = \<lparr>to_id = i, to_account = a, to_side = sd, to_qty = q, to_kind = Kind_Market, to_price = None\<rparr>"

definition seed_default_json :: seed_fixture where
  "seed_default_json = \<lparr>sf_trades =
     [fixture_limit 1001 40 Rpc_Sell 10 110, fixture_market 1002 10 Rpc_Buy 10,
      fixture_limit 1003 40 Rpc_Sell 10 110, fixture_market 1004 20 Rpc_Buy 10,
      fixture_limit 1005 40 Rpc_Sell 30 110, fixture_market 1006 30 Rpc_Buy 30,
      fixture_limit 1007 50 Rpc_Sell 20 110, fixture_market 1008 30 Rpc_Buy 20,
      fixture_limit 2001 1 Rpc_Buy 1 95, fixture_limit 2002 2 Rpc_Sell 1 97],
     sf_deposits = map (\<lambda>(a, x). \<lparr>dep_account = a, dep_amount = x\<rparr>) [(10, 200), (20, 90), (30, 100), (40, 300), (50, 200)]\<rparr>"

definition trade_is :: "trade_op \<Rightarrow> order \<Rightarrow> bool" where
  "trade_is t ord \<longleftrightarrow> trade_order_type t = Inr (ord_type ord) \<and> trade_order t (ord_type ord) = ord"

lemma fixture_trades [simp]:
  "trade_is (fixture_limit i a Rpc_Buy q p) (limit_order i a Buy q p)" "trade_is (fixture_limit i a Rpc_Sell q p) (limit_order i a Sell q p)"
  "trade_is (fixture_market i a Rpc_Buy q) (market_order i a Buy q)" "trade_is (fixture_market i a Rpc_Sell q) (market_order i a Sell q)"
  by (simp_all add: trade_is_def trade_order_type_def trade_order_def fixture_limit_def fixture_market_def limit_order_def market_order_def)

lemma run_trades_submit_all:
  "list_all2 trade_is ts ords \<Longrightarrow> run_trades b ts n = map_option (\<lambda>(b', m). (b', Inr m)) (submit_all b ords n)"
proof (induction ts ords arbitrary: b n rule: list_all2_induct)
  case (Cons t ts ord ords)
  then show ?case by (auto simp: trade_is_def split: option.splits)
qed simp

lemma submit_all_append:
  "submit_all b (xs @ ys) n = (case submit_all b xs n of None \<Rightarrow> None | Some (b', m) \<Rightarrow> submit_all b' ys m)"
  by (induction xs arbitrary: b n) (auto split: option.splits)

lemma submit_all_count: "map_option fst (submit_all b ords n) = map_option fst (submit_all b ords m)"
proof (induction ords arbitrary: b n m)
  case (Cons ord ords)
  show ?case using Cons.IH by (auto split: option.splits)
qed simp

lemma fold_deposits: "run_deposits b (map (\<lambda>(a, x). \<lparr>dep_account = a, dep_amount = x\<rparr>) xs) = fold (\<lambda>(a, x) b. fst (bridge_deposit b a x)) xs b"
  by (induction xs arbitrary: b) (auto simp: run_deposits_def)

lemma seed_fixture_agrees: "map_option fst (replay b seed_default_json) = map_option fst (default_seed b)"
proof -
  let ?orders = "[limit_order 1001 40 Sell 10 110, market_order 1002 10 Buy 10, limit_order 1003 40 Sell 10 110, market_order 1004 20 Buy 10,
    limit_order 1005 40 Sell 30 110, market_order 1006 30 Buy 30, limit_order 1007 50 Sell 20 110, market_order 1008 30 Buy 20]"
  let ?marks = "[limit_order 2001 1 Buy 1 95, limit_order 2002 2 Sell 1 97]"
  have "list_all2 trade_is (sf_trades seed_default_json) (?orders @ ?marks)" by (simp add: seed_default_json_def)
  note run = run_trades_submit_all[OF this, of b 0, unfolded submit_all_append]
  have dep: "run_deposits b' (sf_deposits seed_default_json) = fold (\<lambda>(a, x) b. fst (bridge_deposit b a x)) seed_deposits b'" for b' :: "'a trading_scheme"
    by (simp only: seed_default_json_def seed_fixture.select_convs fold_deposits seed_deposits_def)
  show ?thesis
  proof (cases "submit_all b ?orders 0")
    case None
    then show ?thesis using run by (simp add: replay_def default_seed_def seed_accounts_via_fills_def)
  next
    case (Some r)
    obtain b1 n where r: "r = (b1, n)" by fastforce
    have "map_option fst (submit_all b1 ?marks n) = map_option fst (submit_all b1 ?marks 0)" by (rule submit_all_count)
    then show ?thesis
      using run Some unfolding r
      by (cases "submit_all b1 ?marks n"; cases "submit_all b1 ?marks 0")
        (auto simp: replay_def default_seed_def seed_accounts_via_fills_def seed_mark_orders_def dep simp del: submit_all.simps)
  qed
qed

section \<open>Properties\<close>

text \<open>C35: a chain history takes effect exactly once per block. Loading refuses a file exactly when two blocks have the same height; the
  applier then serves any sequence of heights, repeated or missing ones included, as if the fixture replayer had been run on the block of each height
  at its first occurrence, in that order, with the same errors and the same panics.\<close>

theorem history_applies_once:
  "(new_applier hist = None \<longleftrightarrow> \<not> distinct (map hb_height hist))
   \<and> (\<forall>ap. new_applier hist = Some ap \<longrightarrow> total_blocks ap = length hist \<and> heights ap = sort (map hb_height hist)
     \<and> map_option snd (apply_heights ap b hs)
         = replay_all b (concat (map (\<lambda>h. filter (\<lambda>blk. hb_height blk = h) hist) (first_occurrences hs))))"
proof (intro conjI allI impI)
  show d: "new_applier hist = None \<longleftrightarrow> \<not> distinct (map hb_height hist)"
    using index_blocks_None[of "[]" hist] by (auto simp: new_applier_def bt_ok_def)
  fix ap assume "new_applier hist = Some ap"
  then obtain m where m: "index_blocks hist [] = Some m" and ap: "ap = \<lparr>by_height = m, applied = {}\<rparr>"
    and dist: "distinct (map hb_height hist)" using d by (auto simp: new_applier_def)
  have lk: "bt_ok m" "map_of m h = find (\<lambda>b. hb_height b = h) hist" for h
    using index_blocks_lookup[OF _ m] by (auto simp: bt_ok_def split: option.splits)
  have "set (map fst m) = dom (map_of m)" by (simp add: dom_map_of_conv_image_fst)
  also have "\<dots> = set (map hb_height hist)" by (auto simp: lk(2) find_Some_iff dom_def find_None_iff)
  finally show hts: "heights ap = sort (map hb_height hist)"
    using lk(1) dist bt_ok_distinct[OF lk(1)] unfolding heights_def ap
    by (intro sorted_distinct_set_unique) (auto simp: bt_ok_def strict_sorted_iff)
  then show "total_blocks ap = length hist" unfolding total_blocks_def heights_def by (metis length_map length_sort)
  show "map_option snd (apply_heights ap b hs)
      = replay_all b (concat (map (\<lambda>h. filter (\<lambda>blk. hb_height blk = h) hist) (first_occurrences hs)))"
    using apply_heights_replay[of ap hist b hs] lk(2) by (simp add: ap find_filter[OF dist])
qed

definition demo_block :: "int \<Rightarrow> history_block" where
  "demo_block h = \<lparr>hb_height = h, hb_trades = [fixture_limit h 40 Rpc_Sell 10 (100 + h)], hb_deposits = [\<lparr>dep_account = h, dep_amount = 5\<rparr>]\<rparr>"

theorem history_applies_once_witness:
  "\<exists>ap. new_applier [demo_block 3, demo_block 1] = Some ap
     \<and> map_option snd (apply_heights ap new_trading [1, 3, 1, 7]) = replay_all new_trading [demo_block 1, demo_block 3]
     \<and> replay_all new_trading [demo_block 1, demo_block 3] \<noteq> None"
proof -
  obtain ap where ap: "new_applier [demo_block 3, demo_block 1] = Some ap"
    by (simp add: new_applier_def demo_block_def)
  have "replay_all new_trading [demo_block 1, demo_block 3] \<noteq> None" by code_simp
  moreover have "map_option snd (apply_heights ap new_trading [1, 3, 1, 7]) = replay_all new_trading [demo_block 1, demo_block 3]"
    using conjunct2[OF history_applies_once[of "[demo_block 3, demo_block 1]" new_trading "[1, 3, 1, 7]"]] ap
    by (simp add: demo_block_def)
  ultimately show ?thesis using ap by blast
qed

text \<open>The boot scenario. From an empty bridge the built-in seed produces four fills, leaves exactly the two mark orders in the book (midpoint 96)
  and the documented positions and collateral, which at the oracle price 102 are Safe, Liquidatable, Underwater, Safe and
  Safe. And the reference fixture is the same scenario: on every bridge, replaying it ends in the same state, or panics alike.\<close>

theorem default_scenario:
  "map_option (\<lambda>(b, n). (n, accounts_snapshot b, lb_clob b, current_mark b,
       map (\<lambda>a. margin_health (snapshot_of a) 102 liquidation_hyperliquid_default) (accounts_snapshot b))) (default_seed new_trading)
     = Some (4, [\<lparr>acct_id = 10, position_size = 10, avg_entry = 110, collateral = 200\<rparr>,
          \<lparr>acct_id = 20, position_size = 10, avg_entry = 110, collateral = 90\<rparr>,
          \<lparr>acct_id = 30, position_size = 50, avg_entry = 110, collateral = 100\<rparr>,
          \<lparr>acct_id = 40, position_size = -50, avg_entry = 110, collateral = 300\<rparr>,
          \<lparr>acct_id = 50, position_size = -20, avg_entry = 110, collateral = 200\<rparr>],
        \<lparr>bids = [(95, [\<lparr>ro_id = 2001, ro_account = 1, ro_qty = 1\<rparr>])], asks = [(97, [\<lparr>ro_id = 2002, ro_account = 2, ro_qty = 1\<rparr>])]\<rparr>,
        Some 96, [Safe, Liquidatable, Underwater, Safe, Safe])
   \<and> map_option fst (replay b seed_default_json) = map_option fst (default_seed b)"
  by (rule conjI, code_simp, rule seed_fixture_agrees)

end
