(* ===== verification/Devnet.thy ===== *)
theory Devnet
  imports Scenario Coordinator Engine_App
begin

text \<open>
  The devnet binary (\<open>bin/openhl/src/main.rs\<close>) as far as it is more than printing and process set-up: the synthetic price
  publishers, the hook that runs after every commit (chain history, oracle feeds, the coordinator's tick, and the application of its
  report to the accounts), booting with and without saved state, and shutting down. secp256k1 signing is the argument \<open>sg\<close>, verification the
  argument \<open>ec\<close> of the oracle. The tables of this theory that come from files are arguments, already parsed.
\<close>

section \<open>Synthetic publishers\<close>

record 'k signing =
  sk_from_slice :: "bytes \<Rightarrow> 'k option"
  sk_compressed :: "'k \<Rightarrow> bytes"
  sk_sign :: "'k \<Rightarrow> bytes \<Rightarrow> bytes"

record 'k synthetic_publisher =
  sp_feed :: feed_id
  sp_signing_key :: 'k
  sp_public_key :: publisher_key

text \<open>\<open>None\<close> is one of the panics: a zero seed, a scalar the curve refuses, a key of the wrong length.\<close>

definition from_seed :: "'k signing \<Rightarrow> feed_id \<Rightarrow> int \<Rightarrow> 'k synthetic_publisher option" where
  "from_seed sg feed seed =
     (if seed = 0 then None
      else case sk_from_slice sg (replicate 32 seed) of
             None \<Rightarrow> None
           | Some k \<Rightarrow> if length (sk_compressed sg k) \<noteq> 33 then None
                        else Some \<lparr>sp_feed = feed, sp_signing_key = k, sp_public_key = sk_compressed sg k\<rparr>)"

definition publisher_sign :: "'k signing \<Rightarrow> 'k synthetic_publisher \<Rightarrow> index_price \<Rightarrow> int \<Rightarrow> price_observation" where
  "publisher_sign sg pub p ts =
     (let unsigned = unsigned_observation (sp_feed pub) p ts
      in unsigned\<lparr>obs_signature := sk_sign sg (sp_signing_key pub) (signed_bytes unsigned)\<rparr>)"

definition SYNTHETIC_FEEDS :: "(feed_id \<times> int \<times> index_price) list" where
  "SYNTHETIC_FEEDS = [(1, 1, 101), (2, 2, 102), (3, 3, 103)]"

definition synthetic_publishers :: "'k signing \<Rightarrow> 'k synthetic_publisher list option" where
  "synthetic_publishers sg = those (map (\<lambda>(feed, seed, _). from_seed sg feed seed) SYNTHETIC_FEEDS)"

text \<open>One observation per publisher; a refused one is logged and skipped.\<close>

definition ingest_feeds ::
  "('vk, 'sig) k256 \<Rightarrow> 'k signing \<Rightarrow> 'k synthetic_publisher list \<Rightarrow> int \<Rightarrow> open_hl_node \<Rightarrow> open_hl_node" where
  "ingest_feeds ec sg pubs block_time node =
     fold (\<lambda>(pub, _, _, p) n. fst (ingest_signed_observation ec n (publisher_sign sg pub p block_time) block_time))
       (zip pubs SYNTHETIC_FEEDS) node"

section \<open>Applying a tick report to the accounts\<close>

definition apply_settlement :: "settlement \<Rightarrow> accounts_map \<Rightarrow> accounts_map" where
  "apply_settlement s accts =
     (case map_of accts (st_account s) of
        None \<Rightarrow> accts
      | Some acct \<Rightarrow> AList.update (st_account s) (acct\<lparr>collateral := sat_i64 (collateral acct + st_delta s)\<rparr>) accts)"

definition apply_liquidation :: "liquidation_record \<Rightarrow> accounts_map \<Rightarrow> accounts_map" where
  "apply_liquidation r accts =
     (let a = co_account (lr_close_order r)
      in case map_of accts a of
           None \<Rightarrow> accts
         | Some acct \<Rightarrow> (case lr_outcome r of
             SolventOutcome sc \<Rightarrow> AList.update a (acct\<lparr>position_size := 0, collateral := residual_to_account sc\<rparr>) accts
           | UnderwaterOutcome uc \<Rightarrow> AList.update a (acct\<lparr>position_size := 0, collateral := 0\<rparr>) accts))"

definition apply_adl :: "adl_record \<Rightarrow> accounts_map \<Rightarrow> accounts_map" where
  "apply_adl r accts =
     (let a = co_account (ar_close_order r)
      in case map_of accts a of
           None \<Rightarrow> accts
         | Some acct \<Rightarrow>
             let q = (if in_i64 (co_qty (ar_close_order r)) then co_qty (ar_close_order r) else i64_max);
                 new_size = (case co_side (ar_close_order r) of
                     Sell \<Rightarrow> sat_i64 (position_size acct - q)
                   | Buy \<Rightarrow> sat_i64 (position_size acct + q))
             in AList.update a (acct\<lparr>position_size := new_size, collateral := sat_i64 (collateral acct + pnl_paid r)\<rparr>) accts)"

definition apply_report :: "tick_report \<Rightarrow> accounts_map \<Rightarrow> accounts_map" where
  "apply_report report accts =
     (let funded = (case tr_funding report of None \<Rightarrow> accts | Some ft \<Rightarrow> fold apply_settlement (settlements ft) accts);
          has_liq = (sr_records (tr_liquidation report) \<noteq> []);
          has_adl = (case tr_adl report of None \<Rightarrow> False | Some a \<Rightarrow> adl_records a \<noteq> [])
      in if has_liq \<or> has_adl
         then let liquidated = fold apply_liquidation (sr_records (tr_liquidation report)) funded
              in (case tr_adl report of None \<Rightarrow> liquidated | Some a \<Rightarrow> fold apply_adl (adl_records a) liquidated)
         else funded)"

section \<open>The commit hook\<close>

record devnet =
  dv_node :: open_hl_node
  dv_applier :: "chain_history_applier option"

definition block_mark :: "'x trading_scheme \<Rightarrow> mark_price" where
  "block_mark b = (case current_mark b of Some m \<Rightarrow> m | None \<Rightarrow> 100)"

definition hook_input :: "'x trading_scheme \<Rightarrow> open_hl_node \<Rightarrow> height \<Rightarrow> int \<Rightarrow> tick_input" where
  "hook_input b node ht block_time =
     \<lparr>in_block_height = ht, in_block_time = block_time, in_mark = block_mark b,
      in_account_snapshots = map snapshot_of (accounts_snapshot b),
      in_vault_total_assets = total_assets (n_vault node)\<rparr>"

definition push_index :: "open_hl_node \<Rightarrow> int \<Rightarrow> 'x trading_scheme \<Rightarrow> 'x trading_scheme" where
  "push_index node block_time b =
     (case current_price_fresh_at (n_oracle node) block_time of
        Some index \<Rightarrow> set_oracle_index_price b index
      | None \<Rightarrow> clear_oracle_index_price b)"

text \<open>The part of the hook after the chain history, then the hook. The \<open>bool\<close> tells whether it returned \<open>Ok\<close>.\<close>

definition hook_tick ::
  "('vk, 'sig) k256 \<Rightarrow> 'k signing \<Rightarrow> 'k synthetic_publisher list \<Rightarrow> 'x trading_scheme \<Rightarrow> open_hl_node \<Rightarrow> height \<Rightarrow> int
     \<Rightarrow> 'x trading_scheme \<times> open_hl_node" where
  "hook_tick ec sg pubs b node ht block_time =
     (let node1 = ingest_feeds ec sg pubs block_time node;
          (node2, report) = tick node1 (hook_input b node1 ht block_time);
          b2 = push_index node2 block_time b
      in (b2\<lparr>lb_accounts := apply_report report (lb_accounts b2)\<rparr>, node2))"

definition on_committed ::
  "('vk, 'sig) k256 \<Rightarrow> 'k signing \<Rightarrow> 'k synthetic_publisher list \<Rightarrow> 'x trading_scheme \<Rightarrow> devnet \<Rightarrow> block_hash \<Rightarrow> height \<Rightarrow> int
     \<Rightarrow> 'x trading_scheme \<times> devnet \<times> bool" where
  "on_committed ec sg pubs b d h ht block_time =
     (let history = (case dv_applier d of
            None \<Rightarrow> Some (None, b, True)
          | Some ap \<Rightarrow> map_option (\<lambda>(ap', b', r). (Some ap', b', \<not> isl r)) (apply_for_height ap b ht))
      in case history of
           None \<Rightarrow> (b, d, False)
         | Some (ap, b1, ok) \<Rightarrow>
             if \<not> ok then (b1, d\<lparr>dv_applier := ap\<rparr>, False)
             else let (b2, node) = hook_tick ec sg pubs b1 (dv_node d) ht block_time
                  in (b2, \<lparr>dv_node = node, dv_applier = ap\<rparr>, True))"

section \<open>Boot and shutdown\<close>

record boot_files =
  bf_bridge :: "bridge_snapshot option"
  bf_coordinator :: "coordinator_snapshot option"
  bf_history :: "history_block list option"
  bf_fixture :: "seed_fixture option"

datatype boot_error = DuplicateHeight | FixtureFailed replay_error | Panicked

text \<open>The devnet shortens the funding interval to one second.\<close>

definition devnet_config :: node_config where
  "devnet_config = node_hyperliquid_default\<lparr>cfg_funding_params := (cfg_funding_params node_hyperliquid_default)\<lparr>interval_secs := 1\<rparr>\<rparr>"

definition boot_bridge :: "bridge_snapshot option \<Rightarrow> live_bridge \<times> block_hash option \<times> int" where
  "boot_bridge snap =
     (let bridge = with_liquidation_params new_live (cfg_liquidation_params node_hyperliquid_default)
      in case snap of
           Some sn \<Rightarrow> (lv_load_snapshot bridge sn, bsn_head sn, min (int (length (bsn_chain sn))) u64_max)
         | None \<Rightarrow> (bridge, None, 0))"

definition boot_coordinator :: "coordinator_snapshot option \<Rightarrow> 'k synthetic_publisher list \<Rightarrow> open_hl_node" where
  "boot_coordinator snap pubs =
     (let node = new_node devnet_config;
          node1 = (case snap of Some sn \<Rightarrow> node_load_snapshot node sn | None \<Rightarrow> node)
      in fold (\<lambda>pub n. node_register_publisher n (sp_feed pub) (sp_public_key pub)) pubs node1)"

text \<open>With a chain history nothing is seeded; saved accounts get the mark orders only; otherwise the fixture or the built-in scenario.\<close>

definition boot_seed ::
  "chain_history_applier option \<Rightarrow> seed_fixture option \<Rightarrow> 'x trading_scheme \<Rightarrow> boot_error + 'x trading_scheme" where
  "boot_seed history fixture b =
     (if history \<noteq> None then Inr b
      else if accounts_snapshot b \<noteq> []
      then (case seed_mark_orders b of None \<Rightarrow> Inl Panicked | Some b' \<Rightarrow> Inr b')
      else case fixture of
             Some fx \<Rightarrow> (case replay b fx of
                 None \<Rightarrow> Inl Panicked
               | Some (_, Inl e) \<Rightarrow> Inl (FixtureFailed e)
               | Some (b', Inr _) \<Rightarrow> Inr b')
           | None \<Rightarrow> (case default_seed b of None \<Rightarrow> Inl Panicked | Some (b', _) \<Rightarrow> Inr b'))"

definition boot ::
  "'k signing \<Rightarrow> block_hash \<Rightarrow> boot_files \<Rightarrow>
     boot_error + live_bridge \<times> devnet \<times> 'k synthetic_publisher list \<times> block_hash \<times> height" where
  "boot sg genesis_parent files =
     (let (bridge, resume_parent, prior_decisions) = boot_bridge (bf_bridge files);
          initial_parent = (case resume_parent of Some h \<Rightarrow> h | None \<Rightarrow> genesis_parent);
          initial_height = sat_u64 (prior_decisions + 1)
      in case synthetic_publishers sg of
           None \<Rightarrow> Inl Panicked
         | Some pubs \<Rightarrow>
             let node = boot_coordinator (bf_coordinator files) pubs
             in case (case bf_history files of None \<Rightarrow> Inr None
                      | Some hist \<Rightarrow> (case new_applier hist of None \<Rightarrow> Inl DuplicateHeight | Some ap \<Rightarrow> Inr (Some ap))) of
                  Inl e \<Rightarrow> Inl e
                | Inr history \<Rightarrow> (case boot_seed history (bf_fixture files) bridge of
                    Inl e \<Rightarrow> Inl e
                  | Inr b \<Rightarrow> Inr (b, \<lparr>dv_node = node, dv_applier = history\<rparr>, pubs, initial_parent, initial_height)))"

definition shutdown :: "live_bridge \<Rightarrow> devnet \<Rightarrow> bridge_snapshot \<times> coordinator_snapshot" where
  "shutdown b d = (lv_snapshot b, node_snapshot (dv_node d))"

section \<open>Updates of table entries\<close>

text \<open>The three loops over a report have one shape: each record updates the entry of its account, if there is one.\<close>

definition adjust :: "('r \<Rightarrow> 'k) \<Rightarrow> ('r \<Rightarrow> 'v \<Rightarrow> 'v) \<Rightarrow> 'r \<Rightarrow> ('k, 'v) hash_map \<Rightarrow> ('k, 'v) hash_map" where
  "adjust key upd r m = (case map_of m (key r) of None \<Rightarrow> m | Some x \<Rightarrow> AList.update (key r) (upd r x) m)"

lemma map_of_adjust_fold:
  "map_of (fold (adjust key upd) rs m) a = map_option (fold upd (filter (\<lambda>r. key r = a) rs)) (map_of m a)"
proof (induction rs arbitrary: m)
  case (Cons r rs)
  then show ?case by (auto simp: adjust_def update_conv' split: option.splits)
qed (simp add: option.map_id)

lemma accounts_ok_adjust:
  assumes "\<And>r acct. account_ok acct \<Longrightarrow> account_ok (upd r acct) \<and> acct_id (upd r acct) = acct_id acct"
  shows "accounts_ok m \<Longrightarrow> accounts_ok (fold (adjust key upd) rs m)"
proof (induction rs arbitrary: m)
  case (Cons r rs)
  have "accounts_ok (adjust key upd r m)"
    using assms accounts_okD[OF Cons.prems] Cons.prems by (auto simp: adjust_def intro: accounts_ok_update split: option.splits)
  then show ?case using Cons.IH by simp
qed simp

definition settle_acct :: "settlement \<Rightarrow> account \<Rightarrow> account" where
  "settle_acct s acct = acct\<lparr>collateral := sat_i64 (collateral acct + st_delta s)\<rparr>"

definition close_acct :: "liquidation_record \<Rightarrow> account \<Rightarrow> account" where
  "close_acct r acct = acct\<lparr>position_size := 0,
     collateral := (case lr_outcome r of SolventOutcome sc \<Rightarrow> residual_to_account sc | UnderwaterOutcome uc \<Rightarrow> 0)\<rparr>"

definition deleverage_acct :: "adl_record \<Rightarrow> account \<Rightarrow> account" where
  "deleverage_acct r acct =
     (let q = (if in_i64 (co_qty (ar_close_order r)) then co_qty (ar_close_order r) else i64_max)
      in acct\<lparr>position_size := (case co_side (ar_close_order r) of Sell \<Rightarrow> sat_i64 (position_size acct - q) | Buy \<Rightarrow> sat_i64 (position_size acct + q)),
              collateral := sat_i64 (collateral acct + pnl_paid r)\<rparr>)"

lemma adjust_instances:
  "apply_settlement = adjust st_account settle_acct"
  "apply_liquidation = adjust (\<lambda>r. co_account (lr_close_order r)) close_acct"
  "apply_adl = adjust (\<lambda>r. co_account (ar_close_order r)) deleverage_acct"
  by (auto simp: fun_eq_iff apply_settlement_def apply_liquidation_def apply_adl_def adjust_def settle_acct_def close_acct_def
      deleverage_acct_def Let_def split: option.splits close_outcome_kind.splits side.splits)

definition funding_of :: "tick_report \<Rightarrow> settlement list" where
  "funding_of report = (case tr_funding report of None \<Rightarrow> [] | Some ft \<Rightarrow> settlements ft)"

definition adl_of :: "tick_report \<Rightarrow> adl_record list" where
  "adl_of report = (case tr_adl report of None \<Rightarrow> [] | Some a \<Rightarrow> adl_records a)"

lemma apply_report_fold:
  "apply_report report accts = fold apply_adl (adl_of report) (fold apply_liquidation (sr_records (tr_liquidation report))
     (fold apply_settlement (funding_of report) accts))"
  by (auto simp: apply_report_def funding_of_def adl_of_def Let_def split: option.splits)

lemma apply_report_lookup:
  "map_of (apply_report report accts) a = map_option
     (\<lambda>acct. fold deleverage_acct (filter (\<lambda>r. co_account (ar_close_order r) = a) (adl_of report))
        (fold close_acct (filter (\<lambda>r. co_account (lr_close_order r) = a) (sr_records (tr_liquidation report)))
          (fold settle_acct (filter (\<lambda>s. st_account s = a) (funding_of report)) acct))) (map_of accts a)"
  unfolding apply_report_fold adjust_instances map_of_adjust_fold by (cases "map_of accts a") simp_all

lemma apply_report_ok:
  assumes "accounts_ok m" "\<forall>r \<in> set (sr_records (tr_liquidation report)). case lr_outcome r of
      SolventOutcome sc \<Rightarrow> in_i64 (residual_to_account sc) | UnderwaterOutcome uc \<Rightarrow> True"
  shows "accounts_ok (apply_report report m)"
proof -
  have 1: "accounts_ok (fold apply_settlement (funding_of report) m)"
    unfolding adjust_instances using assms(1) by (intro accounts_ok_adjust) (auto simp: settle_acct_def account_ok_def)
  have closes: "accounts_ok (fold apply_liquidation rs m')"
    if "\<forall>r \<in> set rs. case lr_outcome r of SolventOutcome sc \<Rightarrow> in_i64 (residual_to_account sc) | UnderwaterOutcome uc \<Rightarrow> True" "accounts_ok m'"
    for rs m'
    using that
  proof (induction rs arbitrary: m')
    case (Cons r rs)
    have "accounts_ok (apply_liquidation r m')"
      using Cons.prems accounts_okD[OF Cons.prems(2)]
      by (auto simp: apply_liquidation_def account_ok_def in_i64_def Let_def intro!: accounts_ok_update split: option.splits close_outcome_kind.splits)
    then show ?case using Cons by simp
  qed simp
  show ?thesis
    unfolding apply_report_fold adjust_instances(3)
    using closes[OF assms(2) 1] by (intro accounts_ok_adjust) (auto simp: deleverage_acct_def account_ok_def Let_def split: side.splits)
qed

section \<open>The hook keeps the tables and the coordinator well-formed\<close>

definition devnet_ok :: "devnet \<Rightarrow> bool" where
  "devnet_ok d \<longleftrightarrow> (\<forall>ap. dv_applier d = Some ap \<longrightarrow> applier_ok ap)"

lemma push_index_frame [simp]:
  "lb_accounts (push_index n t b) = lb_accounts b" "lb_clob (push_index n t b) = lb_clob b"
  "trading.more (push_index n t b) = trading.more b" "lb_liquidation_params (push_index n t b) = lb_liquidation_params b"
  by (auto simp: push_index_def set_oracle_index_price_def clear_oracle_index_price_def split: option.splits)

lemma hook_tick_tables:
  assumes "tables_ok b" "hook_tick ec sg pubs b node ht t = (b', node')"
  shows "tables_ok b' \<and> trading.more b' = trading.more b"
proof -
  let ?n1 = "ingest_feeds ec sg pubs t node"
  let ?r = "snd (tick ?n1 (hook_input b ?n1 ht t))"
  have b': "b' = (push_index node' t b)\<lparr>lb_accounts := apply_report ?r (lb_accounts (push_index node' t b))\<rparr>"
    using assms(2) by (auto simp: hook_tick_def Let_def case_prod_beta)
  have "\<forall>x \<in> set (sr_records (tr_liquidation ?r)). case lr_outcome x of
      SolventOutcome sc \<Rightarrow> in_i64 (residual_to_account sc) | UnderwaterOutcome uc \<Rightarrow> True"
    by (auto simp: tick_parts scan_records record_of_def solvent_close_outcome_def Let_def split: close_outcome_kind.splits)
  then show ?thesis using assms(1) by (auto simp: b' tables_ok_def apply_report_ok)
qed

lemma on_committed_tables:
  assumes "tables_ok b" "devnet_ok d" "on_committed ec sg pubs b d h ht t = (b', d', ok)"
  shows "ok \<and> tables_ok b' \<and> devnet_ok d' \<and> trading.more b' = trading.more b"
proof (cases "dv_applier d")
  case None
  then show ?thesis
    using assms(1,3) hook_tick_tables[OF assms(1), of ec sg pubs "dv_node d" ht t]
    by (cases "hook_tick ec sg pubs b (dv_node d) ht t") (auto simp: on_committed_def devnet_ok_def)
next
  case (Some ap)
  obtain ap' b1 c where a: "apply_for_height ap b ht = Some (ap', b1, Inr c)" "tables_ok b1" "applier_ok ap'"
    using apply_for_height_tables[OF assms(1)] assms(2) Some by (metis devnet_ok_def)
  show ?thesis
    using assms(3) Some a hook_tick_tables[OF a(2), of ec sg pubs "dv_node d" ht t] apply_for_height_more[OF a(1)]
    by (cases "hook_tick ec sg pubs b1 (dv_node d) ht t") (auto simp: on_committed_def devnet_ok_def)
qed

text \<open>On the coordinator the hook is a sequence of its own steps.\<close>

lemma ingest_steps:
  assumes "in_u64 t"
  shows "(node_step ec)\<^sup>*\<^sup>* n (ingest_feeds ec (sg :: 'k signing) pubs t n)"
proof -
  have one: "node_step ec n (fst (ingest_signed_observation ec n (publisher_sign sg pub p t) t))" if "in_u64 p" for n pub p
    using that assms node_oracle[of "IngestSigned (publisher_sign sg pub p t) t" ec n]
    by (simp add: event_ok_def publisher_sign_def unsigned_observation_def ingest_signed_observation_def case_prod_beta Let_def)
  have "(node_step ec)\<^sup>*\<^sup>* n (fold (\<lambda>(pub, _, _, p) n. fst (ingest_signed_observation ec n (publisher_sign sg pub p t) t)) xs n)"
    if "\<forall>(pub, f, s, p) \<in> set xs. in_u64 p" for xs :: "('k synthetic_publisher \<times> feed_id \<times> int \<times> index_price) list"
    using that
  proof (induction xs arbitrary: n)
    case (Cons x xs)
    obtain pub f s p where x: "x = (pub, f, s, p)" by (cases x)
    show ?case using Cons one[of p n pub] by (force simp: x intro: converse_rtranclp_into_rtranclp)
  qed simp
  moreover have "\<forall>(pub, f, s, p) \<in> set (zip pubs SYNTHETIC_FEEDS). in_u64 p"
    by (auto simp: SYNTHETIC_FEEDS_def in_u64_def dest!: set_zip_rightD)
  ultimately show ?thesis unfolding ingest_feeds_def by blast
qed

lemma hook_steps:
  assumes "in_u64 t" "node_ok node" "hook_tick ec sg pubs b node ht t = (b', node')"
  shows "(node_step ec)\<^sup>*\<^sup>* node node'"
proof -
  let ?n1 = "ingest_feeds ec sg pubs t node"
  have n: "node' = fst (tick ?n1 (hook_input b ?n1 ht t))" using assms(3) by (auto simp: hook_tick_def Let_def case_prod_beta)
  note st = ingest_steps[OF assms(1), of ec node sg pubs]
  have "node_ok ?n1" using reachable_ok[OF st assms(2)] by simp
  then have "in_i64 (in_vault_total_assets (hook_input b ?n1 ht t))" by (simp add: hook_input_def node_ok_def vault_ok_def)
  then have "node_step ec ?n1 node'" unfolding n by (rule node_tick)
  with st show ?thesis by simp
qed

lemma on_committed_node:
  assumes "on_committed ec sg pubs b d h ht t = (b', d', ok)" "in_u64 t" "node_ok (dv_node d)"
  shows "(node_step ec)\<^sup>*\<^sup>* (dv_node d) (dv_node d')"
  using assms hook_steps[OF assms(2,3), of ec sg pubs]
  by (auto simp: on_committed_def Let_def split: option.splits if_splits prod.splits)

section \<open>The hook sees the bridge through its view\<close>

definition of_view :: "trading_view \<Rightarrow> trading" where
  "of_view v = (case v of (bk, accts, ps, idx) \<Rightarrow>
     \<lparr>lb_clob = bk, lb_pending_fills = [], lb_accounts = accts, lb_liquidation_params = ps, lb_oracle_index_price = idx\<rparr>)"

lemma of_view [simp]: "trading_view (of_view v) = v"
  by (cases v) (simp add: of_view_def trading_view_def)

lemma tables_ok_view: "trading_view b = trading_view c \<Longrightarrow> tables_ok b = tables_ok c"
  by (simp add: tables_ok_def trading_view_def)

lemma push_index_view: "trading_view b = trading_view c \<Longrightarrow> trading_view (push_index n t b) = trading_view (push_index n t c)"
  by (auto simp: push_index_def trading_view_def set_oracle_index_price_def clear_oracle_index_price_def split: option.splits)

lemma hook_tick_view:
  assumes "trading_view b = trading_view c" "hook_tick ec sg pubs b node ht t = (b', n)" "hook_tick ec sg pubs c node ht t = (c', m)"
  shows "trading_view b' = trading_view c' \<and> n = m"
proof -
  have cl: "lb_clob b = lb_clob c" "lb_accounts b = lb_accounts c" using assms(1) by (simp_all add: trading_view_def)
  have "block_mark b = block_mark c" "accounts_snapshot b = accounts_snapshot c"
    unfolding block_mark_def current_mark_def accounts_snapshot_def cl by (rule refl)+
  then have inp: "hook_input b nd ht t = hook_input c nd ht t" for nd by (simp add: hook_input_def)
  show ?thesis
    using assms push_index_view[OF assms(1)]
    by (auto simp: hook_tick_def inp Let_def case_prod_beta trading_view_def)
qed

lemma on_committed_view:
  assumes "trading_view b = trading_view c" "tables_ok b" "devnet_ok d"
    and "on_committed ec sg pubs b d h ht t = (b', d1, ok)" "on_committed ec sg pubs c d h ht t = (c', d2, ok')"
  shows "trading_view b' = trading_view c' \<and> d1 = d2"
proof (cases "dv_applier d")
  case None
  then show ?thesis
    using assms(4,5) hook_tick_view[OF assms(1), of ec sg pubs "dv_node d" ht t]
    by (auto simp: on_committed_def split: prod.splits)
next
  case (Some ap)
  obtain ap' b1 x where a: "apply_for_height ap b ht = Some (ap', b1, Inr x)"
    using apply_for_height_tables[OF assms(2)] assms(3) Some by (metis devnet_ok_def)
  then obtain c1 where c: "apply_for_height ap c ht = Some (ap', c1, Inr x)" "trading_view b1 = trading_view c1"
    using apply_for_height_view[OF assms(1), of ap ht] by (cases "apply_for_height ap c ht") auto
  show ?thesis
    using assms(4,5) Some a c(1) hook_tick_view[OF c(2), of ec sg pubs "dv_node d" ht t]
    by (auto simp: on_committed_def split: prod.splits)
qed

text \<open>What one committed block does to the view and the devnet state.\<close>

definition block_effect ::
  "('vk, 'sig) k256 \<Rightarrow> 'k signing \<Rightarrow> 'k synthetic_publisher list \<Rightarrow> block_hash \<times> height \<times> int \<Rightarrow> trading_view \<times> devnet
     \<Rightarrow> trading_view \<times> devnet" where
  "block_effect ec sg pubs call vd = (case call of (h, ht, t) \<Rightarrow> case vd of (v, d) \<Rightarrow>
     (case on_committed ec sg pubs (of_view v) d h ht t of (b', d', _) \<Rightarrow> (trading_view b', d')))"

definition devnet_inv :: "trading_view \<Rightarrow> devnet \<Rightarrow> bool" where
  "devnet_inv v d \<longleftrightarrow> tables_ok (of_view v) \<and> devnet_ok d"

lemma payload_side_more: "trading.more b' = trading.more b \<Longrightarrow> payload_side b' = payload_side b"
  by (cases b; cases b') (simp add: payload_side_def)

lemma hook_follows_devnet: "hook_follows devnet_inv (block_effect ec sg pubs) (on_committed ec sg pubs)"
  unfolding hook_follows_def
proof (intro allI impI)
  fix s s' :: live_bridge and d h ht t d' ok
  assume inv: "devnet_inv (trading_view s) d" and e: "on_committed ec sg pubs s d h ht t = (s', d', ok)"
  have v: "trading_view s = trading_view (of_view (trading_view s))" by simp
  have s: "tables_ok s" "devnet_ok d" using inv tables_ok_view[OF v] by (simp_all add: devnet_inv_def)
  obtain c' d2 ok2 where c: "on_committed ec sg pubs (of_view (trading_view s)) d h ht t = (c', d2, ok2)"
    by (cases "on_committed ec sg pubs (of_view (trading_view s)) d h ht t")
  note k = on_committed_tables[OF s e] on_committed_view[OF v s e c]
  have "tables_ok (of_view (trading_view s'))" using k(1) tables_ok_view[of s' "of_view (trading_view s')"] by simp
  moreover have "payload_side s' = payload_side s" using k(1) by (intro payload_side_more) simp
  ultimately show "ok \<and> payload_side s' = payload_side s \<and> devnet_inv (trading_view s') d'
      \<and> (trading_view s', d') = block_effect ec sg pubs (h, ht, t) (trading_view s, d)"
    using k c by (simp add: devnet_inv_def block_effect_def)
qed

section \<open>What the hook does to one account\<close>

lemma filter_unique: "distinct (map key xs) \<Longrightarrow> x \<in> set xs \<Longrightarrow> filter (\<lambda>y. key y = key x) xs = [x]"
  by (induction xs) (auto simp: filter_empty_conv image_iff)

lemma filter_map_unique:
  assumes "distinct (map key xs)" "x \<in> set xs" "\<And>y. key' (f y) = key y"
  shows "filter (\<lambda>r. key' r = key x) (map f (filter Q xs)) = (if Q x then [f x] else [])"
proof -
  have "filter (\<lambda>r. key' r = key x) (map f (filter Q xs)) = map f (filter Q (filter (\<lambda>y. key y = key x) xs))"
    by (simp add: filter_map comp_def assms(3) filter_filter conj_commute)
  then show ?thesis by (simp add: filter_unique[OF assms(1,2)])
qed

lemma ingest_feeds_frame:
  "n_scanner (ingest_feeds ec sg pubs t n) = n_scanner n" "n_config (ingest_feeds ec sg pubs t n) = n_config n"
proof -
  have "n_scanner (fold (\<lambda>(pub, _, _, p) n. fst (ingest_signed_observation ec n (publisher_sign sg pub p t) t)) xs n) = n_scanner n
    \<and> n_config (fold (\<lambda>(pub, _, _, p) n. fst (ingest_signed_observation ec n (publisher_sign sg pub p t) t)) xs n) = n_config n" for xs
    by (induction xs arbitrary: n) (auto simp: ingest_signed_observation_def case_prod_beta Let_def)
  then show "n_scanner (ingest_feeds ec sg pubs t n) = n_scanner n" "n_config (ingest_feeds ec sg pubs t n) = n_config n"
    unfolding ingest_feeds_def by blast+
qed

lemma snapshots_distinct:
  assumes "accounts_ok (lb_accounts b)"
  shows "distinct (map snap_account (map snapshot_of (accounts_snapshot b)))"
proof -
  have "map snap_account (map snapshot_of (accounts_snapshot b)) = map acct_id (accounts_snapshot b)" by simp
  moreover have "distinct (map acct_id (accounts_snapshot b))"
    unfolding accounts_snapshot_def using accounts_inj(2)[OF assms] by (metis distinct_map distinct_sort set_sort)
  ultimately show ?thesis by (simp only:)
qed

lemma snapshot_member:
  assumes "accounts_ok (lb_accounts b)" "map_of (lb_accounts b) a = Some acct"
  shows "snapshot_of acct \<in> set (map snapshot_of (accounts_snapshot b))" "snap_account (snapshot_of acct) = a"
  using assms accounts_okD[OF assms] by (force simp: accounts_snapshot_set dest: map_of_SomeD)+

lemma clock_settlements:
  "snd (clock_tick c now mark idx ps) = Some ft \<Longrightarrow> settlements ft = [] \<or>
     (\<exists>rate. settlements ft = map (settle_position mark rate) (filter (\<lambda>p. pos_size p \<noteq> 0) ps))"
  by (auto simp: clock_tick_def apply_funding_def Let_def split: if_splits)

lemma funding_distinct:
  assumes "distinct (map snap_account (in_account_snapshots inp))"
  shows "distinct (map st_account (funding_of (snd (tick n inp))))"
proof -
  have k: "map st_account (map (settle_position mark rate) (filter (\<lambda>p. pos_size p \<noteq> 0) (map position_of xs)))
      = map snap_account (filter (\<lambda>s. snap_position_size s \<noteq> 0) xs)" for mark rate xs
    by (induction xs) (auto simp: settle_position_def position_of_def Let_def)
  show ?thesis
    using assms by (auto simp: funding_of_def tick_parts k distinct_map_filter simp del: map_map filter_map
        split: option.splits dest!: clock_settlements)
qed

text \<open>Deleveraging touches an account once, with the order that closes its snapshot.\<close>

lemma adl_loop_accounts:
  "\<exists>n. map (\<lambda>r. ar_close_order r) (adl_records (snd (adl_loop ranked d rep))) =
     map (\<lambda>r. ar_close_order r) (adl_records rep) @ map (close_order_spec_of \<circ> fst) (take n ranked)"
proof (induction ranked d rep rule: adl_loop.induct)
  case (1 d rep)
  then show ?case by simp
next
  case (2 s score pnl rest d rep)
  show ?case
  proof (cases "d \<le> 0")
    case True
    then show ?thesis by (intro exI[of _ 0]) simp
  next
    case False
    let ?cut = "min d pnl"
    let ?rep = "rep\<lparr>adl_records := adl_records rep @ [\<lparr>ar_account = snap_account s, ar_close_order = close_order_spec_of s, pnl_gross = pnl,
      haircut = ?cut, pnl_paid = sat_i64 (pnl - ?cut), ar_score = score\<rparr>], deficit_absorbed := sat_i64 (deficit_absorbed rep + ?cut)\<rparr>"
    obtain n where "map (\<lambda>r. ar_close_order r) (adl_records (snd (adl_loop rest (sat_i64 (d - ?cut)) ?rep))) =
        map (\<lambda>r. ar_close_order r) (adl_records ?rep) @ map (close_order_spec_of \<circ> fst) (take n rest)"
      using 2[OF False refl refl refl] by (elim exE)
    moreover have "adl_loop ((s, score, pnl) # rest) d rep = adl_loop rest (sat_i64 (d - ?cut)) ?rep"
      unfolding adl_loop.simps(2) Let_def by (rule if_not_P[OF False])
    ultimately show ?thesis by (intro exI[of _ "Suc n"]) (simp del: adl_loop.simps)
  qed
qed

lemma adl_orders:
  assumes "distinct (map snap_account candidates)"
  shows "distinct (map (\<lambda>r. co_account (ar_close_order r)) (adl_records (execute_adl candidates mark d)))"
    and "r \<in> set (adl_records (execute_adl candidates mark d)) \<Longrightarrow> \<exists>s \<in> set candidates. ar_close_order r = close_order_spec_of s"
proof -
  let ?ranked = "rank_candidates candidates mark"
  obtain n where n: "map (\<lambda>r. ar_close_order r) (adl_records (execute_adl candidates mark d)) = map (close_order_spec_of \<circ> fst) (take n ?ranked)"
  proof (cases "d \<le> 0")
    case True
    then show thesis using that[of 0] by (simp add: execute_adl_def)
  next
    case False
    then show thesis
      using that adl_loop_accounts[of ?ranked d "\<lparr>adl_records = [], deficit_absorbed = 0, deficit_remaining = 0\<rparr>"]
      by (auto simp: execute_adl_def Let_def case_prod_beta)
  qed
  have "mset (map (snap_account \<circ> fst) ?ranked) = mset (map snap_account (filter (eligible mark) candidates))"
    by (simp add: rank_candidates_mset mset_map[symmetric] multiset.map_comp comp_def)
  then have "distinct (map (snap_account \<circ> fst) ?ranked)"
    using assms by (metis distinct_map_filter mset_eq_imp_distinct_iff)
  then have dt: "distinct (map (snap_account \<circ> fst) (take n ?ranked))" by (metis distinct_take take_map)
  have "map (\<lambda>r. co_account (ar_close_order r)) (adl_records (execute_adl candidates mark d))
      = map co_account (map (\<lambda>r. ar_close_order r) (adl_records (execute_adl candidates mark d)))" by simp
  also have "\<dots> = map (snap_account \<circ> fst) (take n ?ranked)"
    unfolding n by (simp add: case_prod_beta close_order_spec_of_def)
  finally show "distinct (map (\<lambda>r. co_account (ar_close_order r)) (adl_records (execute_adl candidates mark d)))" using dt by simp
  assume "r \<in> set (adl_records (execute_adl candidates mark d))"
  then have "ar_close_order r \<in> set (map (close_order_spec_of \<circ> fst) (take n ?ranked))" unfolding n[symmetric] by simp
  then show "\<exists>s \<in> set candidates. ar_close_order r = close_order_spec_of s"
    by (auto dest!: in_set_takeD rank_candidates_set)
qed

text \<open>The records of a report that concern one account.\<close>

definition funding_delta :: "tick_report \<Rightarrow> account_id \<Rightarrow> int" where
  "funding_delta report a = (case find (\<lambda>s. st_account s = a) (funding_of report) of None \<Rightarrow> 0 | Some s \<Rightarrow> st_delta s)"

definition hook_report ::
  "('vk, 'sig) k256 \<Rightarrow> 'k signing \<Rightarrow> 'k synthetic_publisher list \<Rightarrow> 'x trading_scheme \<Rightarrow> open_hl_node \<Rightarrow> height \<Rightarrow> int \<Rightarrow> tick_report" where
  "hook_report ec sg pubs b node ht t =
     (let node1 = ingest_feeds ec sg pubs t node in snd (tick node1 (hook_input b node1 ht t)))"

definition hook_mark ::
  "('vk, 'sig) k256 \<Rightarrow> 'k signing \<Rightarrow> 'k synthetic_publisher list \<Rightarrow> 'x trading_scheme \<Rightarrow> open_hl_node \<Rightarrow> height \<Rightarrow> int \<Rightarrow> mark_price" where
  "hook_mark ec sg pubs b node ht t =
     (let node1 = ingest_feeds ec sg pubs t node in solvency_mark node1 (hook_input b node1 ht t))"

lemma hook_tick_accounts:
  "lb_accounts (fst (hook_tick ec sg pubs b node ht t)) = apply_report (hook_report ec sg pubs b node ht t) (lb_accounts b)"
  by (simp add: hook_tick_def hook_report_def Let_def case_prod_beta)

lemma settle_one:
  assumes "distinct (map st_account (funding_of report))" "in_i64 (collateral acct)"
  shows "fold settle_acct (filter (\<lambda>s. st_account s = a) (funding_of report)) acct
    = acct\<lparr>collateral := sat_i64 (collateral acct + funding_delta report a)\<rparr>"
  unfolding find_filter[OF assms(1)] funding_delta_def using assms(2)
  by (auto simp: settle_acct_def sat_i64_eq split: option.splits)

lemma close_one:
  assumes "accounts_ok (lb_accounts b)" "map_of (lb_accounts b) a = Some acct"
  shows "filter (\<lambda>r. co_account (lr_close_order r) = a) (sr_records (tr_liquidation (hook_report ec sg pubs b node ht t)))
    = (if liquidated (ls_params (n_scanner node)) (hook_mark ec sg pubs b node ht t) (snapshot_of acct)
       then [record_of (ls_params (n_scanner node)) (hook_mark ec sg pubs b node ht t) (snapshot_of acct)] else [])"
  using filter_map_unique[OF snapshots_distinct[OF assms(1)] snapshot_member(1)[OF assms],
      where key' = "\<lambda>r. co_account (lr_close_order r)" and f = "record_of (ls_params (n_scanner node)) (hook_mark ec sg pubs b node ht t)"
        and Q = "liquidated (ls_params (n_scanner node)) (hook_mark ec sg pubs b node ht t)"] snapshot_member(2)[OF assms]
  by (simp add: hook_report_def hook_mark_def Let_def tick_parts scan_records hook_input_def ingest_feeds_frame record_of_def
      close_order_spec_of_def)

lemma adl_one:
  assumes "accounts_ok (lb_accounts b)" "map_of (lb_accounts b) a = Some acct"
    and "r \<in> set (adl_of (hook_report ec sg pubs b node ht t))" "co_account (ar_close_order r) = a"
  shows "filter (\<lambda>r. co_account (ar_close_order r) = a) (adl_of (hook_report ec sg pubs b node ht t)) = [r]"
    and "ar_close_order r = close_order_spec_of (snapshot_of acct)"
proof -
  let ?snaps = "map snapshot_of (accounts_snapshot b)"
  obtain mark d where adl: "adl_of (hook_report ec sg pubs b node ht t) = adl_records (execute_adl ?snaps mark d)"
    using assms(3) by (auto simp: hook_report_def adl_of_def Let_def tick_parts hook_input_def split: if_splits)
  note ord = adl_orders[OF snapshots_distinct[OF assms(1)], where mark = mark and d = d]
  show "filter (\<lambda>r. co_account (ar_close_order r) = a) (adl_of (hook_report ec sg pubs b node ht t)) = [r]"
    using filter_unique[OF ord(1), of r] assms(3,4) unfolding adl by simp
  obtain s where s: "s \<in> set ?snaps" "ar_close_order r = close_order_spec_of s" using ord(2) assms(3) unfolding adl by blast
  then have "snap_account s = snap_account (snapshot_of acct)"
    using assms(4) snapshot_member(2)[OF assms(1,2)] by (simp add: close_order_spec_of_def)
  then have "s = snapshot_of acct"
    using snapshots_distinct[OF assms(1)] s(1) snapshot_member(1)[OF assms(1,2)] by (metis distinct_map inj_onD)
  then show "ar_close_order r = close_order_spec_of (snapshot_of acct)" using s(2) by simp
qed

lemma adl_none:
  assumes "\<forall>r \<in> set (adl_of report). co_account (ar_close_order r) \<noteq> a"
  shows "filter (\<lambda>r. co_account (ar_close_order r) = a) (adl_of report) = []"
  using assms by (simp add: filter_empty_conv)

lemma deleverage_closes:
  assumes "ar_close_order r = close_order_spec_of (snapshot_of acct)" "position_size x = position_size acct"
    and "in_i64 (position_size acct)" "position_size acct \<noteq> i64_min"
  shows "deleverage_acct r x = x\<lparr>position_size := 0, collateral := sat_i64 (collateral x + pnl_paid r)\<rparr>"
  using assms by (auto simp: deleverage_acct_def close_order_spec_of_def in_i64_def sat_def Let_def)

section \<open>Restarting\<close>

definition mark_book :: book where
  "mark_book = \<lparr>bids = [(95, [\<lparr>ro_id = 2001, ro_account = 1, ro_qty = 1\<rparr>])], asks = [(97, [\<lparr>ro_id = 2002, ro_account = 2, ro_qty = 1\<rparr>])]\<rparr>"

lemma mark_orders_rest:
  assumes "lb_clob b = new_book"
  shows "seed_mark_orders b = Some (b\<lparr>lb_clob := mark_book\<rparr>)"
proof -
  let ?o1 = "limit_order 2001 1 Buy 1 95" and ?o2 = "limit_order 2002 2 Sell 1 97"
  have "\<exists>r. submit new_book ?o1 = Some (\<lparr>bids = [(95, [\<lparr>ro_id = 2001, ro_account = 1, ro_qty = 1\<rparr>])], asks = []\<rparr>, r) \<and> fills r = []"
    by (rule exI[of _ "snd (the (submit new_book ?o1))"]) code_simp
  then obtain r1 where r1: "submit new_book ?o1 = Some (\<lparr>bids = [(95, [\<lparr>ro_id = 2001, ro_account = 1, ro_qty = 1\<rparr>])], asks = []\<rparr>, r1)" "fills r1 = []"
    by blast
  let ?bk = "\<lparr>bids = [(95, [\<lparr>ro_id = 2001, ro_account = 1, ro_qty = 1\<rparr>])], asks = []\<rparr> :: book"
  have "\<exists>r. submit ?bk ?o2 = Some (mark_book, r) \<and> fills r = []"
    by (rule exI[of _ "snd (the (submit ?bk ?o2))"]) code_simp
  then obtain r2 where "submit ?bk ?o2 = Some (mark_book, r2)" "fills r2 = []" by blast
  then show ?thesis using r1 assms by (simp add: seed_mark_orders_def submit_order_def)
qed

lemma register_frame:
  "node_snapshot (fold (\<lambda>pub n. node_register_publisher n (sp_feed pub) (sp_public_key pub)) pubs n) = node_snapshot n
   \<and> o_feeds (n_oracle (fold (\<lambda>pub n. node_register_publisher n (sp_feed pub) (sp_public_key pub)) pubs n)) = o_feeds (n_oracle n)
   \<and> n_config (fold (\<lambda>pub n. node_register_publisher n (sp_feed pub) (sp_public_key pub)) pubs n) = n_config n"
  by (induction pubs arbitrary: n) (simp_all add: node_register_publisher_def register_publisher_def node_snapshot_def fund_balance_def)

lemma boot_coordinator_restores:
  assumes "node_ok n"
  shows "node_snapshot (boot_coordinator (Some (node_snapshot n)) pubs) = node_snapshot n"
    and "o_feeds (n_oracle (boot_coordinator (Some (node_snapshot n)) pubs)) = []"
    and "n_config (boot_coordinator (Some (node_snapshot n)) pubs) = devnet_config"
  using assms register_frame[of pubs "node_load_snapshot (new_node devnet_config) (node_snapshot n)"]
  by (auto simp: boot_coordinator_def node_load_snapshot_def node_snapshot_def new_node_def new_scanner_def fund_balance_def new_fund_def restore_vault_def
      new_funding_clock_def restore_current_def new_oracle_def node_ok_def fund_ok_def split: option.splits)

section \<open>Booting from saved state\<close>

text \<open>The bridge that boots from the snapshot of \<open>b\<close>.\<close>

definition restored :: "live_bridge \<Rightarrow> live_bridge" where
  "restored b = (lv_load_snapshot (with_liquidation_params new_live (cfg_liquidation_params node_hyperliquid_default)) (lv_snapshot b))\<lparr>lb_clob := mark_book\<rparr>"

lemma restored_facts:
  assumes "accounts_ok (lb_accounts b)"
  shows "map_of (lb_accounts (restored b)) = map_of (lb_accounts b)" "accounts_snapshot (restored b) = accounts_snapshot b"
    "lb_chain (restored b) = lb_chain b" "lb_head (restored b) = lb_head b" "lb_clob (restored b) = mark_book"
    "lb_pending (restored b) = []" "lb_next_payload_id (restored b) = 0" "accounts_ok (lb_accounts (restored b))"
proof -
  let ?b0 = "with_liquidation_params new_live (cfg_liquidation_params node_hyperliquid_default)"
  let ?b1 = "load_accounts (?b0\<lparr>lb_chain := lb_chain b, lb_head := lb_head b\<rparr>) (accounts_snapshot b)"
  have r: "restored b = ?b1\<lparr>lb_clob := mark_book\<rparr>" by (simp add: restored_def lv_load_snapshot_def lv_snapshot_def)
  note rt = accounts_snapshot_round_trip[OF assms assms refl, of "?b0\<lparr>lb_chain := lb_chain b, lb_head := lb_head b\<rparr>"]
  show "map_of (lb_accounts (restored b)) = map_of (lb_accounts b)" "accounts_snapshot (restored b) = accounts_snapshot b"
    using rt unfolding r by (simp_all add: accounts_snapshot_def)
  note lk = load_accounts_lookup[OF assms, of "?b0\<lparr>lb_chain := lb_chain b, lb_head := lb_head b\<rparr>"]
  have "acct_id x = a \<and> account_ok x" if "(a, x) \<in> set (lb_accounts ?b1)" for a x
    using that lk accounts_okD[OF assms, of a x] by (simp add: map_of_eq_Some_iff[symmetric])
  then show "accounts_ok (lb_accounts (restored b))" using lk(2) unfolding r by (auto simp: accounts_ok_def)
qed (simp_all add: restored_def lv_load_snapshot_def lv_snapshot_def load_accounts_def with_liquidation_params_def new_live_def trading.extend_def)

lemma boot_shutdown:
  assumes "tables_ok b" "lb_accounts b \<noteq> []" "synthetic_publishers sg = Some pubs"
  shows "boot sg genesis \<lparr>bf_bridge = Some (fst (shutdown b d)), bf_coordinator = Some (snd (shutdown b d)), bf_history = None, bf_fixture = fx\<rparr>
    = Inr (restored b, \<lparr>dv_node = boot_coordinator (Some (node_snapshot (dv_node d))) pubs, dv_applier = None\<rparr>, pubs,
        (case lb_head b of Some h \<Rightarrow> h | None \<Rightarrow> genesis), sat_u64 (int (length (lb_chain b)) + 1))"
proof -
  let ?b1 = "lv_load_snapshot (with_liquidation_params new_live (cfg_liquidation_params node_hyperliquid_default)) (lv_snapshot b)"
  have ok: "accounts_ok (lb_accounts b)" using assms(1) by (simp add: tables_ok_def)
  have clob: "lb_clob ?b1 = new_book"
    by (simp add: lv_load_snapshot_def load_accounts_def with_liquidation_params_def new_live_def trading.extend_def new_trading_def)
  have "accounts_snapshot b \<noteq> []" using assms(2) accounts_snapshot_set[of b] by (metis image_is_empty list.set(1) set_empty)
  moreover have "accounts_snapshot ?b1 = accounts_snapshot b"
    using restored_facts(2)[OF ok] by (simp add: restored_def accounts_snapshot_def)
  ultimately have seed: "boot_seed None fx ?b1 = Inr (restored b)" by (simp add: boot_seed_def mark_orders_rest[OF clob] restored_def)
  have "sat_u64 (min (int (length (lb_chain b))) u64_max + 1) = sat_u64 (int (length (lb_chain b)) + 1)" by (simp add: sat_def)
  then show ?thesis by (simp add: boot_def boot_bridge_def shutdown_def assms(3) seed Let_def) (simp add: lv_snapshot_def)
qed

section \<open>Properties\<close>

definition demo_signing :: "bytes signing" where
  "demo_signing = \<lparr>sk_from_slice = Some, sk_compressed = (\<lambda>k. replicate 33 (k ! 0)), sk_sign = (\<lambda>k m. replicate 33 (k ! 0))\<rparr>"

definition demo_devnet :: devnet where
  "demo_devnet = \<lparr>dv_node = new_node devnet_config, dv_applier = None\<rparr>"

definition demo_devnet_cfg :: "(live_bridge, devnet) app_config" where
  "demo_devnet_cfg = \<lparr>cfg_ops = live_ops demo_env, cfg_hook = on_committed self_signed_scheme demo_signing [],
     cfg_validator_set = [demo_validator 1 100], cfg_stop_after = 1, cfg_network_open = True\<rparr>"

text \<open>C14: the commit hook is total and type-safe. Whatever the block, on well-formed tables and a chain history whose limit trades carry a price, the hook
  returns \<open>Ok\<close>; every account it leaves has its fields in the ranges of their Rust types, the book is well-formed and uncrossed, the payload side of the bridge is
  untouched, and the coordinator has moved by its own steps only, so its invariant holds and the insurance fund is not negative.\<close>

theorem hook_keeps_invariants:
  assumes "tables_ok b" "devnet_ok d" "node_ok (dv_node d)" "in_u64 block_time"
  shows "\<exists>b' d'. on_committed ec sg pubs b d h ht block_time = (b', d', True) \<and> tables_ok b' \<and> devnet_ok d'
    \<and> trading.more b' = trading.more b \<and> (node_step ec)\<^sup>*\<^sup>* (dv_node d) (dv_node d')
    \<and> node_ok (dv_node d') \<and> n_config (dv_node d') = n_config (dv_node d) \<and> 0 \<le> fund_balance (n_scanner (dv_node d'))"
proof -
  obtain b' d' ok where e: "on_committed ec sg pubs b d h ht block_time = (b', d', ok)"
    by (cases "on_committed ec sg pubs b d h ht block_time")
  note st = on_committed_node[OF e assms(4,3)]
  show ?thesis
    using e on_committed_tables[OF assms(1,2) e] st reachable_ok[OF st assms(3)]
    by (auto simp: node_ok_def fund_ok_def fund_balance_def)
qed

theorem hook_keeps_invariants_witness:
  "\<exists>b' d'. on_committed self_signed_scheme demo_signing [] new_trading demo_devnet [0] 1 7 = (b', d', True)
     \<and> tables_ok b' \<and> node_ok (dv_node d')"
proof -
  have "tables_ok new_trading" "in_u64 7"
    by (simp_all add: tables_ok_def new_trading_def accounts_ok_def in_u64_def)
  then show ?thesis
    using hook_keeps_invariants[of new_trading demo_devnet 7 self_signed_scheme demo_signing "[]" "[0]" 1]
      new_node_ok[of devnet_config] by (auto simp: devnet_ok_def demo_devnet_def)
qed

lemma deleverage_frame: "avg_entry (fold deleverage_acct rs z) = avg_entry z \<and> acct_id (fold deleverage_acct rs z) = acct_id z"
  by (induction rs arbitrary: z) (simp_all add: deleverage_acct_def Let_def)

text \<open>An account after funding \<open>c\<close> and the liquidation scan.\<close>

lemma funded_or_closed:
  assumes "y = (if liquidated params mark (snapshot_of acct) then close_acct (record_of params mark (snapshot_of acct)) (acct\<lparr>collateral := c\<rparr>)
      else acct\<lparr>collateral := c\<rparr>)"
  shows "avg_entry y = avg_entry acct" "acct_id y = acct_id acct"
    and "if liquidated params mark (snapshot_of acct) then position_size y = 0 \<and> collateral y =
        (if liquidation_fee (notional_value (snapshot_of acct) mark) params \<le> account_equity (snapshot_of acct) mark
         then sat_i64 (account_equity (snapshot_of acct) mark - liquidation_fee (notional_value (snapshot_of acct) mark) params) else 0)
     else position_size y = position_size acct \<and> collateral y = c"
  by (simp_all add: assms close_acct_def record_of_def desired_fee_def solvent_close_outcome_def Let_def)

text \<open>C7: what a block does to an account. The hook keeps every account. An account that the scan finds below maintenance at the solvency mark, and that is not
  deleveraged, ends flat, with its equity less the fee if that covers the fee and with nothing otherwise. An account that is deleveraged and not
  liquidated ends flat, credited with its funding and with what is left of its profit. Every other account keeps its position and gets its funding.\<close>

theorem hook_settles_accounts:
  assumes "tables_ok b" "map_of (lb_accounts b) a = Some acct"
  shows "let report = hook_report ec sg pubs b node ht t; mark = hook_mark ec sg pubs b node ht t; params = ls_params (n_scanner node);
      s = snapshot_of acct; fee = liquidation_fee (notional_value s mark) params;
      funded = sat_i64 (collateral acct + funding_delta report a)
    in \<exists>acct'. map_of (lb_accounts (fst (hook_tick ec sg pubs b node ht t))) a = Some acct'
      \<and> avg_entry acct' = avg_entry acct \<and> acct_id acct' = a
      \<and> ((\<forall>r \<in> set (adl_of report). co_account (ar_close_order r) \<noteq> a) \<longrightarrow>
          (if liquidated params mark s
           then position_size acct' = 0 \<and> collateral acct' = (if fee \<le> account_equity s mark then sat_i64 (account_equity s mark - fee) else 0)
           else position_size acct' = position_size acct \<and> collateral acct' = funded))
      \<and> (\<forall>r \<in> set (adl_of report). co_account (ar_close_order r) = a \<and> \<not> liquidated params mark s \<and> position_size acct \<noteq> i64_min \<longrightarrow>
          position_size acct' = 0 \<and> collateral acct' = sat_i64 (funded + pnl_paid r))"
proof -
  define report where "report = hook_report ec sg pubs b node ht t"
  define mark where "mark = hook_mark ec sg pubs b node ht t"
  define params where "params = ls_params (n_scanner node)"
  let ?s = "snapshot_of acct"
  have ok: "accounts_ok (lb_accounts b)" using assms(1) by (simp add: tables_ok_def)
  have acct: "acct_id acct = a" "in_i64 (collateral acct)" "in_i64 (position_size acct)"
    using accounts_okD[OF ok assms(2)] by (auto simp: account_ok_def)
  have "distinct (map st_account (funding_of report))"
    unfolding report_def hook_report_def Let_def
    by (rule funding_distinct) (simp only: hook_input_def tick_input.select_convs snapshots_distinct[OF ok])
  note st = settle_one[OF this acct(2), of a]
  define x where "x = acct\<lparr>collateral := sat_i64 (collateral acct + funding_delta report a)\<rparr>"
  define y where "y = (if liquidated params mark ?s then close_acct (record_of params mark ?s) x else x)"
  define acct' where "acct' = fold deleverage_acct (filter (\<lambda>r. co_account (ar_close_order r) = a) (adl_of report)) y"
  have lk: "map_of (lb_accounts (fst (hook_tick ec sg pubs b node ht t))) a = Some acct'"
    unfolding hook_tick_accounts apply_report_lookup report_def[symmetric] assms(2) acct'_def
    using st close_one[OF ok assms(2), of ec sg pubs node ht t]
    by (simp add: report_def[symmetric] mark_def[symmetric] params_def[symmetric] y_def x_def)
  note y = funded_or_closed[OF y_def[unfolded x_def], unfolded acct(1)]
  have del: "acct' = y\<lparr>position_size := 0, collateral := sat_i64 (collateral y + pnl_paid r)\<rparr>"
    if "r \<in> set (adl_of report)" "co_account (ar_close_order r) = a" "\<not> liquidated params mark ?s" "position_size acct \<noteq> i64_min" for r
    using adl_one[OF ok assms(2), of r ec sg pubs node ht t] that y(3) deleverage_closes[of r acct y] acct(3)
    by (simp add: acct'_def report_def[symmetric])
  have none: "acct' = y" if "\<forall>r \<in> set (adl_of report). co_account (ar_close_order r) \<noteq> a"
    using adl_none[OF that] by (simp add: acct'_def)
  show ?thesis
    unfolding Let_def report_def[symmetric] mark_def[symmetric] params_def[symmetric]
  proof (intro exI[of _ acct'] conjI ballI impI, rule lk)
    show "avg_entry acct' = avg_entry acct" "acct_id acct' = a" using deleverage_frame y(1,2) by (simp_all add: acct'_def)
  next
    assume "\<forall>r \<in> set (adl_of report). co_account (ar_close_order r) \<noteq> a"
    then show "if liquidated params mark ?s then position_size acct' = 0 \<and> collateral acct' =
        (if liquidation_fee (notional_value ?s mark) params \<le> account_equity ?s mark
         then sat_i64 (account_equity ?s mark - liquidation_fee (notional_value ?s mark) params) else 0)
      else position_size acct' = position_size acct \<and> collateral acct' = sat_i64 (collateral acct + funding_delta report a)"
      using y(3) none by simp
  next
    fix r assume r: "r \<in> set (adl_of report)"
      "co_account (ar_close_order r) = a \<and> \<not> liquidated params mark ?s \<and> position_size acct \<noteq> i64_min"
    then show "position_size acct' = 0" "collateral acct' = sat_i64 (sat_i64 (collateral acct + funding_delta report a) + pnl_paid r)"
      using del[of r] y(3) by simp_all
  qed
qed

definition demo_loser :: account where
  "demo_loser = \<lparr>acct_id = 7, position_size = 10, avg_entry = 110, collateral = 90\<rparr>"

theorem hook_settles_accounts_witness:
  "map_option (\<lambda>acct. (position_size acct, collateral acct)) (map_of (lb_accounts
     (fst (hook_tick self_signed_scheme demo_signing [] (new_trading\<lparr>lb_accounts := [(7, demo_loser)]\<rparr>) (new_node devnet_config) 1 7))) 7) = Some (0, 0)"
proof -
  let ?b = "new_trading\<lparr>lb_accounts := [(7, demo_loser)]\<rparr>" and ?n = "new_node devnet_config"
  have tb: "tables_ok ?b" "map_of (lb_accounts ?b) 7 = Some demo_loser"
    by (simp_all add: tables_ok_def new_trading_def accounts_ok_def demo_loser_def account_ok_def in_i64_def in_u64_def)
  have adl: "adl_of (hook_report self_signed_scheme demo_signing [] ?b ?n 1 7) = []" by code_simp
  have mk: "hook_mark self_signed_scheme demo_signing [] ?b ?n 1 7 = 100" by code_simp
  have liq: "liquidated (ls_params (n_scanner ?n)) 100 (snapshot_of demo_loser)" by code_simp
  have fee: "\<not> liquidation_fee (notional_value (snapshot_of demo_loser) 100) (ls_params (n_scanner ?n)) \<le> account_equity (snapshot_of demo_loser) 100"
    by code_simp
  show ?thesis
    using hook_settles_accounts[OF tb, of self_signed_scheme demo_signing "[]" ?n 1 7] by (auto simp: Let_def adl mk liq fee)
qed

text \<open>A restart resumes the chain. Booting from the files a shutdown wrote succeeds and gives back every account, the committed chain and its head; consensus
  continues on that head, at the height after the number of committed blocks; the coordinator has the same insurance fund, vault, funding clock, refresh time and
  cached oracle price. The book holds the two mark orders only and the oracle's feeds are empty.\<close>

theorem devnet_restart:
  assumes "tables_ok b" "lb_accounts b \<noteq> []" "node_ok (dv_node d)" "synthetic_publishers sg = Some pubs"
  shows "\<exists>b' d'. boot sg genesis \<lparr>bf_bridge = Some (fst (shutdown b d)), bf_coordinator = Some (snd (shutdown b d)), bf_history = None, bf_fixture = fx\<rparr>
      = Inr (b', d', pubs, (case lb_head b of Some h \<Rightarrow> h | None \<Rightarrow> genesis), sat_u64 (int (length (lb_chain b)) + 1))
    \<and> map_of (lb_accounts b') = map_of (lb_accounts b) \<and> accounts_snapshot b' = accounts_snapshot b
    \<and> lb_chain b' = lb_chain b \<and> lb_head b' = lb_head b \<and> lb_clob b' = mark_book \<and> current_mark b' = Some 96
    \<and> node_snapshot (dv_node d') = node_snapshot (dv_node d) \<and> o_feeds (n_oracle (dv_node d')) = []"
proof -
  let ?d = "\<lparr>dv_node = boot_coordinator (Some (node_snapshot (dv_node d))) pubs, dv_applier = None\<rparr>"
  have ok: "accounts_ok (lb_accounts b)" using assms(1) by (simp add: tables_ok_def)
  have "current_mark (restored b) = Some 96"
    by (simp add: restored_facts(5)[OF ok] current_mark_def mark_book_def best_bid_def best_ask_def wrap_u64_def)
  then show ?thesis
    by (intro exI[of _ "restored b"] exI[of _ ?d] conjI, intro boot_shutdown[OF assms(1,2,4)])
      (use restored_facts[OF ok] boot_coordinator_restores[OF assms(3)] in simp_all)
qed

theorem devnet_restart_witness:
  "\<exists>b' d' pubs. boot demo_signing [0] \<lparr>bf_bridge = Some (fst (shutdown (new_live\<lparr>lb_accounts := [(7, demo_loser)]\<rparr>) demo_devnet)),
      bf_coordinator = Some (snd (shutdown (new_live\<lparr>lb_accounts := [(7, demo_loser)]\<rparr>) demo_devnet)), bf_history = None, bf_fixture = None\<rparr>
      = Inr (b', d', pubs, [0], 1) \<and> map_of (lb_accounts b') 7 = Some demo_loser"
proof -
  let ?b = "new_live\<lparr>lb_accounts := [(7, demo_loser)]\<rparr>"
  have b: "tables_ok ?b" "lb_accounts ?b \<noteq> []" "lb_head ?b = None" "lb_chain ?b = []"
    by (simp_all add: tables_ok_def new_live_def trading.extend_def new_trading_def accounts_ok_def demo_loser_def account_ok_def in_i64_def in_u64_def)
  have n: "node_ok (dv_node demo_devnet)" by (simp add: demo_devnet_def new_node_ok)
  obtain pubs where "synthetic_publishers demo_signing = Some pubs"
    by (simp add: synthetic_publishers_def SYNTHETIC_FEEDS_def from_seed_def demo_signing_def)
  from devnet_restart[OF b(1,2) n this, of "[0]" None] show ?thesis by (auto simp: b(3,4) sat_def)
qed

text \<open>Closing a position touches one side of the contract only: after the first block of the built-in scenario the positions of all accounts, which
  netted to zero before, sum to \<open>-10\<close>.\<close>

theorem first_block_unbalances:
  "case boot demo_signing [0] \<lparr>bf_bridge = None, bf_coordinator = None, bf_history = None, bf_fixture = None\<rparr> of
     Inl e \<Rightarrow> False
   | Inr (b, d, pubs, parent, h) \<Rightarrow> (case on_committed self_signed_scheme demo_signing pubs b d [1] h 1 of (b', d', ok) \<Rightarrow>
       ok \<and> parent = [0] \<and> h = 1 \<and> lb_oracle_index_price b' = Some 102
       \<and> total_of position_size (lb_accounts b) = 0 \<and> total_of position_size (lb_accounts b') = -10
       \<and> map (\<lambda>a. (acct_id a, position_size a, collateral a)) (accounts_snapshot b')
           = [(10, 10, 207), (20, 0, 0), (30, 0, 0), (40, 0, 294), (50, -20, 186)])"
  by code_simp

end
