(* ===== verification/Network.thy ===== *)
theory Network
  imports Devnet
begin

text \<open>
  A network of validators running the application loop of \<open>crates/consensus/src/engine_app.rs\<close> with the commit hook of \<open>bin/openhl/src/main.rs\<close>. Consensus itself is
  Malachite's: a round is what it delivers to the loops of the validators when it decides, that is \<open>GetValue\<close> to the proposer, the two parts of the streamed
  proposal to every other validator in either order, and \<open>Decided\<close> with the proposed value to all. The theory lifts the handlers of \<open>Engine_App\<close> from one node to the network
  and from one round to any number of rounds with any proposers.
\<close>

section \<open>Rounds\<close>

type_synonym 'h node_state = "(live_bridge, 'h) app_state"
type_synonym 'h node_config = "(live_bridge, 'h) app_config"

text \<open>\<open>rp_fin_first j\<close>: validator \<open>j\<close> receives the end of the stream before its data.\<close>

record round_plan =
  rp_proposer :: nat
  rp_peer :: peer_id
  rp_height :: height
  rp_round :: round
  rp_fin_first :: "nat \<Rightarrow> bool"
  rp_signatures :: "commit_signature list"

definition certificate :: "round_plan \<Rightarrow> block_hash \<Rightarrow> commit_certificate" where
  "certificate plan v = \<lparr>cc_height = rp_height plan, cc_round = rp_round plan, cc_value_id = v, cc_signatures = rp_signatures plan\<rparr>"

fun and_then :: "('s, 'h) outcome \<Rightarrow> (('s, 'h) app_state \<Rightarrow> ('s, 'h) outcome) \<Rightarrow> ('s, 'h) outcome" where
  "and_then (Go st) k = k st"
| "and_then (Done st) k = Done st"
| "and_then (Stop e st) k = Stop e st"

fun running :: "('s, 'h) outcome \<Rightarrow> bool" where
  "running (Go st) = True"
| "running (Done st) = False"
| "running (Stop e st) = False"

definition follow :: "'h node_config \<Rightarrow> round_plan \<Rightarrow> stream_message \<Rightarrow> stream_message \<Rightarrow> block_hash \<Rightarrow> nat \<Rightarrow> 'h node_state
    \<Rightarrow> (live_bridge, 'h) outcome" where
  "follow cfg plan d f v j st =
     (let (m1, m2) = (if rp_fin_first plan j then (f, d) else (d, f))
      in and_then (and_then (handle cfg st (ReceivedProposalPart (rp_peer plan) m1))
           (\<lambda>st. handle cfg st (ReceivedProposalPart (rp_peer plan) m2))) (\<lambda>st. handle cfg st (Decided (certificate plan v))))"

definition network_round :: "'h node_config \<Rightarrow> round_plan \<Rightarrow> 'h node_state list \<Rightarrow> 'h node_state list option" where
  "network_round cfg plan nodes =
     (case handle cfg (nodes ! rp_proposer plan) (GetValue (rp_height plan) (rp_round plan)) of
        Go P \<Rightarrow> (case (last (ap_replies P), drop (length (ap_network (nodes ! rp_proposer plan))) (ap_network P)) of
            (ValueReply _ _ v, [d, f]) \<Rightarrow>
              let outcomes = map (\<lambda>(j, st). if j = rp_proposer plan then handle cfg P (Decided (certificate plan v))
                    else follow cfg plan d f v j st) (enumerate 0 nodes)
              in if list_all running outcomes then Some (map state_of outcomes) else None
          | _ \<Rightarrow> None)
      | _ \<Rightarrow> None)"

fun run_rounds :: "'h node_config \<Rightarrow> round_plan list \<Rightarrow> 'h node_state list \<Rightarrow> 'h node_state list option" where
  "run_rounds cfg [] nodes = Some nodes"
| "run_rounds cfg (plan # plans) nodes = (case network_round cfg plan nodes of None \<Rightarrow> None | Some nodes' \<Rightarrow> run_rounds cfg plans nodes')"

section \<open>Agreement\<close>

text \<open>A node that has decided \<open>ds\<close> on top of \<open>p0\<close>, with what the hook sees and its state in \<open>vk\<close>; it is between rounds, and can build on its last block.\<close>

definition in_agreement ::
  "chain_env \<Rightarrow> (trading_view \<Rightarrow> 'h \<Rightarrow> bool) \<Rightarrow> trading_view \<times> 'h \<Rightarrow> block_hash \<Rightarrow> block_hash list \<Rightarrow> 'h node_state \<Rightarrow> bool" where
  "in_agreement env J vk p0 ds st \<longleftrightarrow> live_inv env (ap_bridge st) \<and> ap_streams st = []
     \<and> (trading_view (ap_bridge st), ap_hook st) = vk \<and> J (fst vk) (snd vk)
     \<and> ap_decided st = ds \<and> ap_current_parent st = last (p0 # ds) \<and> lv_number_of env (ap_bridge st) (last (p0 # ds)) \<noteq> None
     \<and> (ds \<noteq> [] \<longrightarrow> lb_head (ap_bridge st) = Some (last ds))"

text \<open>A node that in addition holds the block \<open>v\<close> of the current round, with time \<open>t\<close>.\<close>

definition holds_block ::
  "chain_env \<Rightarrow> (trading_view \<Rightarrow> 'h \<Rightarrow> bool) \<Rightarrow> trading_view \<times> 'h \<Rightarrow> block_hash list \<Rightarrow> block_hash \<Rightarrow> int \<Rightarrow> 'h node_state \<Rightarrow> bool" where
  "holds_block env J vk ds v t st \<longleftrightarrow> live_inv env (ap_bridge st) \<and> ap_streams st = []
     \<and> (trading_view (ap_bridge st), ap_hook st) = vk \<and> J (fst vk) (snd vk) \<and> ap_decided st = ds
     \<and> map_of (ap_block_times st) v = Some t \<and> lv_known (ap_bridge st) v"

text \<open>The two messages of a proposal that carry the block \<open>v\<close> with time \<open>t\<close>.\<close>

definition ships :: "chain_env \<Rightarrow> block_hash \<Rightarrow> int \<Rightarrow> stream_message \<Rightarrow> stream_message \<Rightarrow> bool" where
  "ships env v t d f \<longleftrightarrow> (\<exists>sid part wire. d = \<lparr>stm_stream_id = sid, stm_sequence = 0, stm_content = Data part\<rparr>
     \<and> f = \<lparr>stm_stream_id = sid, stm_sequence = 1, stm_content = Fin\<rparr> \<and> from_slice env (part_block_bytes part) = Some wire
     \<and> hash_slow env (wire_header wire) = v \<and> eb_hash (wire_block wire) = v \<and> eb_timestamp (wire_block wire) = t)"

definition codec_total :: "chain_env \<Rightarrow> bool" where
  "codec_total env \<longleftrightarrow> (\<forall>w. \<exists>bs. to_vec env w = Some bs \<and> from_slice env bs = Some w)"

section \<open>One node in a round\<close>

lemma known_commits:
  assumes "live_inv env b" "lv_known b v"
  obtains b' where "lv_commit env b v = (b', Inr ())" "lb_head b' = Some v" "lv_number_of env b' v \<noteq> None"
proof -
  obtain i p where p: "(i, p) \<in> set (lb_pending b)" "pp_hash p = v" using assms(2) by (auto simp: lv_known_def)
  obtain b' where "lv_commit env b v = (b', Inr ())" "lb_head b' = Some v" "map_of (lb_chain b') v = Some (pp_header p)"
    using commit_header[OF live_invD(1,4)[OF assms(1)] p(1)] p(2) by auto
  then show thesis using that by (simp add: lv_number_of_def parent_lookup_def)
qed

lemma decided_streams: "ap_streams (state_of (handle cfg st (Decided cert))) = ap_streams st"
  by (auto simp: on_decided_def reply_def Let_def split: option.splits prod.splits sum.splits if_splits)

lemma decided_ends:
  "handle cfg st (Decided cert) = Go st' \<or> handle cfg st (Decided cert) = Done st' \<Longrightarrow>
   handle cfg st (Decided cert) = (if length (ap_decided st) + 1 \<ge> cfg_stop_after cfg then Done st' else Go st')"
  by (auto simp: on_decided_def reply_def Let_def split: option.splits prod.splits sum.splits if_splits)

lemma decides:
  assumes "cfg_ops cfg = live_ops env" "hook_follows J g (cfg_hook cfg)" "holds_block env J vk ds v t st"
  obtains st' where "handle cfg st (Decided (certificate plan v)) = (if length ds + 1 \<ge> cfg_stop_after cfg then Done st' else Go st')"
    "in_agreement env J (g (v, rp_height plan, t) vk) p0 (ds @ [v]) st'"
proof -
  let ?c = "certificate plan v"
  have c: "cc_value_id ?c = v" "cc_height ?c = rp_height plan" by (simp_all add: certificate_def)
  have st: "live_inv env (ap_bridge st)" "lv_known (ap_bridge st) v" "map_of (ap_block_times st) (cc_value_id ?c) = Some t"
    "J (trading_view (ap_bridge st)) (ap_hook st)" "vk = (trading_view (ap_bridge st), ap_hook st)" "ap_streams st = []" "ap_decided st = ds"
    using assms(3) by (auto simp: holds_block_def c)
  obtain b' where b': "lv_commit env (ap_bridge st) v = (b', Inr ())" "lb_head b' = Some v" "lv_number_of env b' v \<noteq> None"
    by (rule known_commits[OF st(1,2)])
  obtain b2 k2 ok where hk: "cfg_hook cfg b' (ap_hook st) v (rp_height plan) t = (b2, k2, ok)"
    by (cases "cfg_hook cfg b' (ap_hook st) v (rp_height plan) t")
  have vw: "trading_view b' = trading_view (ap_bridge st)" by (rule live_app.commit_view[OF b'(1)])
  have g: "ok" "payload_side b2 = payload_side b'" "J (trading_view b2) k2" "(trading_view b2, k2) = g (v, rp_height plan, t) vk"
    using assms(2) hk st(4,5) vw unfolding hook_follows_def by metis+
  have b2: "live_inv env b2" "lb_head b2 = Some v" "lv_number_of env b2 v \<noteq> None"
    using live.commit_inv[OF st(1) b'(1)] payload_side_frame(1,2)[OF g(2)] b'(2,3) g(2)
    by (simp_all add: payload_side_def lv_number_of_def parent_lookup_def)
  have commit: "lv_commit env (ap_bridge st) (cc_value_id ?c) = (b', Inr ())" using b'(1) by (simp only: c)
  have hook: "cfg_hook cfg b' (ap_hook st) (cc_value_id ?c) (cc_height ?c) t = (b2, k2, True)" using hk g(1) by (simp add: c)
  obtain st' where e: "handle cfg st (Decided ?c) = Go st' \<or> handle cfg st (Decided ?c) = Done st'"
    and st': "ap_bridge st' = b2" "ap_hook st' = k2" "ap_current_parent st' = cc_value_id ?c" "ap_decided st' = ap_decided st @ [cc_value_id ?c]"
    by (rule decided_live[OF assms(1) st(3) commit hook])
  have go: "handle cfg st (Decided ?c) = (if length ds + 1 \<ge> cfg_stop_after cfg then Done st' else Go st')"
    using decided_ends[OF e] unfolding st(7) .
  have "state_of (handle cfg st (Decided ?c)) = st'" unfolding go by simp
  then have "ap_streams st' = []" using decided_streams[of cfg st ?c] st(6) by simp
  then have "in_agreement env J (g (v, rp_height plan, t) vk) p0 (ds @ [v]) st'"
    unfolding in_agreement_def g(4)[symmetric] using st' b2 g(3) by (simp add: c st(7))
  then show thesis by (rule that[OF go])
qed

lemma proposes:
  assumes "cfg_ops cfg = live_ops env" "codec_total env" "cfg_validator_set cfg \<noteq> []" "cfg_network_open cfg"
    and "in_agreement env J vk p0 ds st"
  obtains P d f v t where "handle cfg st (GetValue h r) = Go P" "ap_network P = ap_network st @ [d, f]" "last (ap_replies P) = ValueReply h r v"
    "ships env v t d f" "holds_block env J vk ds v t P"
proof -
  have st: "live_inv env (ap_bridge st)" "ap_streams st = []" "(trading_view (ap_bridge st), ap_hook st) = vk" "J (fst vk) (snd vk)"
    "ap_decided st = ds" and num: "lv_number_of env (ap_bridge st) (ap_current_parent st) \<noteq> None"
    using assms(5) by (simp_all add: in_agreement_def)
  obtain n where n: "lv_number_of env (ap_bridge st) (ap_current_parent st) = Some n" using num by blast
  obtain b i blk where b: "lv_build_payload env (ap_bridge st) (ap_current_parent st) default_attrs = (b, Inr i)" "lv_payload_ready b i = Inr blk"
    using lv_build_ready[OF st(1) n] by blast
  obtain p where p: "map_of (lb_pending b) i = Some p" "blk = to_executed_block (pp_hash p) (pp_header p)"
    using b(2) by (auto simp: lv_payload_ready_def split: option.splits)
  have inv: "live_inv env b" by (rule live.build_inv[OF st(1) b(1)])
  have hp: "hash_slow env (pp_header p) = eb_hash blk"
    using live_invD(4)[OF inv] map_of_SomeD[OF p(1)] p(2) by (auto simp: pending_hashed_def to_executed_block_def)
  let ?w = "\<lparr>wire_header = pp_header p, wire_block = blk, wire_execution_data = pp_execution_data p\<rparr>"
  obtain bs where bs: "to_vec env ?w = Some bs" "from_slice env bs = Some ?w" using assms(2) unfolding codec_total_def by blast
  have enc: "lv_encode_proposed_block env b i = Inr bs" using p bs(1) by (simp add: lv_encode_proposed_block_def)
  obtain a where a: "select_proposer_address (cfg_validator_set cfg) h r = Some a"
    using assms(3) by (auto simp: select_proposer_address_def get_by_index_def Let_def)
  have kn: "lv_known b (eb_hash blk)" by (rule live_app.ready_known[OF b(2)])
  have vw: "trading_view b = trading_view (ap_bridge st)" by (rule build_view_frame[OF b(1)])
  let ?part = "\<lparr>part_height = h, part_round = r, part_pol_round = Round_Nil, part_proposer = a, part_block_bytes = bs\<rparr>"
  let ?sid = "fst (make_stream_id h r (ap_next_stream_id st))"
  let ?d = "\<lparr>stm_stream_id = ?sid, stm_sequence = 0, stm_content = Data ?part\<rparr>"
  let ?f = "\<lparr>stm_stream_id = ?sid, stm_sequence = 1, stm_content = Fin\<rparr>"
  obtain P where P: "handle cfg st (GetValue h r) = Go P" "ap_network P = ap_network st @ [?d, ?f]" "last (ap_replies P) = ValueReply h r (eb_hash blk)"
    "ap_bridge P = b" "ap_hook P = ap_hook st" "ap_decided P = ap_decided st" "ap_streams P = ap_streams st"
    "map_of (ap_block_times P) (eb_hash blk) = Some (eb_timestamp blk)"
    using b enc a assms(1,4) by (simp add: on_get_value_def live_ops_def reply_def Let_def make_stream_id_def update_conv')
  have ships: "ships env (eb_hash blk) (eb_timestamp blk) ?d ?f"
    unfolding ships_def by (rule exI[of _ ?sid], rule exI[of _ ?part], rule exI[of _ ?w]) (simp add: bs hp)
  have "holds_block env J vk ds (eb_hash blk) (eb_timestamp blk) P"
    unfolding holds_block_def using P st inv kn vw by simp
  with P(1-3) ships show thesis by (rule that)
qed

lemma follows:
  assumes "cfg_ops cfg = live_ops env" "ships env v t d f" "in_agreement env J vk p0 ds st"
    and "m1 = d \<and> m2 = f \<or> m1 = f \<and> m2 = d"
  obtains st1 st2 where "handle cfg st (ReceivedProposalPart peer m1) = Go st1" "handle cfg st1 (ReceivedProposalPart peer m2) = Go st2"
    "holds_block env J vk ds v t st2"
proof -
  have st: "live_inv env (ap_bridge st)" "ap_streams st = []" "(trading_view (ap_bridge st), ap_hook st) = vk" "J (fst vk) (snd vk)"
    "ap_decided st = ds" using assms(3) by (simp_all add: in_agreement_def)
  obtain sid part wire where df: "d = \<lparr>stm_stream_id = sid, stm_sequence = 0, stm_content = Data part\<rparr>"
    "f = \<lparr>stm_stream_id = sid, stm_sequence = 1, stm_content = Fin\<rparr>" and w: "from_slice env (part_block_bytes part) = Some wire"
    "hash_slow env (wire_header wire) = v" "eb_hash (wire_block wire) = v" "eb_timestamp (wire_block wire) = t"
    using assms(2) unfolding ships_def by (elim exE conjE) (rule that)
  obtain b where b: "lv_register_proposed_block env (ap_bridge st) (part_block_bytes part) = (b, Inr (wire_block wire))"
    using w by (simp add: lv_register_proposed_block_def)
  have inv: "live_inv env b" "lv_known b v" "trading_view b = trading_view (ap_bridge st)"
    using live_app.register_inv[OF st(1) b] register_new_known[OF b] live_app.register_view[OF b] w(3) by simp_all
  obtain st1 st2 where e: "handle cfg st (ReceivedProposalPart peer m1) = Go st1" "handle cfg st1 (ReceivedProposalPart peer m2) = Go st2"
    and st2: "ap_bridge st2 = b" "ap_hook st2 = ap_hook st" "ap_decided st2 = ap_decided st" "ap_streams st2 = []"
      "map_of (ap_block_times st2) v = Some t"
    using assms(4) df st(2) b w(3,4) assms(1)
    by (elim disjE conjE)
      (simp_all add: on_received_part_def live_ops_def reply_def Let_def stream_entry_def add_content_def default_stream_def bt_remove_def update_conv')
  show thesis by (rule that[OF e]) (simp add: holds_block_def st2 st inv)
qed

lemma follow_decides:
  assumes "cfg_ops cfg = live_ops env" "hook_follows J g (cfg_hook cfg)" "length ds + 1 < cfg_stop_after cfg"
    and "ships env v t d f" "in_agreement env J vk p0 ds st"
  obtains st' where "follow cfg plan d f v j st = Go st'" "in_agreement env J (g (v, rp_height plan, t) vk) p0 (ds @ [v]) st'"
proof -
  let ?m1 = "if rp_fin_first plan j then f else d" and ?m2 = "if rp_fin_first plan j then d else f"
  have m: "?m1 = d \<and> ?m2 = f \<or> ?m1 = f \<and> ?m2 = d" by simp
  obtain st1 st2 where st: "handle cfg st (ReceivedProposalPart (rp_peer plan) ?m1) = Go st1"
    "handle cfg st1 (ReceivedProposalPart (rp_peer plan) ?m2) = Go st2" "holds_block env J vk ds v t st2"
    by (rule follows[OF assms(1,4,5) m])
  obtain st' where st': "handle cfg st2 (Decided (certificate plan v)) = (if length ds + 1 \<ge> cfg_stop_after cfg then Done st' else Go st')"
    "in_agreement env J (g (v, rp_height plan, t) vk) p0 (ds @ [v]) st'" by (rule decides[OF assms(1,2) st(3)])
  have "follow cfg plan d f v j st = Go st'"
    using st(1,2) st'(1) assms(3) by (cases "rp_fin_first plan j") (simp_all add: follow_def del: handle.simps)
  then show thesis by (rule that[OF _ st'(2)])
qed

section \<open>A network\<close>

lemma round_agrees:
  assumes "cfg_ops cfg = live_ops env" "hook_follows J g (cfg_hook cfg)" "codec_total env" "cfg_validator_set cfg \<noteq> []" "cfg_network_open cfg"
    and "length ds + 1 < cfg_stop_after cfg" "rp_proposer plan < length nodes" "\<forall>st \<in> set nodes. in_agreement env J vk p0 ds st"
  obtains nodes' v t where "network_round cfg plan nodes = Some nodes'" "length nodes' = length nodes"
    "\<forall>st \<in> set nodes'. in_agreement env J (g (v, rp_height plan, t) vk) p0 (ds @ [v]) st"
proof -
  let ?i = "rp_proposer plan"
  have agree: "in_agreement env J vk p0 ds (nodes ! j)" if "j < length nodes" for j using assms(8) that by simp
  obtain P d f v t where P: "handle cfg (nodes ! ?i) (GetValue (rp_height plan) (rp_round plan)) = Go P"
    "ap_network P = ap_network (nodes ! ?i) @ [d, f]" "last (ap_replies P) = ValueReply (rp_height plan) (rp_round plan) v"
    and ships: "ships env v t d f" and holds: "holds_block env J vk ds v t P"
    by (rule proposes[OF assms(1,3-5) agree[OF assms(7)]])
  let ?ok = "\<lambda>out. running out \<and> in_agreement env J (g (v, rp_height plan, t) vk) p0 (ds @ [v]) (state_of out)"
  let ?step = "\<lambda>(j, st). if j = ?i then handle cfg P (Decided (certificate plan v)) else follow cfg plan d f v j st"
  have "?ok (?step (j, nodes ! j))" if j: "j < length nodes" for j
  proof (cases "j = ?i")
    case True
    obtain st' where st': "handle cfg P (Decided (certificate plan v)) = (if length ds + 1 \<ge> cfg_stop_after cfg then Done st' else Go st')"
      "in_agreement env J (g (v, rp_height plan, t) vk) p0 (ds @ [v]) st'" by (rule decides[OF assms(1,2) holds])
    show ?thesis using True st' assms(6) by (simp del: handle.simps)
  next
    case False
    obtain st' where st': "follow cfg plan d f v j (nodes ! j) = Go st'"
      "in_agreement env J (g (v, rp_height plan, t) vk) p0 (ds @ [v]) st'" by (rule follow_decides[OF assms(1,2,6) ships agree[OF j]])
    show ?thesis using False st' by simp
  qed
  then have all: "\<forall>out \<in> set (map ?step (enumerate 0 nodes)). ?ok out"
    by (auto simp: in_set_enumerate_eq simp del: handle.simps)
  have "network_round cfg plan nodes = Some (map state_of (map ?step (enumerate 0 nodes)))"
    using P all unfolding network_round_def Let_def list_all_iff by (simp del: handle.simps)
  then show thesis by (rule that) (use all in auto)
qed

lemma rounds_agree:
  assumes "cfg_ops cfg = live_ops env" "hook_follows J g (cfg_hook cfg)" "codec_total env" "cfg_validator_set cfg \<noteq> []" "cfg_network_open cfg"
  shows "length ds + length plans < cfg_stop_after cfg \<Longrightarrow> \<forall>plan \<in> set plans. rp_proposer plan < length nodes \<Longrightarrow>
    \<forall>st \<in> set nodes. in_agreement env J vk p0 ds st \<Longrightarrow>
    \<exists>nodes' calls. run_rounds cfg plans nodes = Some nodes' \<and> length nodes' = length nodes \<and> map (fst \<circ> snd) calls = map rp_height plans
      \<and> (\<forall>st \<in> set nodes'. in_agreement env J (fold g calls vk) p0 (ds @ map fst calls) st)"
proof (induction plans arbitrary: nodes vk ds)
  case (Cons plan plans)
  obtain nodes1 v t where r: "network_round cfg plan nodes = Some nodes1" "length nodes1 = length nodes"
    "\<forall>st \<in> set nodes1. in_agreement env J (g (v, rp_height plan, t) vk) p0 (ds @ [v]) st"
    by (rule round_agrees[OF assms, of ds plan nodes vk p0]) (use Cons.prems in auto)
  have "length (ds @ [v]) + length plans < cfg_stop_after cfg" "\<forall>plan \<in> set plans. rp_proposer plan < length nodes1"
    using Cons.prems r(2) by simp_all
  from Cons.IH[OF this r(3)] obtain nodes' calls where n: "run_rounds cfg plans nodes1 = Some nodes'" "length nodes' = length nodes1"
    "map (fst \<circ> snd) calls = map rp_height plans"
    "\<forall>st \<in> set nodes'. in_agreement env J (fold g calls (g (v, rp_height plan, t) vk)) p0 ((ds @ [v]) @ map fst calls) st"
    by (elim exE conjE) (rule that)
  show ?case
    by (rule exI[of _ nodes'], rule exI[of _ "(v, rp_height plan, t) # calls"]) (use r n in \<open>simp add: comp_def\<close>)
qed auto

section \<open>A total codec\<close>

text \<open>For the witness: the environment of \<open>Live_Bridge\<close> with a codec that encodes every wire block, and decodes what it encodes.\<close>

definition wire_bytes :: "proposed_block_wire \<Rightarrow> bytes" where
  "wire_bytes w = length_prefixed (demo_hash (wire_header w)) @ length_prefixed (eb_hash (wire_block w))
     @ length_prefixed (eb_parent_hash (wire_block w)) @ length_prefixed (eb_state_root (wire_block w))
     @ [eb_number (wire_block w), eb_timestamp (wire_block w)] @ (case wire_execution_data w of None \<Rightarrow> [] | Some bs \<Rightarrow> length_prefixed bs)"

definition total_env :: chain_env where
  "total_env = demo_env\<lparr>to_vec := (\<lambda>w. Some (wire_bytes w)),
     from_slice := (\<lambda>bs. if bs \<in> range wire_bytes then Some (inv wire_bytes bs) else None)\<rparr>"

lemma wire_bytes_inj: "inj wire_bytes"
proof (rule injI)
  fix x y assume "wire_bytes x = wire_bytes y"
  then show "x = y"
    unfolding wire_bytes_def length_prefixed_append append_Cons append_Nil list.inject
    by (cases x; cases y; cases "wire_block x"; cases "wire_block y")
      (auto simp: length_prefixed_def injD[OF demo_hash_inj] split: option.splits)
qed

lemma total_env_facts: "codec_total total_env" "live_inv total_env new_live" "lv_number_of total_env new_live [0] = Some 0"
  using demo_env_facts(3)
  by (simp_all add: codec_total_def total_env_def wire_bytes_inj live_inv_def pending_hashed_def chain_sealed_def new_live_def trading.extend_def no_builder)
    (simp add: lv_number_of_def parent_lookup_def demo_env_def demo_genesis_def)

section \<open>Property\<close>

lemma agreement_facts:
  assumes "in_agreement env devnet_inv vk p0 ds st"
  shows "ap_decided st = ds" "ap_current_parent st = last (p0 # ds)" "ds \<noteq> [] \<Longrightarrow> lb_head (ap_bridge st) = Some (last ds)"
    "(trading_view (ap_bridge st), ap_hook st) = vk" "tables_ok (ap_bridge st)" "devnet_ok (ap_hook st)"
proof -
  have vk: "(trading_view (ap_bridge st), ap_hook st) = vk" "tables_ok (of_view (fst vk))" "devnet_ok (snd vk)"
    using assms by (simp_all add: in_agreement_def devnet_inv_def)
  then show "tables_ok (ap_bridge st)" "devnet_ok (ap_hook st)"
    using tables_ok_view[of "ap_bridge st" "of_view (trading_view (ap_bridge st))"] by auto
qed (use assms in \<open>simp_all add: in_agreement_def\<close>)


definition demo_network_cfg :: "(live_bridge, devnet) app_config" where
  "demo_network_cfg = demo_devnet_cfg\<lparr>cfg_ops := live_ops total_env, cfg_stop_after := 10\<rparr>"

definition demo_plan :: "nat \<Rightarrow> round_plan" where
  "demo_plan i = \<lparr>rp_proposer = i mod 3, rp_peer = [int i], rp_height = int i + 1, rp_round = 0, rp_fin_first = (\<lambda>j. j < i), rp_signatures = []\<rparr>"


end
