(* ===== verification/Session.thy ===== *)
theory Session
  imports Network
begin

text \<open>
  A run of \<open>reth-devnet\<close> from its files to its files (\<open>run_reth_devnet\<close> of \<open>bin/openhl/src/main.rs\<close>): booting, the application loop under a time limit, and saving. A run that
  reaches the end of the loop, with or without an error, saves its state and shuts down; one that is timed out or whose task panics returns before that. The theory composes \<open>Devnet\<close>, \<open>Engine_App\<close> and
  \<open>Live_Bridge\<close> and shows that runs continue one another.
\<close>

section \<open>A run\<close>

datatype run_end = Returned | TimedOut | TaskPanicked

datatype session_error = BootFailed boot_error | RunTimedOut | RunPanicked

record ('vk, 'sig, 'k) session_args =
  se_env :: chain_env
  se_ec :: "('vk, 'sig) k256"
  se_signing :: "'k signing"
  se_genesis :: block_hash
  se_validators :: validator_set
  se_rounds :: nat
  se_network_open :: bool

definition engine_config :: "('vk, 'sig, 'k) session_args \<Rightarrow> 'k synthetic_publisher list \<Rightarrow> (live_bridge, devnet) app_config" where
  "engine_config a pubs = \<lparr>cfg_ops = live_ops (se_env a), cfg_hook = on_committed (se_ec a) (se_signing a) pubs,
     cfg_validator_set = se_validators a, cfg_stop_after = se_rounds a, cfg_network_open = se_network_open a\<rparr>"

text \<open>\<open>msgs\<close> is what the engine sends during the run. The result of the loop is printed, the files are what the next run finds.\<close>

definition run_reth_devnet ::
  "('vk, 'sig, 'k) session_args \<Rightarrow> boot_files \<Rightarrow> app_msg list \<Rightarrow> run_end \<Rightarrow> (session_error + (app_error + block_hash list)) \<times> boot_files" where
  "run_reth_devnet a files msgs ending =
     (case boot (se_signing a) (se_genesis a) files of
        Inl e \<Rightarrow> (Inl (BootFailed e), files)
      | Inr (b, d, pubs, initial_parent, initial_height) \<Rightarrow>
          let (app_result, st) = run_engine_app (engine_config a pubs) (initial_app b d initial_parent initial_height) msgs
          in case ending of
               TimedOut \<Rightarrow> (Inl RunTimedOut, files)
             | TaskPanicked \<Rightarrow> (Inl RunPanicked, files)
             | Returned \<Rightarrow>
                 let (bridge_state, coordinator_state) = shutdown (ap_bridge st) (ap_hook st)
                 in (Inr app_result, files\<lparr>bf_bridge := Some bridge_state, bf_coordinator := Some coordinator_state\<rparr>))"

section \<open>The head is on the chain\<close>

text \<open>The loop's interface again, with the invariant that the head of the bridge is a block it has.\<close>

definition headed :: "live_bridge \<Rightarrow> bool" where
  "headed b \<longleftrightarrow> (\<forall>h. lb_head b = Some h \<longrightarrow> map_of (lb_chain b) h \<noteq> None)"

lemma headed_commit: "headed b \<Longrightarrow> lv_commit env b h = (b', r) \<Longrightarrow> headed b'"
  by (erule commit_effect) (auto simp: headed_def)

interpretation headed_app: replicated_bridge "\<lambda>b. live_inv env b \<and> headed b" "lv_build_payload env" lv_payload_ready "lv_commit env"
  "lv_number_of env" lb_head "lv_encode_proposed_block env" "lv_register_proposed_block env" lv_known lv_room
  trading_view for env
proof
  fix b p a b' and r :: "bridge_error + payload_id"
  assume inv: "live_inv env b \<and> headed b" and e: "lv_build_payload env b p a = (b', r)"
  have "headed b'" using build_chain(1,2)[OF live_invD(2)[OF conjunct1[OF inv]] e] inv by (simp add: headed_def)
  then show "live_inv env b' \<and> headed b'" using live.build_inv[OF conjunct1[OF inv] e] by simp
next
  fix b h b' and r' :: "bridge_error + unit"
  assume "live_inv env b \<and> headed b" "lv_commit env b h = (b', r')"
  then show "live_inv env b' \<and> headed b'" using live.commit_inv headed_commit by blast
next
  fix b bs b' and r :: "bridge_error + executed_block"
  assume inv: "live_inv env b \<and> headed b" and e: "lv_register_proposed_block env b bs = (b', r)"
  have "headed b'" using register_pending(1,2)[OF e] inv by (simp add: headed_def)
  then show "live_inv env b' \<and> headed b'" using live_app.register_inv[OF conjunct1[OF inv] e] by simp
qed (use live.build_ready live.ready_commit live.commit_error live_app.room_mono live_app.build_head live_app.build_room live_app.build_known live_app.ready_known
      live_app.register_head live_app.register_room live_app.register_known live_app.register_new live_app.commit_room live_app.commit_known
      live_app.build_view live_app.register_view live_app.commit_view live_app.known_commit in metis)+

section \<open>The hook keeps what a later run needs\<close>

definition session_inv :: "trading_view \<Rightarrow> devnet \<Rightarrow> bool" where
  "session_inv v d \<longleftrightarrow> devnet_inv v d \<and> fst (snd v) \<noteq> [] \<and> dv_applier d = None"

lemma apply_report_nonempty: "accts \<noteq> [] \<Longrightarrow> apply_report report accts \<noteq> []"
proof
  assume a: "accts \<noteq> []" and e: "apply_report report accts = []"
  obtain k x m where "accts = (k, x) # m" using a by (cases accts) auto
  then have "map_of accts k = Some x" by simp
  then show False using apply_report_lookup[of report accts k] e by simp
qed

lemma on_committed_accounts:
  assumes "on_committed ec sg pubs b d h ht t = (b', d', ok)" "dv_applier d = None" "lb_accounts b \<noteq> []"
  shows "lb_accounts b' \<noteq> [] \<and> dv_applier d' = None"
proof -
  obtain b2 n where k: "hook_tick ec sg pubs b (dv_node d) ht t = (b2, n)" by fastforce
  then have "b' = b2" "d' = \<lparr>dv_node = n, dv_applier = None\<rparr>" using assms(1,2) by (auto simp: on_committed_def)
  then show ?thesis using hook_tick_accounts[of ec sg pubs b "dv_node d" ht t] k apply_report_nonempty[OF assms(3)] by simp
qed

lemma hook_follows_session: "hook_follows session_inv (block_effect ec sg pubs) (on_committed ec sg pubs)"
  unfolding hook_follows_def
proof (intro allI impI)
  fix s s' :: live_bridge and d h ht t d' ok
  assume inv: "session_inv (trading_view s) d" and e: "on_committed ec sg pubs s d h ht t = (s', d', ok)"
  have "lb_accounts s \<noteq> []" "dv_applier d = None" using inv by (simp_all add: session_inv_def trading_view_def)
  then have "lb_accounts s' \<noteq> [] \<and> dv_applier d' = None" using on_committed_accounts[OF e] by simp
  moreover have "devnet_inv (trading_view s) d" using inv by (simp add: session_inv_def)
  ultimately show "ok \<and> payload_side s' = payload_side s \<and> session_inv (trading_view s') d'
      \<and> (trading_view s', d') = block_effect ec sg pubs (h, ht, t) (trading_view s, d)"
    using hook_follows_devnet[of ec sg pubs] e unfolding hook_follows_def session_inv_def by (fastforce simp: trading_view_def)
qed

lemma headed_uses:
  assumes "cfg_ops cfg = live_ops env" "hook_follows J g (cfg_hook cfg)"
  shows "headed_app.uses env J g cfg"
proof -
  have hd: "payload_side s' = payload_side s \<Longrightarrow> headed s' = headed s" for s s' by (simp add: payload_side_def headed_def)
  have "live_app.hook_good env J g cfg" using live_uses[OF assms] by (simp add: live_app.uses_def)
  then have "headed_app.hook_good env J g cfg"
    using assms(2) hd unfolding headed_app.hook_good_def live_app.hook_good_def hook_follows_def by meson
  then show ?thesis using assms(1) by (simp add: headed_app.uses_def live_ops_def)
qed

section \<open>From run to run\<close>

text \<open>What a booted node has: a bridge with empty pending payloads on well-formed tables, and a parent it can build on.\<close>

definition resumable :: "chain_env \<Rightarrow> live_bridge \<Rightarrow> devnet \<Rightarrow> block_hash \<Rightarrow> bool" where
  "resumable env b d p \<longleftrightarrow> live_inv env b \<and> headed b \<and> tables_ok b \<and> lb_accounts b \<noteq> [] \<and> dv_applier d = None
     \<and> lb_pending b = [] \<and> lb_next_payload_id b = 0 \<and> lv_number_of env b p \<noteq> None"

lemma session_start:
  assumes "resumable env b d p"
  shows "session_inv (trading_view b) d" "lv_room b n = (int n \<le> u64_max)"
proof -
  have "tables_ok (of_view (trading_view b))" using assms tables_ok_view[of b "of_view (trading_view b)"] by (simp add: resumable_def)
  then show "session_inv (trading_view b) d" using assms by (simp add: resumable_def session_inv_def devnet_inv_def devnet_ok_def trading_view_def)
  show "lv_room b n = (int n \<le> u64_max)" using assms by (simp add: resumable_def lv_room_def)
qed

lemma run_keeps:
  assumes "resumable (se_env a) b d p0" "int (length msgs) \<le> u64_max"
    and "run_engine_app (engine_config a pubs) (initial_app b d p0 h0) msgs = (Inr ds, st)"
  obtains calls where "map fst calls = ds" "length ds = max 1 (se_rounds a)" "lb_head (ap_bridge st) = Some (last ds)"
    "(trading_view (ap_bridge st), ap_hook st) = fold (block_effect (se_ec a) (se_signing a) pubs) calls (trading_view b, d)"
    "live_inv (se_env a) (ap_bridge st)" "headed (ap_bridge st)" "session_inv (trading_view (ap_bridge st)) (ap_hook st)"
proof -
  let ?cfg = "engine_config a pubs" and ?g = "block_effect (se_ec a) (se_signing a) pubs"
  have u: "headed_app.uses (se_env a) session_inv ?g ?cfg"
    by (rule headed_uses) (simp_all add: engine_config_def hook_follows_session)
  have start: "headed_app.app_ok (se_env a) session_inv ?g (trading_view b, d) p0 (initial_app b d p0 h0)"
    using assms(1) session_start(1)[OF assms(1)]
    by (auto simp: headed_app.app_ok_def headed_app.hook_in_step_def initial_app_def resumable_def intro: exI[of _ "[]"])
  have "lv_room (ap_bridge (initial_app b d p0 h0)) (length msgs)" using session_start(2)[OF assms(1)] assms(2) by (simp add: initial_app_def)
  moreover have "length (ap_decided (initial_app b d p0 h0)) < max 1 (cfg_stop_after ?cfg)" "cfg_stop_after ?cfg = se_rounds a"
    by (simp_all add: initial_app_def engine_config_def less_max_iff_disj)
  ultimately have ok: "headed_app.app_ok (se_env a) session_inv ?g (trading_view b, d) p0 st" "ds = ap_decided st" "length ds = max 1 (se_rounds a)"
    using headed_app.run_ok[OF u start _ _ assms(3)] by auto
  then have "ds \<noteq> []" by auto
  then show thesis using ok that unfolding headed_app.app_ok_def headed_app.hook_in_step_def by blast
qed

lemma mark_book_ok: "book_ok mark_book"
  by (simp add: book_ok_def mark_book_def wf_half_def in_u64_def)

lemma resumable_restored:
  assumes "live_inv env b" "headed b" "accounts_ok (lb_accounts b)" "lb_accounts b \<noteq> []" "dv_applier d = None" "lv_number_of env b p \<noteq> None"
  shows "resumable env (restored b) d p"
proof -
  note r = restored_facts[OF assms(3)]
  have "lb_accounts (restored b) \<noteq> []" using r(1) assms(4) by (metis map_of_eq_empty_iff)
  then show ?thesis
    using assms r mark_book_ok
    by (simp add: resumable_def live_inv_def pending_hashed_def chain_sealed_def headed_def tables_ok_def lv_number_of_def parent_lookup_def)
qed

text \<open>What a successful run saves, and what boots from it.\<close>

lemma run_saved:
  assumes "boot (se_signing a) (se_genesis a) files = Inr (b, d, pubs, p0, h0)" "resumable (se_env a) b d p0" "int (length msgs) \<le> u64_max"
    and "run_reth_devnet a files msgs ending = (Inr (Inr ds), files')"
  obtains B D calls where "files' = files\<lparr>bf_bridge := Some (fst (shutdown B D)), bf_coordinator := Some (snd (shutdown B D))\<rparr>"
    "map fst calls = ds" "length ds = max 1 (se_rounds a)" "lb_head B = Some (last ds)"
    "(trading_view B, D) = fold (block_effect (se_ec a) (se_signing a) pubs) calls (trading_view b, d)"
    "live_inv (se_env a) B" "headed B" "tables_ok B" "lb_accounts B \<noteq> []"
proof -
  obtain st where run: "run_engine_app (engine_config a pubs) (initial_app b d p0 h0) msgs = (Inr ds, st)"
    and files': "files' = files\<lparr>bf_bridge := Some (fst (shutdown (ap_bridge st) (ap_hook st))), bf_coordinator := Some (snd (shutdown (ap_bridge st) (ap_hook st)))\<rparr>"
    using assms(4) by (cases ending) (auto simp: run_reth_devnet_def assms(1) Let_def split: prod.splits)
  obtain calls where k: "map fst calls = ds" "length ds = max 1 (se_rounds a)" "lb_head (ap_bridge st) = Some (last ds)"
    "(trading_view (ap_bridge st), ap_hook st) = fold (block_effect (se_ec a) (se_signing a) pubs) calls (trading_view b, d)"
    "live_inv (se_env a) (ap_bridge st)" "headed (ap_bridge st)" and inv: "session_inv (trading_view (ap_bridge st)) (ap_hook st)"
    by (rule run_keeps[OF assms(2,3) run])
  have "tables_ok (ap_bridge st)" "lb_accounts (ap_bridge st) \<noteq> []"
    using inv tables_ok_view[of "ap_bridge st" "of_view (trading_view (ap_bridge st))"] by (simp_all add: session_inv_def devnet_inv_def) (simp add: trading_view_def)
  with files' k show thesis by (rule that)
qed

lemma saved_boots:
  assumes "live_inv (se_env a) B" "headed B" "tables_ok B" "lb_accounts B \<noteq> []" "lb_head B = Some p" "synthetic_publishers (se_signing a) = Some pubs"
    and "codec_total (se_env a)" "se_validators a \<noteq> []" "se_network_open a"
  obtains d' h' where
    "boot (se_signing a) (se_genesis a) \<lparr>bf_bridge = Some (fst (shutdown B D)), bf_coordinator = Some (snd (shutdown B D)), bf_history = None, bf_fixture = fx\<rparr>
      = Inr (restored B, d', pubs, p, h')" "resumable (se_env a) (restored B) d' p"
    "\<And>h r. \<exists>P. handle (engine_config a pubs) (initial_app (restored B) d' p h') (GetValue h r) = Go P"
proof -
  let ?d' = "\<lparr>dv_node = boot_coordinator (Some (node_snapshot (dv_node D))) pubs, dv_applier = None\<rparr>"
  let ?h' = "sat_u64 (int (length (lb_chain B)) + 1)"
  have ok: "accounts_ok (lb_accounts B)" using assms(3) by (simp add: tables_ok_def)
  have num: "lv_number_of (se_env a) B p \<noteq> None" using assms(2,5) by (auto simp: headed_def lv_number_of_def parent_lookup_def)
  have boot': "boot (se_signing a) (se_genesis a) \<lparr>bf_bridge = Some (fst (shutdown B D)), bf_coordinator = Some (snd (shutdown B D)), bf_history = None, bf_fixture = fx\<rparr>
      = Inr (restored B, ?d', pubs, p, ?h')"
    unfolding boot_shutdown[OF assms(3,4,6)] by (simp add: assms(5))
  have res: "resumable (se_env a) (restored B) ?d' p" by (rule resumable_restored[OF assms(1,2) ok assms(4) _ num]) simp
  have agree: "in_agreement (se_env a) session_inv (trading_view (restored B), ?d') p [] (initial_app (restored B) ?d' p ?h')"
    using res session_start(1)[OF res] by (simp add: in_agreement_def initial_app_def resumable_def)
  have cfg: "cfg_ops (engine_config a pubs) = live_ops (se_env a)" "cfg_validator_set (engine_config a pubs) \<noteq> []" "cfg_network_open (engine_config a pubs)"
    using assms(8,9) by (simp_all add: engine_config_def)
  have "\<exists>P. handle (engine_config a pubs) (initial_app (restored B) ?d' p ?h') (GetValue h r) = Go P" for h r
    by (rule proposes[OF cfg(1) assms(7) cfg(2,3) agree, of h r]) (rule exI)
  with boot' res show thesis by (rule that)
qed

section \<open>A concrete run\<close>

definition demo_session :: "validator_set \<Rightarrow> (publisher_key, bytes, bytes) session_args" where
  "demo_session vs = \<lparr>se_env = total_env, se_ec = self_signed_scheme, se_signing = demo_signing, se_genesis = [0],
     se_validators = vs, se_rounds = 1, se_network_open = True\<rparr>"

definition demo_saved :: live_bridge where
  "demo_saved = new_live\<lparr>lb_accounts := [(7, demo_loser)]\<rparr>"

definition demo_files :: boot_files where
  "demo_files = \<lparr>bf_bridge = Some (fst (shutdown demo_saved demo_devnet)), bf_coordinator = Some (snd (shutdown demo_saved demo_devnet)),
     bf_history = None, bf_fixture = None\<rparr>"

text \<open>One round of the demo session: propose, then decide what was proposed.\<close>

lemma demo_session_run:
  assumes "vs \<noteq> []"
  obtains b d pubs h0 msgs ds files' where "boot demo_signing [0] demo_files = Inr (b, d, pubs, [0], h0)" "resumable total_env b d [0]" "length msgs = 2"
    "run_reth_devnet (demo_session vs) demo_files msgs Returned = (Inr (Inr ds), files')"
proof -
  have saved: "tables_ok demo_saved" "lb_accounts demo_saved \<noteq> []" "lb_head demo_saved = None" "headed demo_saved"
    "live_inv total_env demo_saved" "lv_number_of total_env demo_saved [0] \<noteq> None"
    using total_env_facts
    by (simp_all add: demo_saved_def tables_ok_def new_live_def trading.extend_def new_trading_def accounts_ok_def demo_loser_def account_ok_def in_i64_def in_u64_def
        headed_def live_inv_def pending_hashed_def chain_sealed_def lv_number_of_def parent_lookup_def)
  obtain pubs where pubs: "synthetic_publishers demo_signing = Some pubs"
    by (simp add: synthetic_publishers_def SYNTHETIC_FEEDS_def from_seed_def demo_signing_def)
  let ?d = "\<lparr>dv_node = boot_coordinator (Some (node_snapshot (dv_node demo_devnet))) pubs, dv_applier = None\<rparr>"
  let ?h0 = "sat_u64 (int (length (lb_chain demo_saved)) + 1)" and ?b = "restored demo_saved" and ?cfg = "engine_config (demo_session vs) pubs"
  have boot: "boot demo_signing [0] demo_files = Inr (?b, ?d, pubs, [0], ?h0)"
    unfolding demo_files_def boot_shutdown[OF saved(1,2) pubs] by (simp add: saved(3))
  have res: "resumable total_env ?b ?d [0]"
    by (rule resumable_restored[OF saved(5,4) _ saved(2) _ saved(6)]) (use saved(1) in \<open>simp_all add: tables_ok_def\<close>)
  have agree: "in_agreement total_env session_inv (trading_view ?b, ?d) [0] [] (initial_app ?b ?d [0] ?h0)"
    using res session_start(1)[OF res] by (simp add: in_agreement_def initial_app_def resumable_def)
  have cfg: "cfg_ops ?cfg = live_ops total_env" "cfg_validator_set ?cfg \<noteq> []" "cfg_network_open ?cfg" "cfg_stop_after ?cfg = 1"
    "hook_follows session_inv (block_effect self_signed_scheme demo_signing pubs) (cfg_hook ?cfg)"
    using assms by (simp_all add: engine_config_def demo_session_def hook_follows_session)
  obtain P v t where P: "handle ?cfg (initial_app ?b ?d [0] ?h0) (GetValue 1 0) = Go P" "holds_block total_env session_inv (trading_view ?b, ?d) [] v t P"
    by (rule proposes[OF cfg(1) total_env_facts(1) cfg(2,3) agree])
  obtain st' where st': "handle ?cfg P (Decided (certificate (demo_plan 0) v)) = (if length ([] :: block_hash list) + 1 \<ge> cfg_stop_after ?cfg then Done st' else Go st')"
    by (rule decides[OF cfg(1,5) P(2), of "demo_plan 0"])
  have sg: "se_signing (demo_session vs) = demo_signing" "se_genesis (demo_session vs) = [0]" by (simp_all add: demo_session_def)
  let ?msgs = "[GetValue 1 0, Decided (certificate (demo_plan 0) v)]"
  have run: "run_engine_app ?cfg (initial_app ?b ?d [0] ?h0) ?msgs = (Inr (ap_decided st'), st')"
    using P(1) st' by (simp add: cfg(4) del: handle.simps)
  have "run_reth_devnet (demo_session vs) demo_files ?msgs Returned = (Inr (Inr (ap_decided st')), demo_files
      \<lparr>bf_bridge := Some (fst (shutdown (ap_bridge st') (ap_hook st'))), bf_coordinator := Some (snd (shutdown (ap_bridge st') (ap_hook st')))\<rparr>)"
    using sg by (simp add: run_reth_devnet_def boot run case_prod_beta del: run_engine_app.simps)
  then show thesis by (intro that[OF boot res]) simp_all
qed

end
