(* ===== verification/Runner.thy ===== *)
theory Runner
  imports Engine_App Coordinator
begin

text \<open>
  The synchronous runners of \<open>crates/consensus/src/runner.rs\<close>, which drive Malachite's \<open>Driver\<close> to a decision over a bridge, and the in-memory
  devnet of \<open>bin/openhl/src/main.rs\<close> built on them. The driver is a parameter, the record \<open>driver\<close>; key generation, SHA-256 and
  Ed25519 are arguments. The loop may run forever for some drivers: it is a partial function, and that it returns is a theorem.
\<close>

section \<open>The driver\<close>

datatype driver_input =
    In_NewRound height round address
  | In_ProposeValue round block_hash
  | In_Proposal "proposal signed_message"
  | In_Vote "vote signed_message"

datatype driver_output =
    Out_GetValue height round
  | Out_Propose proposal
  | Out_Vote vote
  | Out_Decide round proposal
  | Out_NewRound height round
  | Out_ScheduleTimeout

record 'd driver =
  dr_new :: "height \<Rightarrow> validator_set \<Rightarrow> address \<Rightarrow> 'd"
  dr_process :: "'d \<Rightarrow> driver_input \<Rightarrow> 'd \<times> (unit + driver_output list)"

datatype run_error = DriverFailed | RunBridge bridge_error | Stuck | InvalidValidatorCount | RunPanic

section \<open>The loop\<close>

text \<open>One pass over the outputs either returns or leaves the inputs of the next pass.\<close>

datatype turn = Continue "driver_input list" | Returned "run_error + block_hash"

fun feed :: "'d driver \<Rightarrow> 'd \<Rightarrow> driver_input list \<Rightarrow> driver_output list \<Rightarrow> 'd \<times> (unit + driver_output list)" where
  "feed dr d [] outputs = (d, Inr outputs)"
| "feed dr d (i # inputs) outputs =
     (case dr_process dr d i of
        (d', Inl e) \<Rightarrow> (d', Inl e)
      | (d', Inr batch) \<Rightarrow> feed dr d' inputs (outputs @ batch))"

partial_function (option) drive ::
  "('s \<Rightarrow> driver_output list \<Rightarrow> driver_input list \<Rightarrow> 's \<times> turn) \<Rightarrow> 'd driver \<Rightarrow> 's \<Rightarrow> 'd \<Rightarrow> driver_output list
     \<Rightarrow> ('s \<times> (run_error + block_hash)) option" where
  "drive handler dr s d outputs =
     (case handler s outputs [] of
        (s', Returned r) \<Rightarrow> Some (s', r)
      | (s', Continue inputs) \<Rightarrow>
          if inputs = [] then Some (s', Inl Stuck)
          else case feed dr d inputs [] of
                 (d', Inl e) \<Rightarrow> Some (s', Inl DriverFailed)
               | (d', Inr outputs') \<Rightarrow> drive handler dr s' d' outputs')"

text \<open>\<open>Output::Decide\<close> is the same arm in both loops.\<close>

definition decide :: "'s bridge_ops \<Rightarrow> 's \<Rightarrow> proposal \<Rightarrow> 's \<times> turn" where
  "decide ops s p =
     (let h = prop_value p
      in case bo_commit ops s h of
           (s', Inl e) \<Rightarrow> (s', Returned (Inl (RunBridge e)))
         | (s', Inr _) \<Rightarrow> (s', Returned (Inr h)))"

section \<open>One validator\<close>

text \<open>\<open>ts\<close> is the placeholder signature \<open>Signature::test()\<close> of the signing package.\<close>

fun single_outputs ::
  "'s bridge_ops \<Rightarrow> sig_bytes \<Rightarrow> block_hash \<Rightarrow> address \<Rightarrow> 's \<Rightarrow> driver_output list \<Rightarrow> driver_input list \<Rightarrow> 's \<times> turn" where
  "single_outputs ops ts parent addr s [] inputs = (s, Continue inputs)"
| "single_outputs ops ts parent addr s (Out_GetValue h r # os) inputs =
     (case bo_build_payload ops s parent default_attrs of
        (s1, Inl e) \<Rightarrow> (s1, Returned (Inl (RunBridge e)))
      | (s1, Inr i) \<Rightarrow> (case bo_payload_ready ops s1 i of
          Inl e \<Rightarrow> (s1, Returned (Inl (RunBridge e)))
        | Inr block \<Rightarrow> single_outputs ops ts parent addr s1 os (inputs @ [In_ProposeValue r (eb_hash block)])))"
| "single_outputs ops ts parent addr s (Out_Propose p # os) inputs =
     single_outputs ops ts parent addr s os (inputs @ [In_Proposal \<lparr>sm_message = p, sm_signature = ts\<rparr>])"
| "single_outputs ops ts parent addr s (Out_Vote v # os) inputs =
     single_outputs ops ts parent addr s os (inputs @ [In_Vote \<lparr>sm_message = v, sm_signature = ts\<rparr>])"
| "single_outputs ops ts parent addr s (Out_Decide r p # os) inputs = decide ops s p"
| "single_outputs ops ts parent addr s (Out_NewRound h r # os) inputs =
     single_outputs ops ts parent addr s os (inputs @ [In_NewRound h r addr])"
| "single_outputs ops ts parent addr s (Out_ScheduleTimeout # os) inputs = single_outputs ops ts parent addr s os inputs"

text \<open>The last twenty of the 32 bytes of the digest of the public key.\<close>

definition address_from_public_key :: "(bytes \<Rightarrow> bytes) \<Rightarrow> pub_key \<Rightarrow> address" where
  "address_from_public_key sha256 pk = take 20 (drop 12 (sha256 pk))"

definition run_single_validator ::
  "'s bridge_ops \<Rightarrow> 'd driver \<Rightarrow> sig_bytes \<Rightarrow> (bytes \<Rightarrow> bytes) \<Rightarrow> 'k ed25519 \<Rightarrow> 'k \<Rightarrow> 's \<Rightarrow> block_hash \<Rightarrow> ('s \<times> (run_error + block_hash)) option" where
  "run_single_validator ops dr ts sha256 ed sk s parent =
     (let public = ed_public_key ed sk;
          address = address_from_public_key sha256 public;
          vs = validator_set_new [\<lparr>val_address = address, val_public_key = public, val_voting_power = 1\<rparr>];
          height = height_INITIAL;
          d0 = dr_new dr height vs address
      in case dr_process dr d0 (In_NewRound height 0 address) of
           (d1, Inl e) \<Rightarrow> Some (s, Inl DriverFailed)
         | (d1, Inr outputs) \<Rightarrow> drive (single_outputs ops ts parent address) dr s d1 outputs)"

section \<open>Several validators\<close>

definition matching_vote_from :: "vote \<Rightarrow> address \<Rightarrow> block_hash nil_or_val \<Rightarrow> vote" where
  "matching_vote_from template addr value_id =
     \<lparr>vote_height = vote_height template, vote_round = vote_round template,
      vote_value_id = (case vote_value_id template of NilVal \<Rightarrow> NilVal | Val _ \<Rightarrow> value_id),
      vote_vote_type = vote_vote_type template, vote_address = addr\<rparr>"

definition peer_votes :: "'k ed25519 \<Rightarrow> (address, 'k) hash_map \<Rightarrow> address \<Rightarrow> vote \<Rightarrow> block_hash nil_or_val \<Rightarrow> driver_input list" where
  "peer_votes ed signers our_address v value_id =
     map (\<lambda>(addr, sk). In_Vote (sign_vote ed (matching_vote_from v addr value_id) sk)) (filter (\<lambda>(addr, sk). addr \<noteq> our_address) signers)"

fun multi_outputs ::
  "'s bridge_ops \<Rightarrow> 'k ed25519 \<Rightarrow> 'k \<Rightarrow> (address, 'k) hash_map \<Rightarrow> address \<Rightarrow> validator_set \<Rightarrow> block_hash
     \<Rightarrow> 's \<Rightarrow> driver_output list \<Rightarrow> driver_input list \<Rightarrow> 's \<times> turn" where
  "multi_outputs ops ed sk signers addr vs v s [] inputs = (s, Continue inputs)"
| "multi_outputs ops ed sk signers addr vs v s (Out_GetValue h r # os) inputs =
     multi_outputs ops ed sk signers addr vs v s os (inputs @ [In_ProposeValue r v])"
| "multi_outputs ops ed sk signers addr vs v s (Out_Propose p # os) inputs =
     multi_outputs ops ed sk signers addr vs v s os (inputs @ [In_Proposal (sign_proposal ed p sk)])"
| "multi_outputs ops ed sk signers addr vs v s (Out_Vote w # os) inputs =
     multi_outputs ops ed sk signers addr vs v s os (inputs @ In_Vote (sign_vote ed w sk) # peer_votes ed signers addr w (Val v))"
| "multi_outputs ops ed sk signers addr vs v s (Out_Decide r p # os) inputs = decide ops s p"
| "multi_outputs ops ed sk signers addr vs v s (Out_NewRound h r # os) inputs =
     (case select_proposer vs h r of
        None \<Rightarrow> (s, Returned (Inl RunPanic))
      | Some next_proposer \<Rightarrow> multi_outputs ops ed sk signers addr vs v s os (inputs @ [In_NewRound h r (val_address next_proposer)]))"
| "multi_outputs ops ed sk signers addr vs v s (Out_ScheduleTimeout # os) inputs = multi_outputs ops ed sk signers addr vs v s os inputs"

text \<open>The keys are generated, one per validator; the first is ours and has power two.\<close>

definition validator_entries :: "(bytes \<Rightarrow> bytes) \<Rightarrow> 'k ed25519 \<Rightarrow> 'k list \<Rightarrow> (address \<times> 'k \<times> validator) list" where
  "validator_entries sha256 ed keys =
     map (\<lambda>(i, sk). let pk = ed_public_key ed sk; addr = address_from_public_key sha256 pk
                     in (addr, sk, \<lparr>val_address = addr, val_public_key = pk, val_voting_power = (if i = 0 then 2 else 1)\<rparr>))
       (enumerate 0 keys)"

definition run_multi_validator ::
  "'s bridge_ops \<Rightarrow> 'd driver \<Rightarrow> (bytes \<Rightarrow> bytes) \<Rightarrow> 'k ed25519 \<Rightarrow> 'k list \<Rightarrow> 's \<Rightarrow> block_hash \<Rightarrow> ('s \<times> (run_error + block_hash)) option" where
  "run_multi_validator ops dr sha256 ed keys s parent =
     (if keys = [] then Some (s, Inl InvalidValidatorCount)
      else let entries = validator_entries sha256 ed keys;
               our_address = fst (entries ! 0);
               our_key = keys ! 0;
               vs = validator_set_new (map (\<lambda>(_, _, v). v) entries);
               signers = fold (\<lambda>(addr, sk, _). AList.update addr sk) entries [];
               height = height_INITIAL
           in case bo_build_payload ops s parent default_attrs of
                (s1, Inl e) \<Rightarrow> Some (s1, Inl (RunBridge e))
              | (s1, Inr i) \<Rightarrow> (case bo_payload_ready ops s1 i of
                  Inl e \<Rightarrow> Some (s1, Inl (RunBridge e))
                | Inr block \<Rightarrow>
                    let v = eb_hash block; loop = drive (multi_outputs ops ed our_key signers our_address vs v) dr s1
                    in case select_proposer vs height 0 of
                         None \<Rightarrow> Some (s1, Inl RunPanic)
                       | Some proposer \<Rightarrow>
                           (case dr_process dr (dr_new dr height vs our_address) (In_NewRound height 0 (val_address proposer)) of
                              (d1, Inl e) \<Rightarrow> Some (s1, Inl DriverFailed)
                            | (d1, Inr outputs) \<Rightarrow>
                                if val_address proposer = our_address then loop d1 outputs
                                else (case map_of signers (val_address proposer) of
                                        None \<Rightarrow> Some (s1, Inl RunPanic)
                                      | Some psk \<Rightarrow>
                                          let p = new_proposal height 0 v Round_Nil (val_address proposer)
                                          in case dr_process dr d1 (In_Proposal (sign_proposal ed p psk)) of
                                               (d2, Inl e) \<Rightarrow> Some (s1, Inl DriverFailed)
                                             | (d2, Inr batch) \<Rightarrow> loop d2 (outputs @ batch)))))"

section \<open>The in-memory devnet\<close>

definition mem_ops :: "mem_state bridge_ops" where
  "mem_ops = \<lparr>bo_build_payload = mem_build_payload, bo_payload_ready = mem_payload_ready, bo_commit = mem_commit,
     bo_encode_proposed_block = (\<lambda>s i. Inl Internal), bo_register_proposed_block = (\<lambda>s bs. (s, Inl Internal))\<rparr>"

text \<open>\<open>now k\<close> is the wall clock read in round \<open>k\<close>, \<open>key k\<close> the key generated there.\<close>

definition devnet_input :: "(nat \<Rightarrow> int) \<Rightarrow> nat \<Rightarrow> open_hl_node \<Rightarrow> tick_input" where
  "devnet_input now k node =
     \<lparr>in_block_height = int k + 1, in_block_time = sat_u64 (now k + int k), in_mark = 100,
      in_account_snapshots = [], in_vault_total_assets = total_assets (n_vault node)\<rparr>"

fun devnet_rounds ::
  "'d driver \<Rightarrow> sig_bytes \<Rightarrow> (bytes \<Rightarrow> bytes) \<Rightarrow> 'k ed25519 \<Rightarrow> (nat \<Rightarrow> 'k) \<Rightarrow> (nat \<Rightarrow> int) \<Rightarrow> nat \<Rightarrow> nat \<Rightarrow> mem_state \<Rightarrow> open_hl_node
     \<Rightarrow> block_hash \<Rightarrow> (mem_state \<times> open_hl_node \<times> (run_error + block_hash list)) option" where
  "devnet_rounds dr ts sha256 ed key now 0 k s node parent = Some (s, node, Inr [])"
| "devnet_rounds dr ts sha256 ed key now (Suc rounds) k s node parent =
     (case run_single_validator mem_ops dr ts sha256 ed (key k) s parent of
        None \<Rightarrow> None
      | Some (s', Inl e) \<Rightarrow> Some (s', node, Inl e)
      | Some (s', Inr decided) \<Rightarrow>
          let (node', report) = tick node (devnet_input now k node)
          in map_option (\<lambda>(s2, n2, r). (s2, n2, map_sum id (\<lambda>hs. decided # hs) r))
               (devnet_rounds dr ts sha256 ed key now rounds (Suc k) s' node' decided))"

definition run_devnet ::
  "'d driver \<Rightarrow> sig_bytes \<Rightarrow> (bytes \<Rightarrow> bytes) \<Rightarrow> 'k ed25519 \<Rightarrow> (nat \<Rightarrow> 'k) \<Rightarrow> (nat \<Rightarrow> int) \<Rightarrow> nat
     \<Rightarrow> (mem_state \<times> open_hl_node \<times> (run_error + block_hash list)) option" where
  "run_devnet dr ts sha256 ed key now rounds =
     devnet_rounds dr ts sha256 ed key now rounds 0 new_mem (new_node node_hyperliquid_default) (replicate 32 0)"

section \<open>A driver of the Tendermint algorithm with one validator\<close>

text \<open>What the documentation of the driver promises to a validator that holds all the voting power: a new round asks it for a value, a proposed value becomes a
  proposal, a valid proposal a prevote, its prevote a precommit, and its precommit the decision on that proposal. Scheduling timeouts
  may happen at any point.\<close>

definition acting :: "driver_output list \<Rightarrow> driver_output list" where
  "acting os = filter (\<lambda>x. x \<noteq> Out_ScheduleTimeout) os"

definition answers :: "'d driver \<Rightarrow> 'd \<Rightarrow> driver_input \<Rightarrow> ('d \<Rightarrow> driver_output \<Rightarrow> bool) \<Rightarrow> bool" where
  "answers dr d i Q \<longleftrightarrow> (\<exists>d' os x. dr_process dr d i = (d', Inr os) \<and> acting os = [x] \<and> Q d' x)"

definition then_decides :: "'d driver \<Rightarrow> proposal \<Rightarrow> 'd \<Rightarrow> driver_output \<Rightarrow> bool" where
  "then_decides dr p d x \<longleftrightarrow> (\<exists>w. x = Out_Vote w \<and> vote_vote_type w = Precommit
     \<and> (\<forall>sg. answers dr d (In_Vote \<lparr>sm_message = w, sm_signature = sg\<rparr>) (\<lambda>d' x'. x' = Out_Decide 0 p)))"

definition then_precommits :: "'d driver \<Rightarrow> proposal \<Rightarrow> 'd \<Rightarrow> driver_output \<Rightarrow> bool" where
  "then_precommits dr p d x \<longleftrightarrow> (\<exists>w. x = Out_Vote w \<and> vote_vote_type w = Prevote
     \<and> (\<forall>sg. answers dr d (In_Vote \<lparr>sm_message = w, sm_signature = sg\<rparr>) (then_decides dr p)))"

definition then_prevotes :: "'d driver \<Rightarrow> block_hash \<Rightarrow> 'd \<Rightarrow> driver_output \<Rightarrow> bool" where
  "then_prevotes dr b d x \<longleftrightarrow> (\<exists>p. x = Out_Propose p \<and> prop_value p = b
     \<and> (\<forall>sg. answers dr d (In_Proposal \<lparr>sm_message = p, sm_signature = sg\<rparr>) (then_precommits dr p)))"

definition sole_validator_driver :: "'d driver \<Rightarrow> bool" where
  "sole_validator_driver dr \<longleftrightarrow> (\<forall>h v. answers dr (dr_new dr h [v] (val_address v)) (In_NewRound h 0 (val_address v))
     (\<lambda>d x. x = Out_GetValue h 0 \<and> (\<forall>b. answers dr d (In_ProposeValue 0 b) (then_prevotes dr b))))"

lemmas round_stages = then_decides_def then_precommits_def then_prevotes_def

section \<open>The loop returns\<close>

lemma drive_continue:
  assumes "handler s outputs [] = (s', Continue [i])" "dr_process dr d i = (d', Inr os)"
  shows "drive handler dr s d outputs = drive handler dr s' d' os"
  using assms by (subst drive.simps) simp

lemma drive_return: "handler s outputs [] = (s', Returned r) \<Longrightarrow> drive handler dr s d outputs = Some (s', r)"
  by (subst drive.simps) simp

lemma single_outputs_acting:
  "single_outputs ops ts parent addr s os inputs = single_outputs ops ts parent addr s (acting os) inputs"
  by (induction ops ts parent addr s os inputs rule: single_outputs.induct) (auto simp: acting_def split: prod.splits sum.splits)

lemma answersE:
  assumes "answers dr d i Q"
  obtains d' os x where "dr_process dr d i = (d', Inr os)" "acting os = [x]" "Q d' x"
  using assms unfolding answers_def by blast

text \<open>Whatever the driver does, a successful return is the successful commit of a decided proposal.\<close>

lemma decide_cases:
  "decide ops s p = (s', t) \<Longrightarrow> (\<exists>e. t = Returned (Inl (RunBridge e)) \<and> bo_commit ops s (prop_value p) = (s', Inl e))
     \<or> (t = Returned (Inr (prop_value p)) \<and> bo_commit ops s (prop_value p) = (s', Inr ()))"
  by (auto simp: decide_def Let_def split: prod.splits sum.splits)

lemma single_returns:
  "single_outputs ops ts parent addr s os inputs = (s', Returned (Inr h)) \<Longrightarrow>
     \<exists>s0 r p. Out_Decide r p \<in> set os \<and> h = prop_value p \<and> bo_commit ops s0 h = (s', Inr ())"
proof (induction ops ts parent addr s os inputs rule: single_outputs.induct)
  case (5 ops ts parent addr s r p os inputs)
  then show ?case using decide_cases[of ops s p s'] by (auto intro!: exI[of _ s] exI[of _ r] exI[of _ p])
qed (fastforce split: prod.splits sum.splits)+

lemma multi_returns:
  "multi_outputs ops ed sk signers addr vs v s os inputs = (s', Returned (Inr h)) \<Longrightarrow>
     \<exists>s0 r p. Out_Decide r p \<in> set os \<and> h = prop_value p \<and> bo_commit ops s0 h = (s', Inr ())"
proof (induction ops ed sk signers addr vs v s os inputs rule: multi_outputs.induct)
  case (5 ops ed sk signers addr vs v s r p os inputs)
  then show ?case using decide_cases[of ops s p s'] by (auto intro!: exI[of _ s] exI[of _ r] exI[of _ p])
qed (fastforce split: option.splits)+

lemma drive_commits:
  assumes sound: "\<And>s os s' h. handler s os [] = (s', Returned (Inr h)) \<Longrightarrow>
      \<exists>s0 r p. Out_Decide r p \<in> set os \<and> h = prop_value p \<and> bo_commit ops s0 h = (s', Inr ())"
    and "drive handler (dr :: 'd driver) (s :: 's) d outputs = Some (s', Inr h)"
  shows "\<exists>s0. bo_commit ops s0 h = (s', Inr ())"
proof -
  define P where "P f dr s d outputs y \<longleftrightarrow> (f = handler \<longrightarrow> (\<forall>s' h. y = (s', Inr h) \<longrightarrow> (\<exists>s0. bo_commit ops s0 h = (s', Inr ()))))"
    for f and dr :: "'d driver" and s :: 's and d :: 'd and outputs :: "driver_output list" and y :: "'s \<times> (run_error + block_hash)"
  have "P handler dr s d outputs (s', Inr h)"
  proof (rule drive.raw_induct[where P = P, OF _ assms(2)], unfold P_def, intro impI allI)
    fix rec f dr s d outputs y s' h
    assume IH: "\<And>f dr s d outputs y. rec f dr s d outputs = Some y \<Longrightarrow>
        f = handler \<longrightarrow> (\<forall>s' h. y = (s', Inr h) \<longrightarrow> (\<exists>s0. bo_commit ops s0 h = (s', Inr ())))"
      and body: "(case f s outputs [] of
        (s', Continue inputs) \<Rightarrow> if inputs = [] then Some (s', Inl Stuck)
          else case feed dr d inputs [] of (d', Inl e) \<Rightarrow> Some (s', Inl DriverFailed) | (d', Inr outputs') \<Rightarrow> rec f dr s' d' outputs'
        | (s', Returned r) \<Rightarrow> Some (s', r)) = Some y"
      and f: "f = handler" and y: "y = (s', Inr h)"
    show "\<exists>s0. bo_commit ops s0 h = (s', Inr ())"
    proof (cases "f s outputs []")
      case (Pair s1 t)
      show ?thesis
      proof (cases t)
        case (Returned r)
        then have "handler s outputs [] = (s', Returned (Inr h))" using body y f Pair by simp
        then show ?thesis using sound by blast
      next
        case (Continue inputs)
        then obtain d' outputs' where "rec handler dr s1 d' outputs' = Some (s', Inr h)"
          using body y f Pair by (auto split: if_splits prod.splits sum.splits)
        then show ?thesis using IH by blast
      qed
    qed
  qed
  then show ?thesis by (simp add: P_def)
qed

lemma runners_commit:
  "run_single_validator ops dr ts sha256 ed sk s parent = Some (s', Inr h) \<Longrightarrow> \<exists>s0. bo_commit ops s0 h = (s', Inr ())"
  "run_multi_validator ops dr sha256 ed keys s parent = Some (s', Inr h) \<Longrightarrow> \<exists>s0. bo_commit ops s0 h = (s', Inr ())"
proof -
  show "\<exists>s0. bo_commit ops s0 h = (s', Inr ())" if "run_single_validator ops dr ts sha256 ed sk s parent = Some (s', Inr h)"
    using that drive_commits[OF single_returns]
    by (fastforce simp: run_single_validator_def Let_def split: prod.splits sum.splits)
  show "\<exists>s0. bo_commit ops s0 h = (s', Inr ())" if "run_multi_validator ops dr sha256 ed keys s parent = Some (s', Inr h)"
    using that drive_commits[OF multi_returns]
    by (fastforce simp: run_multi_validator_def Let_def split: if_splits prod.splits sum.splits option.splits)
qed

context consensus_bridge
begin

text \<open>One round of a single validator is one height of the reference loop \<open>produce\<close>.\<close>

lemma single_validator_decides:
  assumes dr: "sole_validator_driver dr" and inv: "bridge_inv s" "number_of s parent = Some n"
    and ops: "bo_build_payload ops = build_payload" "bo_payload_ready ops = payload_ready" "bo_commit ops = commit"
  obtains s1 i b s2 where "build_payload s parent default_attrs = (s1, Inr i)" "payload_ready s1 i = Inr b"
    "commit s1 (eb_hash b) = (s2, Inr ())" "bridge_inv s2" "number_of s2 (eb_hash b) = Some (eb_number b)"
    "run_single_validator ops dr ts sha256 ed sk s parent = Some (s2, Inr (eb_hash b))"
proof -
  obtain s1 i b s2 where b: "build_payload s parent default_attrs = (s1, Inr i)" "payload_ready s1 i = Inr b"
    "commit s1 (eb_hash b) = (s2, Inr ())" "bridge_inv s2" "number_of s2 (eb_hash b) = Some (eb_number b)"
    using produce_step[OF inv] by metis
  define addr where "addr = address_from_public_key sha256 (ed_public_key ed sk)"
  define v where "v = \<lparr>val_address = addr, val_public_key = ed_public_key ed sk, val_voting_power = 1\<rparr>"
  let ?H = "single_outputs ops ts parent addr"
  have "answers dr (dr_new dr height_INITIAL [v] addr) (In_NewRound height_INITIAL 0 addr)
     (\<lambda>d x. x = Out_GetValue height_INITIAL 0 \<and> (\<forall>b. answers dr d (In_ProposeValue 0 b) (then_prevotes dr b)))"
    using dr[unfolded sole_validator_driver_def, rule_format, of height_INITIAL v] by (simp add: v_def)
  then obtain d1 os1 where 1: "dr_process dr (dr_new dr height_INITIAL [v] addr) (In_NewRound height_INITIAL 0 addr) = (d1, Inr os1)"
    "acting os1 = [Out_GetValue height_INITIAL 0]" and next1: "\<forall>b. answers dr d1 (In_ProposeValue 0 b) (then_prevotes dr b)"
    by (elim answersE) blast
  obtain d2 os2 p where 2: "dr_process dr d1 (In_ProposeValue 0 (eb_hash b)) = (d2, Inr os2)" "acting os2 = [Out_Propose p]" "prop_value p = eb_hash b"
    and next2: "\<forall>sg. answers dr d2 (In_Proposal \<lparr>sm_message = p, sm_signature = sg\<rparr>) (then_precommits dr p)"
    using next1[rule_format, of "eb_hash b"] unfolding then_prevotes_def by (elim answersE) blast
  obtain d3 os3 w where 3: "dr_process dr d2 (In_Proposal \<lparr>sm_message = p, sm_signature = ts\<rparr>) = (d3, Inr os3)" "acting os3 = [Out_Vote w]"
    and next3: "\<forall>sg. answers dr d3 (In_Vote \<lparr>sm_message = w, sm_signature = sg\<rparr>) (then_decides dr p)"
    using next2[rule_format, of ts] unfolding then_precommits_def by (elim answersE) blast
  obtain d4 os4 w' where 4: "dr_process dr d3 (In_Vote \<lparr>sm_message = w, sm_signature = ts\<rparr>) = (d4, Inr os4)" "acting os4 = [Out_Vote w']"
    and next4: "\<forall>sg. answers dr d4 (In_Vote \<lparr>sm_message = w', sm_signature = sg\<rparr>) (\<lambda>d5 x5. x5 = Out_Decide 0 p)"
    using next3[rule_format, of ts] unfolding then_decides_def by (elim answersE) blast
  obtain d5 os5 where 5: "dr_process dr d4 (In_Vote \<lparr>sm_message = w', sm_signature = ts\<rparr>) = (d5, Inr os5)" "acting os5 = [Out_Decide 0 p]"
    using next4[rule_format, of ts] by (elim answersE) blast
  have h1: "?H s os1 [] = (s1, Continue [In_ProposeValue 0 (eb_hash b)])" and h2: "?H s1 os2 [] = (s1, Continue [In_Proposal \<lparr>sm_message = p, sm_signature = ts\<rparr>])"
    and h3: "?H s1 os3 [] = (s1, Continue [In_Vote \<lparr>sm_message = w, sm_signature = ts\<rparr>])"
    and h4: "?H s1 os4 [] = (s1, Continue [In_Vote \<lparr>sm_message = w', sm_signature = ts\<rparr>])" and h5: "?H s1 os5 [] = (s2, Returned (Inr (eb_hash b)))"
    by (subst single_outputs_acting, simp add: 1(2) 2(2,3) 3(2) 4(2) 5(2) ops b(1-3) decide_def)+
  have "run_single_validator ops dr ts sha256 ed sk s parent = drive ?H dr s d1 os1"
    using 1(1) by (simp add: run_single_validator_def validator_set_new_def addr_def[symmetric] v_def[symmetric] Let_def)
  also have "\<dots> = drive ?H dr s1 d4 os4"
    by (simp only: drive_continue[where handler = ?H, OF h1 2(1)] drive_continue[where handler = ?H, OF h2 3(1)] drive_continue[where handler = ?H, OF h3 4(1)])
  also have "\<dots> = Some (s2, Inr (eb_hash b))" unfolding drive_continue[where handler = ?H, OF h4 5(1)] by (rule drive_return[where handler = ?H, OF h5])
  finally show thesis using that b by blast
qed

end

lemma devnet_rounds_produce:
  assumes "sole_validator_driver dr" "mem_inv s" "mem_number_of s parent = Some n"
  shows "\<exists>s' bs. devnet_rounds dr ts sha256 ed key now rounds k s node parent
      = Some (s', fold (\<lambda>j nd. fst (tick nd (devnet_input now j nd))) [k ..< k + rounds] node, Inr (map eb_hash bs))
    \<and> produce mem_build_payload mem_payload_ready mem_commit s parent (replicate rounds default_attrs) = Inr (s', bs)"
  using assms(2,3)
proof (induction rounds arbitrary: k s node parent n)
  case (Suc rounds)
  have ops: "bo_build_payload mem_ops = mem_build_payload" "bo_payload_ready mem_ops = mem_payload_ready" "bo_commit mem_ops = mem_commit"
    by (simp_all add: mem_ops_def)
  obtain s1 i b s2 where b: "mem_build_payload s parent default_attrs = (s1, Inr i)" "mem_payload_ready s1 i = Inr b"
    "mem_commit s1 (eb_hash b) = (s2, Inr ())" "mem_inv s2" "mem_number_of s2 (eb_hash b) = Some (eb_number b)"
    "run_single_validator mem_ops dr ts sha256 ed (key k) s parent = Some (s2, Inr (eb_hash b))"
    by (rule mem.single_validator_decides[OF assms(1) Suc.prems ops])
  obtain s' bs where "devnet_rounds dr ts sha256 ed key now rounds (Suc k) s2 (fst (tick node (devnet_input now k node))) (eb_hash b)
      = Some (s', fold (\<lambda>j nd. fst (tick nd (devnet_input now j nd))) [Suc k ..< Suc k + rounds] (fst (tick node (devnet_input now k node))), Inr (map eb_hash bs))"
    "produce mem_build_payload mem_payload_ready mem_commit s2 (eb_hash b) (replicate rounds default_attrs) = Inr (s', bs)"
    using Suc.IH[OF b(4,5)] by blast
  moreover have "[k ..< k + Suc rounds] = k # [Suc k ..< Suc k + rounds]" by (simp add: upt_conv_Cons)
  ultimately show ?case using b by (simp add: case_prod_beta Let_def)
qed simp

section \<open>Properties\<close>

text \<open>C27: the in-memory devnet terminates. With any driver that behaves as documented for a sole validator, and whatever the keys and the clock, \<open>run_devnet\<close> returns after exactly
  the requested number of rounds; the decided blocks are those of the reference loop, each names its predecessor and has the next number, the last one is the
  head of the bridge, and the coordinator has ticked once per block.\<close>

theorem devnet_terminates:
  assumes "sole_validator_driver dr"
  shows "\<exists>s' bs. run_devnet dr ts sha256 ed key now rounds
      = Some (s', fold (\<lambda>k nd. fst (tick nd (devnet_input now k nd))) [0 ..< rounds] (new_node node_hyperliquid_default), Inr (map eb_hash bs))
    \<and> produce mem_build_payload mem_payload_ready mem_commit new_mem (replicate 32 0) (replicate rounds default_attrs) = Inr (s', bs)
    \<and> length bs = rounds \<and> linked (replicate 32 0) 0 bs \<and> (rounds \<noteq> 0 \<longrightarrow> ms_head s' = Some (eb_hash (last bs)))"
proof -
  have inv: "mem_inv new_mem" "mem_number_of new_mem (replicate 32 0) = Some 0"
    by (simp_all add: new_mem_def mem_inv_def mem_number_of_def in_u64_def)
  obtain s' bs where "run_devnet dr ts sha256 ed key now rounds
      = Some (s', fold (\<lambda>k nd. fst (tick nd (devnet_input now k nd))) [0 ..< rounds] (new_node node_hyperliquid_default), Inr (map eb_hash bs))"
    "produce mem_build_payload mem_payload_ready mem_commit new_mem (replicate 32 0) (replicate rounds default_attrs) = Inr (s', bs)"
    using devnet_rounds_produce[OF assms inv, of ts sha256 ed key now rounds 0 "new_node node_hyperliquid_default",
        folded run_devnet_def, unfolded add_0] by (elim exE conjE) (rule that)
  moreover obtain t cs where "produce mem_build_payload mem_payload_ready mem_commit new_mem (replicate 32 0) (replicate rounds default_attrs) = Inr (t, cs)"
    "length cs = rounds" "linked (replicate 32 0) 0 cs" "cs \<noteq> [] \<longrightarrow> ms_head t = Some (eb_hash (last cs))"
    using mem.produces_chain[OF inv, of "replicate rounds default_attrs"] unfolding length_replicate by (elim exE conjE) (rule that)
  ultimately show ?thesis by (intro exI[of _ s'] exI[of _ bs]) auto
qed

text \<open>A driver of that kind: its state is the step it is at, with the height and the address, and the proposal.\<close>

definition demo_driver :: "(nat \<times> height \<times> address \<times> proposal) driver" where
  "demo_driver = \<lparr>dr_new = (\<lambda>h vs a. (0, h, a, new_proposal h 0 [] Round_Nil a)),
     dr_process = (\<lambda>(st, h, a, p) inp. case inp of
         In_NewRound h' r a' \<Rightarrow> ((1, h', a, p), Inr [Out_ScheduleTimeout, Out_GetValue h' r])
       | In_ProposeValue r v \<Rightarrow> ((2, h, a, new_proposal h r v Round_Nil a), Inr [Out_Propose (new_proposal h r v Round_Nil a)])
       | In_Proposal m \<Rightarrow> ((3, h, a, sm_message m), Inr [Out_Vote (new_prevote h 0 (Val (prop_value (sm_message m))) a)])
       | In_Vote m \<Rightarrow> (case vote_vote_type (sm_message m) of
           Prevote \<Rightarrow> ((4, h, a, p), Inr [Out_Vote (new_precommit h 0 (vote_value_id (sm_message m)) a)])
         | Precommit \<Rightarrow> ((5, h, a, p), Inr [Out_Decide 0 p])))\<rparr>"

lemma demo_driver_sole: "sole_validator_driver demo_driver"
  by (simp add: sole_validator_driver_def round_stages answers_def acting_def demo_driver_def new_proposal_def new_prevote_def new_precommit_def)

theorem devnet_terminates_witness:
  "\<exists>s' nd bs. run_devnet demo_driver [] (\<lambda>x. x) demo_ed (\<lambda>k. [1]) (\<lambda>k. 7) 3 = Some (s', nd, Inr (map eb_hash bs)) \<and> length bs = 3
     \<and> linked (replicate 32 0) 0 bs"
  using devnet_terminates[OF demo_driver_sole, of "[]" "\<lambda>x. x" demo_ed "\<lambda>k. [1]" "\<lambda>k. 7" 3] by blast

end
