(* ===== verification/Node_Setup.thy ===== *)
theory Node_Setup
  imports Consensus
begin

text \<open>
  How a validator comes up: the key file, the validator-set file and the list of peers to dial of \<open>bin/openhl/src/main.rs\<close>, and the node description, its
  configuration and its start of \<open>crates/consensus/src/node.rs\<close>. Arguments stand for the packages: hexadecimal decoding, the check of an Ed25519 point,
  SHA-256, the parser of network addresses, JSON, and Malachite's \<open>start_engine\<close>.
\<close>

section \<open>The validator key\<close>

record private_key_file =
  pkf_bytes :: bytes

text \<open>\<open>to_bytes\<close> and \<open>of_bytes\<close> are the conversions of the key type.\<close>

definition from_private_key :: "('k \<Rightarrow> bytes) \<Rightarrow> 'k \<Rightarrow> private_key_file" where
  "from_private_key to_bytes sk = \<lparr>pkf_bytes = to_bytes sk\<rparr>"

definition into_private_key :: "(bytes \<Rightarrow> 'k) \<Rightarrow> private_key_file \<Rightarrow> 'k" where
  "into_private_key of_bytes f = of_bytes (pkf_bytes f)"

datatype setup_error =
    KeyMalformed
  | SetUnreadable | SetMalformed | SetEmpty | ZeroPower string | InvalidHex string | WrongLength nat | InvalidKey string
  | ListedTwice nat nat | NotListed

text \<open>The key file is read if it exists, otherwise the fresh key is used and written; the result is the key and the contents of the file afterwards.\<close>

definition load_or_generate_key ::
  "(bytes \<Rightarrow> private_key_file option) \<Rightarrow> (private_key_file \<Rightarrow> bytes) \<Rightarrow> ('k \<Rightarrow> bytes) \<Rightarrow> (bytes \<Rightarrow> 'k) \<Rightarrow> bytes option \<Rightarrow> 'k
     \<Rightarrow> setup_error + 'k \<times> bytes" where
  "load_or_generate_key from_slice to_vec to_bytes of_bytes existing fresh =
     (case existing of
        Some contents \<Rightarrow> (case from_slice contents of
            None \<Rightarrow> Inl KeyMalformed
          | Some f \<Rightarrow> Inr (into_private_key of_bytes f, contents))
      | None \<Rightarrow> Inr (fresh, to_vec (from_private_key to_bytes fresh)))"

section \<open>The validator-set file\<close>

record validator_entry =
  ve_pubkey_hex :: string
  ve_voting_power :: int
  ve_peer_multiaddr :: "string option"

record loaded_validator_set =
  lvs_set :: validator_set
  lvs_peer_multiaddrs :: "string option list"
  lvs_self_index :: nat

fun load_entries ::
  "(string \<Rightarrow> bytes option) \<Rightarrow> (bytes \<Rightarrow> pub_key option) \<Rightarrow> (bytes \<Rightarrow> bytes) \<Rightarrow> pub_key \<Rightarrow> nat \<Rightarrow> nat option \<Rightarrow> validator list \<Rightarrow> string option list
     \<Rightarrow> validator_entry list \<Rightarrow> setup_error + nat option \<times> validator list \<times> string option list" where
  "load_entries unhex vk sha256 ours idx self_index built peers [] = Inr (self_index, built, peers)"
| "load_entries unhex vk sha256 ours idx self_index built peers (entry # entries) =
     (if ve_voting_power entry = 0 then Inl (ZeroPower (ve_pubkey_hex entry))
      else case unhex (ve_pubkey_hex entry) of
        None \<Rightarrow> Inl (InvalidHex (ve_pubkey_hex entry))
      | Some raw \<Rightarrow>
          if length raw \<noteq> 32 then Inl (WrongLength (length raw))
          else case vk raw of
            None \<Rightarrow> Inl (InvalidKey (ve_pubkey_hex entry))
          | Some pubkey \<Rightarrow>
              let addr = take 20 (drop 12 (sha256 pubkey));
                  v = \<lparr>val_address = addr, val_public_key = pubkey, val_voting_power = ve_voting_power entry\<rparr>;
                  continue = (\<lambda>si. load_entries unhex vk sha256 ours (Suc idx) si (built @ [v]) (peers @ [ve_peer_multiaddr entry]) entries)
              in if pubkey = ours
                 then (case self_index of Some prior \<Rightarrow> Inl (ListedTwice prior idx) | None \<Rightarrow> continue (Some idx))
                 else continue self_index)"

definition load_validator_set ::
  "(bytes \<Rightarrow> validator_entry list option) \<Rightarrow> (string \<Rightarrow> bytes option) \<Rightarrow> (bytes \<Rightarrow> pub_key option) \<Rightarrow> (bytes \<Rightarrow> bytes) \<Rightarrow> bytes option \<Rightarrow> pub_key
     \<Rightarrow> setup_error + loaded_validator_set" where
  "load_validator_set from_slice unhex vk sha256 contents ours =
     (case contents of
        None \<Rightarrow> Inl SetUnreadable
      | Some bs \<Rightarrow> (case from_slice bs of
          None \<Rightarrow> Inl SetMalformed
        | Some entries \<Rightarrow>
            if entries = [] then Inl SetEmpty
            else case load_entries unhex vk sha256 ours 0 None [] [] entries of
              Inl e \<Rightarrow> Inl e
            | Inr (None, built, peers) \<Rightarrow> Inl NotListed
            | Inr (Some i, built, peers) \<Rightarrow>
                Inr \<lparr>lvs_set = validator_set_new built, lvs_peer_multiaddrs = peers, lvs_self_index = i\<rparr>))"

definition dial_list :: "string option list \<Rightarrow> nat \<Rightarrow> string list" where
  "dial_list peers self_index = List.map_filter (\<lambda>(idx, addr). if idx = self_index then None else addr) (enumerate 0 peers)"

text \<open>The validator set and the peers of a run; without \<open>--validators\<close> the node is the only validator.\<close>

definition validators_and_peers ::
  "(bytes \<Rightarrow> validator_entry list option) \<Rightarrow> (string \<Rightarrow> bytes option) \<Rightarrow> (bytes \<Rightarrow> pub_key option) \<Rightarrow> (bytes \<Rightarrow> bytes) \<Rightarrow> bytes option option \<Rightarrow> pub_key
     \<Rightarrow> setup_error + validator_set \<times> string list" where
  "validators_and_peers from_slice unhex vk sha256 validators_file public =
     (case validators_file of
        Some contents \<Rightarrow> map_sum id (\<lambda>l. (lvs_set l, dial_list (lvs_peer_multiaddrs l) (lvs_self_index l)))
          (load_validator_set from_slice unhex vk sha256 contents public)
      | None \<Rightarrow> Inr (validator_set_new [\<lparr>val_address = take 20 (drop 12 (sha256 public)), val_public_key = public, val_voting_power = 1\<rparr>], []))"

section \<open>The node\<close>

datatype value_payload = PartsOnly | ProposalOnly | ProposalAndParts

text \<open>The fields of Malachite's configuration that the node sets; \<open>'a\<close> is the type of parsed network addresses, and the rest of the configuration
  is its default.\<close>

record 'a open_hl_config =
  oc_moniker :: string
  oc_value_payload :: value_payload
  oc_listen_addr :: 'a
  oc_persistent_peers :: "'a list"

record 'k consensus_node =
  cn_private_key :: 'k
  cn_validator_set :: validator_set
  cn_home_dir :: string
  cn_moniker :: string
  cn_listen_addr :: "string option"
  cn_persistent_peers :: "string list"
  cn_value_payload :: "value_payload option"
  cn_startup_ready_timeout :: "int option"

definition DEFAULT_STARTUP_READY_TIMEOUT :: int where "DEFAULT_STARTUP_READY_TIMEOUT = 5"

definition new_config :: "'a \<Rightarrow> 'a list \<Rightarrow> string \<Rightarrow> 'a open_hl_config" where
  "new_config default_listen default_peers moniker =
     \<lparr>oc_moniker = moniker, oc_value_payload = ProposalAndParts, oc_listen_addr = default_listen, oc_persistent_peers = default_peers\<rparr>"

definition new_consensus_node :: "'k \<Rightarrow> validator_set \<Rightarrow> string \<Rightarrow> string \<Rightarrow> 'k consensus_node" where
  "new_consensus_node sk vs home moniker =
     \<lparr>cn_private_key = sk, cn_validator_set = vs, cn_home_dir = home, cn_moniker = moniker, cn_listen_addr = None, cn_persistent_peers = [],
      cn_value_payload = None, cn_startup_ready_timeout = Some DEFAULT_STARTUP_READY_TIMEOUT\<rparr>"

definition with_listen_addr :: "string \<Rightarrow> 'k consensus_node \<Rightarrow> 'k consensus_node" where
  "with_listen_addr a n = n\<lparr>cn_listen_addr := Some a\<rparr>"

definition with_persistent_peers :: "string list \<Rightarrow> 'k consensus_node \<Rightarrow> 'k consensus_node" where
  "with_persistent_peers ps n = n\<lparr>cn_persistent_peers := ps\<rparr>"

definition with_value_payload :: "value_payload \<Rightarrow> 'k consensus_node \<Rightarrow> 'k consensus_node" where
  "with_value_payload v n = n\<lparr>cn_value_payload := Some v\<rparr>"

definition with_startup_ready_timeout :: "int option \<Rightarrow> 'k consensus_node \<Rightarrow> 'k consensus_node" where
  "with_startup_ready_timeout t n = n\<lparr>cn_startup_ready_timeout := t\<rparr>"

definition without_startup_ready_check :: "'k consensus_node \<Rightarrow> 'k consensus_node" where
  "without_startup_ready_check n = n\<lparr>cn_startup_ready_timeout := None\<rparr>"

datatype start_error = BadListenAddr string | BadPeer string | EngineFailed | StartupClosed | StartupTimedOut | NotImplemented

fun parse_peers :: "(string \<Rightarrow> 'a option) \<Rightarrow> string list \<Rightarrow> 'a list \<Rightarrow> start_error + 'a list" where
  "parse_peers parse_addr [] parsed = Inr parsed"
| "parse_peers parse_addr (peer # peers) parsed =
     (case parse_addr peer of None \<Rightarrow> Inl (BadPeer peer) | Some a \<Rightarrow> parse_peers parse_addr peers (parsed @ [a]))"

definition load_config :: "(string \<Rightarrow> 'a option) \<Rightarrow> 'a \<Rightarrow> 'a list \<Rightarrow> 'k consensus_node \<Rightarrow> start_error + 'a open_hl_config" where
  "load_config parse_addr default_listen default_peers n =
     (let cfg = new_config default_listen default_peers (cn_moniker n);
          cfg1 = (case cn_value_payload n of Some v \<Rightarrow> cfg\<lparr>oc_value_payload := v\<rparr> | None \<Rightarrow> cfg);
          raw = (case cn_listen_addr n of Some a \<Rightarrow> a | None \<Rightarrow> ''/ip4/127.0.0.1/tcp/0'')
      in case parse_addr raw of
           None \<Rightarrow> Inl (BadListenAddr raw)
         | Some a \<Rightarrow> (case parse_peers parse_addr (cn_persistent_peers n) [] of
             Inl e \<Rightarrow> Inl e
           | Inr ps \<Rightarrow> Inr (cfg1\<lparr>oc_listen_addr := a, oc_persistent_peers := ps\<rparr>)))"

definition get_address :: "(bytes \<Rightarrow> bytes) \<Rightarrow> pub_key \<Rightarrow> address" where
  "get_address sha256 pk = take 20 (drop 12 (sha256 pk))"

section \<open>Starting the node\<close>

text \<open>The forwarding task: \<open>msgs\<close> arrive from the engine before its channel closes, and the application takes \<open>n\<close> of them before it
  drops its end. The result is whether readiness was signalled, and what the application received.\<close>

fun consensus_forwarder :: "'m list \<Rightarrow> nat \<Rightarrow> bool \<Rightarrow> bool \<times> 'm list" where
  "consensus_forwarder [] n ready = (ready, [])"
| "consensus_forwarder (m # ms) 0 ready = (True, [])"
| "consensus_forwarder (m # ms) (Suc n) ready = (let (r, out) = consensus_forwarder ms n True in (r, m # out))"

datatype ready_wait = Fired | Dropped | Elapsed

fun await_startup_ready :: "ready_wait \<Rightarrow> start_error + unit" where
  "await_startup_ready Fired = Inr ()"
| "await_startup_ready Dropped = Inl StartupClosed"
| "await_startup_ready Elapsed = Inl StartupTimedOut"

text \<open>The handle: the channels until they are taken, and whether the engine runs.\<close>

record 'c node_handle =
  nh_channels :: "'c option"
  nh_running :: bool

text \<open>\<open>wait t\<close> is what happens on the readiness channel within \<open>t\<close> seconds. The engine is returned with a failure of the check, after it was killed.\<close>

definition node_start ::
  "(string \<Rightarrow> 'a option) \<Rightarrow> 'a \<Rightarrow> 'a list \<Rightarrow> ('a open_hl_config \<Rightarrow> height \<Rightarrow> validator_set \<Rightarrow> 'c option) \<Rightarrow> (int \<Rightarrow> ready_wait) \<Rightarrow> 'k consensus_node
     \<Rightarrow> (start_error \<times> 'c node_handle option) + 'c node_handle" where
  "node_start parse_addr default_listen default_peers start_engine wait n =
     (case load_config parse_addr default_listen default_peers n of
        Inl e \<Rightarrow> Inl (e, None)
      | Inr cfg \<Rightarrow> (case start_engine cfg height_INITIAL (cn_validator_set n) of
          None \<Rightarrow> Inl (EngineFailed, None)
        | Some channels \<Rightarrow>
            let handle = \<lparr>nh_channels = Some channels, nh_running = True\<rparr>
            in case cn_startup_ready_timeout n of
                 None \<Rightarrow> Inr handle
               | Some t \<Rightarrow> (case await_startup_ready (wait t) of
                   Inl e \<Rightarrow> Inl (e, Some \<lparr>nh_channels = None, nh_running = False\<rparr>)
                 | Inr _ \<Rightarrow> Inr handle)))"

definition take_channels :: "'c node_handle \<Rightarrow> 'c node_handle \<times> 'c option" where
  "take_channels h = (h\<lparr>nh_channels := None\<rparr>, nh_channels h)"

definition node_kill :: "'c node_handle \<Rightarrow> 'c node_handle" where
  "node_kill h = h\<lparr>nh_running := False\<rparr>"

definition node_run :: "'k consensus_node \<Rightarrow> start_error + unit" where
  "node_run n = Inl NotImplemented"

text \<open>The consensus part of the boot: a fresh node with the chosen set, the listen address if one was given, and the peers if there are any.\<close>

definition devnet_consensus_node :: "'k \<Rightarrow> validator_set \<Rightarrow> string list \<Rightarrow> string \<Rightarrow> string \<Rightarrow> string option \<Rightarrow> 'k consensus_node" where
  "devnet_consensus_node sk vs peers home moniker listen =
     (let n = new_consensus_node sk vs home moniker;
          n1 = (case listen of Some a \<Rightarrow> with_listen_addr a n | None \<Rightarrow> n)
      in if peers = [] then n1 else with_persistent_peers peers n1)"

section \<open>What is loaded\<close>

definition entry_key :: "(string \<Rightarrow> bytes option) \<Rightarrow> (bytes \<Rightarrow> pub_key option) \<Rightarrow> validator_entry \<Rightarrow> pub_key option" where
  "entry_key unhex vk e = (case unhex (ve_pubkey_hex e) of None \<Rightarrow> None | Some raw \<Rightarrow> if length raw = 32 then vk raw else None)"

definition entry_ok :: "(string \<Rightarrow> bytes option) \<Rightarrow> (bytes \<Rightarrow> pub_key option) \<Rightarrow> validator_entry \<Rightarrow> bool" where
  "entry_ok unhex vk e \<longleftrightarrow> ve_voting_power e \<noteq> 0 \<and> entry_key unhex vk e \<noteq> None"

definition entry_validator :: "(string \<Rightarrow> bytes option) \<Rightarrow> (bytes \<Rightarrow> pub_key option) \<Rightarrow> (bytes \<Rightarrow> bytes) \<Rightarrow> validator_entry \<Rightarrow> validator" where
  "entry_validator unhex vk sha256 e =
     (let pk = the (entry_key unhex vk e) in \<lparr>val_address = get_address sha256 pk, val_public_key = pk, val_voting_power = ve_voting_power e\<rparr>)"

fun own_positions :: "(string \<Rightarrow> bytes option) \<Rightarrow> (bytes \<Rightarrow> pub_key option) \<Rightarrow> pub_key \<Rightarrow> nat \<Rightarrow> validator_entry list \<Rightarrow> nat list" where
  "own_positions unhex vk ours k [] = []"
| "own_positions unhex vk ours k (e # es) = (if entry_key unhex vk e = Some ours then [k] else []) @ own_positions unhex vk ours (Suc k) es"

abbreviation opt_list :: "'a option \<Rightarrow> 'a list" where
  "opt_list x \<equiv> (case x of None \<Rightarrow> [] | Some y \<Rightarrow> [y])"

lemma own_positions_length: "length (own_positions unhex vk ours k es) = length (filter (\<lambda>e. entry_key unhex vk e = Some ours) es)"
  by (induction es arbitrary: k) auto

lemma own_positions_ge: "i \<in> set (own_positions unhex vk ours k es) \<Longrightarrow> k \<le> i"
  by (induction es arbitrary: k) (fastforce split: if_splits)+

lemma load_entries_iff:
  "load_entries unhex vk sha256 ours k si built peers es = Inr (si', built', peers') \<longleftrightarrow>
     list_all (entry_ok unhex vk) es \<and> built' = built @ map (entry_validator unhex vk sha256) es
     \<and> peers' = peers @ map ve_peer_multiaddr es \<and> opt_list si' = opt_list si @ own_positions unhex vk ours k es"
proof (induction es arbitrary: k si built peers)
  case Nil
  then show ?case by (auto split: option.splits)
next
  case (Cons e es)
  show ?case
  proof (cases "entry_ok unhex vk e")
    case False
    then show ?thesis by (auto simp: entry_ok_def entry_key_def split: option.splits if_splits)
  next
    case True
    then obtain raw pk where raw: "ve_voting_power e \<noteq> 0" "unhex (ve_pubkey_hex e) = Some raw" "length raw = 32" "vk raw = Some pk"
      by (auto simp: entry_ok_def entry_key_def split: option.splits if_splits)
    then have key: "entry_key unhex vk e = Some pk" by (simp add: entry_key_def)
    have v: "entry_validator unhex vk sha256 e
        = \<lparr>val_address = take 20 (drop 12 (sha256 pk)), val_public_key = pk, val_voting_power = ve_voting_power e\<rparr>"
      by (simp add: entry_validator_def key get_address_def)
    show ?thesis
      using True by (simp add: raw key Cons.IH v split: option.splits)
  qed
qed

lemma map_filter_cong: "(\<And>x. x \<in> set xs \<Longrightarrow> f x = g x) \<Longrightarrow> List.map_filter f xs = List.map_filter g xs"
  by (induction xs) (auto simp: List.map_filter_simps split: option.splits)

lemma dial_list_entries:
  "List.map_filter (\<lambda>(j, addr). if j \<in> set (own_positions unhex vk ours k es) then None else addr) (enumerate k (map ve_peer_multiaddr es))
     = List.map_filter ve_peer_multiaddr (filter (\<lambda>e. entry_key unhex vk e \<noteq> Some ours) es)"
proof (induction es arbitrary: k)
  case (Cons e es)
  have rest: "List.map_filter (\<lambda>(j, addr). if j \<in> set (own_positions unhex vk ours k (e # es)) then None else addr) (enumerate (Suc k) (map ve_peer_multiaddr es))
      = List.map_filter (\<lambda>(j, addr). if j \<in> set (own_positions unhex vk ours (Suc k) es) then None else addr) (enumerate (Suc k) (map ve_peer_multiaddr es))"
    by (rule map_filter_cong) (auto simp: in_set_enumerate_eq)
  have "k \<notin> set (own_positions unhex vk ours (Suc k) es)" using own_positions_ge by fastforce
  then show ?case using rest[unfolded Cons.IH]
    by (cases "entry_key unhex vk e = Some ours"; cases "ve_peer_multiaddr e") (simp_all add: List.map_filter_simps)
qed (simp add: List.map_filter_simps)

lemma parse_peers_iff: "parse_peers parse_addr ps acc = Inr as \<longleftrightarrow> (\<exists>bs. map parse_addr ps = map Some bs \<and> as = acc @ bs)"
proof (induction ps arbitrary: acc)
  case (Cons p ps)
  show ?case by (cases "parse_addr p") (auto simp: Cons.IH Cons_eq_map_conv)
qed auto

text \<open>A file is accepted exactly when it has entries, all of them are well-formed, and exactly one has our key.\<close>

lemma load_validator_set_iff:
  assumes "from_slice bs = Some es"
  shows "load_validator_set from_slice unhex vk sha256 (Some bs) ours = Inr l \<longleftrightarrow>
     list_all (entry_ok unhex vk) es \<and> own_positions unhex vk ours 0 es = [lvs_self_index l]
     \<and> l = \<lparr>lvs_set = validator_set_new (map (entry_validator unhex vk sha256) es), lvs_peer_multiaddrs = map ve_peer_multiaddr es,
             lvs_self_index = lvs_self_index l\<rparr>"
proof (cases "load_entries unhex vk sha256 ours 0 None [] [] es")
  case (Inl e)
  then have "\<not> (list_all (entry_ok unhex vk) es \<and> own_positions unhex vk ours 0 es = [lvs_self_index l])"
    using load_entries_iff[of unhex vk sha256 ours 0 None "[]" "[]" es "Some (lvs_self_index l)"
        "map (entry_validator unhex vk sha256) es" "map ve_peer_multiaddr es"] by auto
  then show ?thesis using Inl assms by (auto simp: load_validator_set_def)
next
  case (Inr r)
  obtain si built peers where r: "r = (si, built, peers)" by (cases r)
  have "list_all (entry_ok unhex vk) es" "built = map (entry_validator unhex vk sha256) es" "peers = map ve_peer_multiaddr es"
    "opt_list si = own_positions unhex vk ours 0 es"
    using load_entries_iff[of unhex vk sha256 ours 0 None "[]" "[]" es si built peers] Inr r by auto
  then show ?thesis using Inr r assms by (cases si; cases "es = []") (auto simp: load_validator_set_def)
qed

lemma devnet_config:
  "load_config parse_addr dl dp (devnet_consensus_node sk vs peers home moniker listen) = Inr cfg \<longleftrightarrow>
     (\<exists>a as. parse_addr (case listen of Some a \<Rightarrow> a | None \<Rightarrow> ''/ip4/127.0.0.1/tcp/0'') = Some a \<and> map parse_addr peers = map Some as
        \<and> cfg = \<lparr>oc_moniker = moniker, oc_value_payload = ProposalAndParts, oc_listen_addr = a, oc_persistent_peers = as\<rparr>)"
proof -
  define raw where "raw = (case listen of Some a \<Rightarrow> a | None \<Rightarrow> ''/ip4/127.0.0.1/tcp/0'')"
  have n: "cn_listen_addr (devnet_consensus_node sk vs peers home moniker listen) = listen"
    "cn_persistent_peers (devnet_consensus_node sk vs peers home moniker listen) = peers"
    "cn_value_payload (devnet_consensus_node sk vs peers home moniker listen) = None"
    "cn_moniker (devnet_consensus_node sk vs peers home moniker listen) = moniker"
    by (simp_all add: devnet_consensus_node_def new_consensus_node_def with_listen_addr_def with_persistent_peers_def Let_def split: option.splits)
  have iff: "parse_peers parse_addr peers [] = Inr as \<longleftrightarrow> map parse_addr peers = map Some as" for as by (simp add: parse_peers_iff)
  show ?thesis
  proof (cases "parse_peers parse_addr peers []")
    case (Inl e)
    then have "map parse_addr peers \<noteq> map Some as" for as using iff[of as] by simp
    then show ?thesis using Inl unfolding load_config_def n raw_def[symmetric] by (simp add: Let_def split: option.splits)
  next
    case (Inr bs)
    then have "map parse_addr peers = map Some as \<longleftrightarrow> as = bs" for as using iff[of as] by auto
    then show ?thesis using Inr unfolding load_config_def n raw_def[symmetric]
      by (auto simp: Let_def new_config_def split: option.splits)
  qed
qed

lemma parses_iff: "(\<exists>as. map f ps = map Some as) \<longleftrightarrow> (\<forall>p \<in> set ps. f p \<noteq> None)"
proof (induction ps)
  case (Cons p ps)
  then show ?case by (cases "f p") (auto simp: Cons_eq_map_conv)
qed simp

lemma node_start_outcome:
  assumes "cn_startup_ready_timeout n = Some t"
  shows "case node_start parse_addr dl dp start_engine wait n of
       Inl (e, engine) \<Rightarrow> engine = None \<or> map_option nh_running engine = Some False
     | Inr h \<Rightarrow> nh_running h \<and> wait t = Fired \<and> (let (h1, c) = take_channels h in c \<noteq> None \<and> snd (take_channels h1) = None)"
  using assms by (cases "wait t") (auto simp: node_start_def take_channels_def split: option.splits sum.splits)

lemma validators_and_peers_result:
  assumes "from_slice bs = Some es" "validators_and_peers from_slice unhex vk sha256 (Some (Some bs)) ours = r"
  shows "(\<exists>x. r = Inr x) \<longleftrightarrow> list_all (entry_ok unhex vk) es \<and> length (filter (\<lambda>e. entry_key unhex vk e = Some ours) es) = 1"
    and "r = Inr (vs, peers) \<Longrightarrow> mset vs = mset (map (entry_validator unhex vk sha256) es) \<and> ours \<in> val_public_key ` set vs
      \<and> peers = List.map_filter ve_peer_multiaddr (filter (\<lambda>e. entry_key unhex vk e \<noteq> Some ours) es)"
proof -
  note accepted = load_validator_set_iff[where from_slice = from_slice and bs = bs and es = es and unhex = unhex and vk = vk and ?sha256.0 = sha256
      and ours = ours, OF assms(1)]
  have acc: "(\<exists>x. r = Inr x) \<longleftrightarrow> (\<exists>l. load_validator_set from_slice unhex vk sha256 (Some bs) ours = Inr l)"
    unfolding assms(2)[symmetric] validators_and_peers_def
    by (cases "load_validator_set from_slice unhex vk sha256 (Some bs) ours") simp_all
  have "(\<exists>l. load_validator_set from_slice unhex vk sha256 (Some bs) ours = Inr l)
      \<longleftrightarrow> list_all (entry_ok unhex vk) es \<and> (\<exists>i. own_positions unhex vk ours 0 es = [i])"
    unfolding accepted by (metis loaded_validator_set.select_convs(3))
  then show "(\<exists>x. r = Inr x) \<longleftrightarrow> list_all (entry_ok unhex vk) es \<and> length (filter (\<lambda>e. entry_key unhex vk e = Some ours) es) = 1"
    unfolding acc own_positions_length[symmetric, of _ _ _ _ 0] by (simp add: length_Suc_conv)
  show "mset vs = mset (map (entry_validator unhex vk sha256) es) \<and> ours \<in> val_public_key ` set vs
      \<and> peers = List.map_filter ve_peer_multiaddr (filter (\<lambda>e. entry_key unhex vk e \<noteq> Some ours) es)" if r: "r = Inr (vs, peers)"
  proof -
    obtain l where l: "load_validator_set from_slice unhex vk sha256 (Some bs) ours = Inr l"
      "vs = lvs_set l" "peers = dial_list (lvs_peer_multiaddrs l) (lvs_self_index l)"
      using r unfolding assms(2)[symmetric] validators_and_peers_def
      by (cases "load_validator_set from_slice unhex vk sha256 (Some bs) ours") auto
    have ok: "own_positions unhex vk ours 0 es = [lvs_self_index l]"
      and set: "lvs_set l = validator_set_new (map (entry_validator unhex vk sha256) es)" and ps: "lvs_peer_multiaddrs l = map ve_peer_multiaddr es"
      using l(1)[unfolded accepted] by (metis loaded_validator_set.select_convs)+
    have "filter (\<lambda>e. entry_key unhex vk e = Some ours) es \<noteq> []" using own_positions_length[of unhex vk ours 0 es] ok by auto
    then obtain e where "e \<in> set es" "entry_key unhex vk e = Some ours" by (auto simp: filter_empty_conv)
    then have "ours \<in> val_public_key ` entry_validator unhex vk sha256 ` set es"
      by (auto simp: entry_validator_def Let_def image_image intro!: rev_image_eqI)
    moreover have "peers = List.map_filter ve_peer_multiaddr (filter (\<lambda>e. entry_key unhex vk e \<noteq> Some ours) es)"
      using dial_list_entries[of unhex vk ours 0 es] by (simp add: l(3) dial_list_def ps ok)
    ultimately show ?thesis by (simp add: l(2) set validator_set_new_def)
  qed
qed

section \<open>Properties\<close>


text \<open>A file of three validators; the key bytes are the length of the text.\<close>

definition demo_entries :: "validator_entry list" where
  "demo_entries =
     [\<lparr>ve_pubkey_hex = ''a'', ve_voting_power = 1, ve_peer_multiaddr = Some ''/x''\<rparr>,
      \<lparr>ve_pubkey_hex = ''bb'', ve_voting_power = 3, ve_peer_multiaddr = Some ''/y''\<rparr>,
      \<lparr>ve_pubkey_hex = ''ccc'', ve_voting_power = 2, ve_peer_multiaddr = None\<rparr>]"

definition demo_unhex :: "string \<Rightarrow> bytes option" where
  "demo_unhex s = Some (replicate 32 (int (length s)))"


text \<open>\<open>peer_multiaddrs\<close> and \<open>self_index\<close> are in the order of the file; the set is sorted by voting power, so they are not parallel to it.\<close>

theorem peers_not_parallel:
  "case load_validator_set (\<lambda>bs. Some demo_entries) demo_unhex Some (\<lambda>x. x) (Some []) (replicate 32 1) of
     Inl e \<Rightarrow> False
   | Inr l \<Rightarrow> val_public_key (lvs_set l ! lvs_self_index l) \<noteq> replicate 32 1
       \<and> val_public_key (lvs_set l ! 0) = replicate 32 2 \<and> lvs_peer_multiaddrs l ! 0 = Some ''/x''"
  by code_simp

text \<open>Only our own key is checked for duplicates. A file that lists another validator twice is accepted; its power is counted twice in the total,
  while its address has one entry, so the powers of all addresses together stay below two thirds of the total.\<close>

theorem duplicate_validator_inflates_total:
  "case load_validator_set (\<lambda>bs. Some (demo_entries @ tl demo_entries @ tl demo_entries)) demo_unhex Some (\<lambda>x. x) (Some []) (replicate 32 1) of
     Inl e \<Rightarrow> False
   | Inr l \<Rightarrow> (let addrs = remdups (map val_address (lvs_set l));
                   present = sum_list (map (\<lambda>a. case get_by_address (lvs_set l) a of Some v \<Rightarrow> val_voting_power v | None \<Rightarrow> 0) addrs)
                in 3 * present \<le> 2 * total_voting_power (lvs_set l))"
  by code_simp

text \<open>The identity survives a restart: the file written for a fresh key gives the same key.\<close>

theorem key_survives_restart:
  assumes "\<And>f. from_slice (to_vec f) = Some f" "of_bytes (to_bytes fresh) = fresh"
    and "load_or_generate_key from_slice to_vec to_bytes of_bytes None fresh = Inr (sk, file)"
  shows "load_or_generate_key from_slice to_vec to_bytes of_bytes (Some file) other = Inr (sk, file)"
  using assms by (auto simp: load_or_generate_key_def from_private_key_def into_private_key_def)

text \<open>What the application receives is a prefix of what the engine sends, in order, and the signal is given with the first message.\<close>

lemma forwarder_prefix: "consensus_forwarder ms n ready = (ready \<or> ms \<noteq> [], take n ms)"
proof (induction ms n ready rule: consensus_forwarder.induct)
  case (3 m ms n ready)
  then show ?case by simp
qed simp_all

end
