(* ===== verification/Rpc.thy ===== *)
theory Rpc
  imports Ledger
begin

text \<open>
  The \<open>openhl_*\<close> JSON-RPC namespace of \<open>bin/openhl/src/rpc.rs\<close>: the cell that holds the bridge once it exists, the read methods, and the polling
  subscriptions. The server thread sees a sequence of polls, one per second; a subscription is a function of that sequence. Serialisation and the
  network sink are arguments.
\<close>

section \<open>The cell\<close>

record 'b bridge_cell =
  cell_poisoned :: bool
  cell_bridge :: "'b option"

datatype rpc_error = BridgeNotReady | LockPoisoned

definition new_bridge_cell :: "'b bridge_cell" where
  "new_bridge_cell = \<lparr>cell_poisoned = False, cell_bridge = None\<rparr>"

text \<open>\<open>expect\<close> on a poisoned lock panics: \<open>None\<close>.\<close>

definition install_bridge :: "'b bridge_cell \<Rightarrow> 'b \<Rightarrow> 'b bridge_cell option" where
  "install_bridge c b = (if cell_poisoned c then None else Some (c\<lparr>cell_bridge := Some b\<rparr>))"

definition bridge_or_err :: "'b bridge_cell \<Rightarrow> rpc_error + 'b" where
  "bridge_or_err c =
     (if cell_poisoned c then Inl LockPoisoned
      else case cell_bridge c of None \<Rightarrow> Inl BridgeNotReady | Some b \<Rightarrow> Inr b)"

definition read_bridge :: "'b bridge_cell \<Rightarrow> 'b option" where
  "read_bridge c = (if cell_poisoned c then None else cell_bridge c)"

section \<open>The read methods\<close>

record account_snapshot_rpc =
  rpc_account :: int
  rpc_position_size :: int
  rpc_avg_entry :: int
  rpc_collateral :: int

record liquidation_params_rpc =
  rpc_initial_margin_bps :: int
  rpc_maintenance_margin_bps :: int
  rpc_liquidation_fee_bps :: int

definition params_to_rpc :: "liquidation_params \<Rightarrow> liquidation_params_rpc" where
  "params_to_rpc p =
     \<lparr>rpc_initial_margin_bps = initial_margin_bps p, rpc_maintenance_margin_bps = maintenance_margin_bps p,
      rpc_liquidation_fee_bps = liquidation_fee_bps p\<rparr>"

fun margin_health_str :: "margin_health_class \<Rightarrow> string" where
  "margin_health_str Safe = ''Safe''"
| "margin_health_str AtRisk = ''AtRisk''"
| "margin_health_str Liquidatable = ''Liquidatable''"
| "margin_health_str Underwater = ''Underwater''"

definition rpc_current_mark :: "'x trading_scheme bridge_cell \<Rightarrow> rpc_error + int option" where
  "rpc_current_mark c = map_sum id current_mark (bridge_or_err c)"

definition rpc_oracle_index_price :: "'x trading_scheme bridge_cell \<Rightarrow> rpc_error + int option" where
  "rpc_oracle_index_price c = map_sum id lb_oracle_index_price (bridge_or_err c)"

definition rpc_effective_mark :: "'x trading_scheme bridge_cell \<Rightarrow> rpc_error + int option" where
  "rpc_effective_mark c = map_sum id effective_mark (bridge_or_err c)"

definition rpc_accounts :: "'x trading_scheme bridge_cell \<Rightarrow> rpc_error + int list" where
  "rpc_accounts c = map_sum id (\<lambda>b. map acct_id (accounts_snapshot b)) (bridge_or_err c)"

definition rpc_account_snapshot :: "'x trading_scheme bridge_cell \<Rightarrow> int \<Rightarrow> rpc_error + account_snapshot_rpc option" where
  "rpc_account_snapshot c a =
     map_sum id (\<lambda>b. map_option (\<lambda>acct.
         \<lparr>rpc_account = acct_id acct, rpc_position_size = position_size acct, rpc_avg_entry = avg_entry acct, rpc_collateral = collateral acct\<rparr>)
       (List.find (\<lambda>acct. acct_id acct = a) (accounts_snapshot b))) (bridge_or_err c)"

definition rpc_margin_health :: "'x trading_scheme bridge_cell \<Rightarrow> int \<Rightarrow> rpc_error + string option" where
  "rpc_margin_health c a = map_sum id (\<lambda>b. map_option margin_health_str (bridge_margin_health b a)) (bridge_or_err c)"

definition rpc_liquidation_params :: "'x trading_scheme bridge_cell \<Rightarrow> rpc_error + liquidation_params_rpc" where
  "rpc_liquidation_params c = map_sum id (\<lambda>b. params_to_rpc (lb_liquidation_params b)) (bridge_or_err c)"

section \<open>Subscriptions\<close>

text \<open>The body of the polling task on the values polled so far: the messages delivered, and whether the task has ended. \<open>to_raw\<close> serialises;
  \<open>sends\<close> gives, for every attempt to send in turn, whether the sink accepted it, and the subscriber has gone when it is exhausted.\<close>

fun polling_loop ::
  "('t \<Rightarrow> 'w option) \<Rightarrow> bool list \<Rightarrow> 't option \<Rightarrow> bool \<Rightarrow> 't option list \<Rightarrow> 'w list \<times> bool" where
  "polling_loop to_raw sends prev first [] = ([], False)"
| "polling_loop to_raw sends prev first (None # polls) = polling_loop to_raw sends prev first polls"
| "polling_loop to_raw sends prev first (Some v # polls) =
     (if first \<or> prev \<noteq> Some v
      then case to_raw v of
             None \<Rightarrow> ([], True)
           | Some raw \<Rightarrow>
               (case sends of
                  True # sends' \<Rightarrow> (let (ms, ended) = polling_loop to_raw sends' (Some v) False polls in (raw # ms, ended))
                | _ \<Rightarrow> ([], True))
      else polling_loop to_raw sends prev first polls)"

definition spawn_polling_subscription ::
  "('t \<Rightarrow> 'w option) \<Rightarrow> bool \<Rightarrow> bool list \<Rightarrow> 't option list \<Rightarrow> 'w list \<times> bool" where
  "spawn_polling_subscription to_raw accepted sends polls =
     (if accepted then polling_loop to_raw sends None True polls else ([], True))"

definition subscribe_current_mark ::
  "(int option \<Rightarrow> 'w option) \<Rightarrow> bool \<Rightarrow> bool list \<Rightarrow> 'x trading_scheme bridge_cell list \<Rightarrow> 'w list \<times> bool" where
  "subscribe_current_mark to_raw accepted sends cells =
     spawn_polling_subscription to_raw accepted sends (map (\<lambda>c. map_option current_mark (read_bridge c)) cells)"

definition subscribe_effective_mark ::
  "(int option \<Rightarrow> 'w option) \<Rightarrow> bool \<Rightarrow> bool list \<Rightarrow> 'x trading_scheme bridge_cell list \<Rightarrow> 'w list \<times> bool" where
  "subscribe_effective_mark to_raw accepted sends cells =
     spawn_polling_subscription to_raw accepted sends (map (\<lambda>c. map_option effective_mark (read_bridge c)) cells)"

definition subscribe_margin_health ::
  "(string option \<Rightarrow> 'w option) \<Rightarrow> bool \<Rightarrow> bool list \<Rightarrow> int \<Rightarrow> 'x trading_scheme bridge_cell list \<Rightarrow> 'w list \<times> bool" where
  "subscribe_margin_health to_raw accepted sends a cells =
     spawn_polling_subscription to_raw accepted sends
       (map (\<lambda>c. map_option (\<lambda>b. map_option margin_health_str (bridge_margin_health b a)) (read_bridge c)) cells)"

section \<open>Lemmas\<close>

lemma read_bridge_or_err: "read_bridge c = (case bridge_or_err c of Inl e \<Rightarrow> None | Inr b \<Rightarrow> Some b)"
  by (simp add: read_bridge_def bridge_or_err_def split: option.splits)

lemma bridge_or_err_installed: "install_bridge c b = Some c' \<Longrightarrow> bridge_or_err c' = Inr b"
  by (auto simp: install_bridge_def bridge_or_err_def split: if_splits)

text \<open>The answers among polls that may have none.\<close>

fun somes :: "'t option list \<Rightarrow> 't list" where
  "somes [] = []"
| "somes (None # polls) = somes polls"
| "somes (Some v # polls) = v # somes polls"

lemma somes_map: "somes (map (\<lambda>c. map_option f (g c)) cs) = map f (somes (map g cs))"
proof (induction cs)
  case (Cons c cs)
  then show ?case by (cases "g c") simp_all
qed simp

text \<open>Changes of a sequence after a last value.\<close>

fun changes :: "'t option \<Rightarrow> 't list \<Rightarrow> 't list" where
  "changes prev [] = []"
| "changes prev (v # vs) = (if prev = Some v then changes prev vs else v # changes (Some v) vs)"

lemma changes_remdups_adj: "changes None vs = remdups_adj vs" "v # changes (Some v) vs = remdups_adj (v # vs)"
proof -
  have cons: "v # changes (Some v) vs = remdups_adj (v # vs)" for v :: 'a and vs
    by (induction vs arbitrary: v) auto
  show "v # changes (Some v) vs = remdups_adj (v # vs)" by (rule cons)
  show "changes None vs = remdups_adj vs" using cons by (cases vs) simp_all
qed

text \<open>While the task runs, \<open>first\<close> is true exactly before the first emission, when \<open>last\<close> is \<open>None\<close>.\<close>

lemma polling_loop_changes:
  "polling_loop (\<lambda>v. Some (enc v)) (replicate k True) prev (prev = None) polls
     = (let cs = changes prev (somes polls) in (map enc (take k cs), k < length cs))"
proof (induction polls arbitrary: k prev)
  case (Cons p polls)
  show ?case
  proof (cases p)
    case (Some v)
    have new: "polling_loop (\<lambda>v. Some (enc v)) (replicate j True) (Some v) False polls
        = (let cs = changes (Some v) (somes polls) in (map enc (take j cs), j < length cs))" for j
      using Cons.IH[of j "Some v"] by (simp only: option.distinct)
    show ?thesis
      using Some Cons.IH[of k prev] by (cases k) (auto simp: new Let_def)
  qed (use Cons.IH in simp)
qed simp

lemma find_by_id:
  assumes "accounts_ok m"
  shows "List.find (\<lambda>acct. acct_id acct = a) (sort_key acct_id (map snd m)) = map_of m a"
proof (cases "map_of m a")
  case None
  then have "\<forall>acct \<in> snd ` set m. acct_id acct \<noteq> a" using assms by (auto simp: accounts_ok_def map_of_eq_None_iff rev_image_eqI)
  then show ?thesis using None by (auto simp: find_None_iff2[THEN iffD2] find_None_iff)
next
  case (Some acct)
  have uniq: "acct' = acct" if mem: "acct' \<in> snd ` set m" and id: "acct_id acct' = a" for acct'
  proof -
    obtain a' where "(a', acct') \<in> set m" using mem by auto
    moreover have "a' = a" using calculation assms id by (auto simp: accounts_ok_def)
    ultimately show ?thesis using assms Some by (simp add: accounts_ok_def)
  qed
  have "acct \<in> snd ` set m" "acct_id acct = a" using map_of_SomeD[OF Some] accounts_okD[OF assms Some] by force+
  then obtain acct' where f: "List.find (\<lambda>acct. acct_id acct = a) (sort_key acct_id (map snd m)) = Some acct'"
    by (cases "List.find (\<lambda>acct. acct_id acct = a) (sort_key acct_id (map snd m))") (auto simp: find_None_iff)
  then obtain i where "i < length (sort_key acct_id (map snd m))" "acct' = sort_key acct_id (map snd m) ! i" "acct_id acct' = a"
    by (auto simp: find_Some_iff)
  then have "acct' \<in> snd ` set m" "acct_id acct' = a" using nth_mem[of i "sort_key acct_id (map snd m)"] by simp_all
  then show ?thesis using f uniq Some by simp
qed

section \<open>Properties\<close>



end
