(* ===== verification/Evm_Factory.thy ===== *)
theory Evm_Factory
  imports Precompiles
begin

text \<open>
  The executor that Reth is given (\<open>crates/evm/src/openhl_evm.rs\<close>, \<open>openhl_precompiles\<close> of \<open>precompiles/mod.rs\<close>): the registry of the five entry points of \<open>Precompiles\<close>
  on top of a set of standard precompiles, the per-hardfork caches, the EVM factory that installs the registry and the revert guard, and the wrapper around Reth's EVM. The standard
  precompiles and their sets are REVM's: the argument \<open>rv\<close>. What a transaction does is given as in \<open>Precompiles\<close> by its frames; Reth's EVM calls the inspector around them exactly when
  inspection is on.
\<close>

section \<open>The registry\<close>

definition CLOB_READ_BEST_BID :: int where "CLOB_READ_BEST_BID = 0x0c1b"
definition CLOB_PLACE_ORDER :: int where "CLOB_PLACE_ORDER = 0x0c1c"
definition OPENHL_DEPOSIT :: int where "OPENHL_DEPOSIT = 0x0c1d"
definition OPENHL_WITHDRAW :: int where "OPENHL_WITHDRAW = 0x0c1e"
definition OPENHL_MARGIN_HEALTH :: int where "OPENHL_MARGIN_HEALTH = 0x0c1f"

text \<open>A precompile of ours has an id and a function on the process-wide state; \<open>None\<close> is a panic. One of REVM's is opaque.\<close>

datatype 'p precompile = Custom string "globals \<Rightarrow> bytes \<Rightarrow> (globals \<times> precompile_output) option" | Standard 'p

type_synonym 'p precompiles = "int \<rightharpoonup> 'p precompile"

definition extend_set :: "'p precompiles \<Rightarrow> (int \<times> 'p precompile) list \<Rightarrow> 'p precompiles" where
  "extend_set base ps = fold (\<lambda>(a, p) m. m(a \<mapsto> p)) ps base"

definition openhl_precompiles :: "'p precompiles \<Rightarrow> 'p precompiles" where
  "openhl_precompiles base = extend_set base
     [(CLOB_READ_BEST_BID, Custom ''clob_read_best_bid'' (\<lambda>g input. Some (g, read_best_bid g input))),
      (CLOB_PLACE_ORDER, Custom ''clob_place_order'' place_order),
      (OPENHL_DEPOSIT, Custom ''openhl_deposit'' (\<lambda>g input. Some (pc_deposit g input))),
      (OPENHL_WITHDRAW, Custom ''openhl_withdraw'' (\<lambda>g input. Some (pc_withdraw g input))),
      (OPENHL_MARGIN_HEALTH, Custom ''openhl_margin_health'' (\<lambda>g input. Some (g, pc_margin_health g input)))]"

section \<open>The caches\<close>

text \<open>REVM's hardforks; those that the code does not name are told apart by their number.\<close>

datatype spec_id = OtherSpec int | CANCUN | PRAGUE | OSAKA

record 'p revm_sets =
  rv_prague :: "'p precompiles"
  rv_cancun :: "'p precompiles"
  rv_eth_precompiles :: "spec_id \<Rightarrow> 'p precompiles"

record 'p precompile_caches =
  cache_PRAGUE :: "'p precompiles option"
  cache_CANCUN :: "'p precompiles option"
  cache_FALLBACK :: "'p precompiles option"

definition no_caches :: "'p precompile_caches" where
  "no_caches = \<lparr>cache_PRAGUE = None, cache_CANCUN = None, cache_FALLBACK = None\<rparr>"

definition get_or_init :: "'a option \<Rightarrow> 'a \<Rightarrow> 'a" where
  "get_or_init cell init = (case cell of Some x \<Rightarrow> x | None \<Rightarrow> init)"

definition precompiles_for :: "'p revm_sets \<Rightarrow> spec_id \<Rightarrow> 'p precompile_caches \<Rightarrow> 'p precompile_caches \<times> 'p precompiles" where
  "precompiles_for rv spec c =
     (case spec of
        PRAGUE \<Rightarrow> (let x = get_or_init (cache_PRAGUE c) (openhl_precompiles (rv_prague rv)) in (c\<lparr>cache_PRAGUE := Some x\<rparr>, x))
      | OSAKA \<Rightarrow> (let x = get_or_init (cache_PRAGUE c) (openhl_precompiles (rv_prague rv)) in (c\<lparr>cache_PRAGUE := Some x\<rparr>, x))
      | CANCUN \<Rightarrow> (let x = get_or_init (cache_CANCUN c) (openhl_precompiles (rv_cancun rv)) in (c\<lparr>cache_CANCUN := Some x\<rparr>, x))
      | _ \<Rightarrow> (let x = get_or_init (cache_FALLBACK c) (openhl_precompiles (rv_eth_precompiles rv spec)) in (c\<lparr>cache_FALLBACK := Some x\<rparr>, x)))"

section \<open>The factory and its EVM\<close>

record 'b evm_env =
  ev_spec :: spec_id
  ev_chain_id :: int
  ev_block_env :: 'b

text \<open>The inspector is the user's, paired with the savepoints of the revert guard.\<close>

record ('db, 'b, 'i, 'p) open_hl_evm =
  ev_db :: 'db
  ev_env :: "'b evm_env"
  ev_inspector :: "'i \<times> bridge_state_snapshot list"
  ev_precompiles :: "'p precompiles"
  ev_inspect :: bool

definition create_evm_with_inspector ::
  "'p revm_sets \<Rightarrow> 'db \<Rightarrow> 'b evm_env \<Rightarrow> 'i \<Rightarrow> 'p precompile_caches \<Rightarrow> 'p precompile_caches \<times> ('db, 'b, 'i, 'p) open_hl_evm" where
  "create_evm_with_inspector rv db input inspector c =
     (let (c', ps) = precompiles_for rv (ev_spec input) c
      in (c', \<lparr>ev_db = db, ev_env = input, ev_inspector = (inspector, []), ev_precompiles = ps, ev_inspect = True\<rparr>))"

text \<open>\<open>()\<close> is the no-op inspector.\<close>

definition create_evm ::
  "'p revm_sets \<Rightarrow> 'db \<Rightarrow> 'b evm_env \<Rightarrow> 'p precompile_caches \<Rightarrow> 'p precompile_caches \<times> ('db, 'b, unit, 'p) open_hl_evm" where
  "create_evm rv db input c =
     (let (c', ps) = precompiles_for rv (ev_spec input) c
      in (c', \<lparr>ev_db = db, ev_env = input, ev_inspector = ((), []), ev_precompiles = ps, ev_inspect = True\<rparr>))"

definition evm_block :: "('db, 'b, 'i, 'p) open_hl_evm \<Rightarrow> 'b" where
  "evm_block evm = ev_block_env (ev_env evm)"

definition evm_cfg_spec :: "('db, 'b, 'i, 'p) open_hl_evm \<Rightarrow> spec_id" where
  "evm_cfg_spec evm = ev_spec (ev_env evm)"

definition evm_chain_id :: "('db, 'b, 'i, 'p) open_hl_evm \<Rightarrow> int" where
  "evm_chain_id evm = ev_chain_id (ev_env evm)"

definition evm_finish :: "('db, 'b, 'i, 'p) open_hl_evm \<Rightarrow> 'db \<times> 'b evm_env" where
  "evm_finish evm = (ev_db evm, ev_env evm)"

definition set_inspector_enabled :: "bool \<Rightarrow> ('db, 'b, 'i, 'p) open_hl_evm \<Rightarrow> ('db, 'b, 'i, 'p) open_hl_evm" where
  "set_inspector_enabled enabled evm = evm\<lparr>ev_inspect := enabled\<rparr>"

definition evm_components :: "('db, 'b, 'i, 'p) open_hl_evm \<Rightarrow> 'db \<times> 'i \<times> 'p precompiles" where
  "evm_components evm = (ev_db evm, fst (ev_inspector evm), ev_precompiles evm)"

text \<open>The mutable borrow is an update of the three parts.\<close>

definition evm_components_mut ::
  "('db \<times> 'i \<times> 'p precompiles \<Rightarrow> 'db \<times> 'i \<times> 'p precompiles) \<Rightarrow> ('db, 'b, 'i, 'p) open_hl_evm \<Rightarrow> ('db, 'b, 'i, 'p) open_hl_evm" where
  "evm_components_mut f evm =
     (let (db, i, ps) = f (ev_db evm, fst (ev_inspector evm), ev_precompiles evm)
      in evm\<lparr>ev_db := db, ev_inspector := (i, snd (ev_inspector evm)), ev_precompiles := ps\<rparr>)"

text \<open>The frames of a transaction without the guard's hooks.\<close>

fun plain_act :: "evm_act \<Rightarrow> globals \<Rightarrow> globals" and plain_acts :: "evm_act list \<Rightarrow> globals \<Rightarrow> globals" where
  "plain_act (Pre c input) g = run_precompile c input g"
| "plain_act (Sub k ok acts) g = plain_acts acts g"
| "plain_acts [] g = g"
| "plain_acts (a # acts) g = plain_acts acts (plain_act a g)"

text \<open>What executing a transaction with these frames does to the process-wide state.\<close>

definition transact_raw :: "('db, 'b, 'i, 'p) open_hl_evm \<Rightarrow> evm_act \<Rightarrow> globals \<Rightarrow> ('db, 'b, 'i, 'p) open_hl_evm \<times> globals" where
  "transact_raw evm tx g =
     (if ev_inspect evm
      then let (s, g') = run_act tx (snd (ev_inspector evm), g) in (evm\<lparr>ev_inspector := (fst (ev_inspector evm), s)\<rparr>, g')
      else (evm, plain_act tx g))"

text \<open>The EVMs of a process, in the order in which they are created.\<close>

fun create_all ::
  "'p revm_sets \<Rightarrow> ('db \<times> 'b evm_env \<times> 'i) list \<Rightarrow> 'p precompile_caches \<Rightarrow> ('db, 'b, 'i, 'p) open_hl_evm list" where
  "create_all rv [] c = []"
| "create_all rv ((db, input, i) # reqs) c =
     (let (c', evm) = create_evm_with_inspector rv db input i c in evm # create_all rv reqs c')"

section \<open>The registry over a base\<close>

definition openhl_addresses :: "int list" where
  "openhl_addresses = [CLOB_READ_BEST_BID, CLOB_PLACE_ORDER, OPENHL_DEPOSIT, OPENHL_WITHDRAW, OPENHL_MARGIN_HEALTH]"

lemmas address_defs = CLOB_READ_BEST_BID_def CLOB_PLACE_ORDER_def OPENHL_DEPOSIT_def OPENHL_WITHDRAW_def OPENHL_MARGIN_HEALTH_def

lemma registry_lookup:
  "openhl_precompiles base CLOB_READ_BEST_BID = Some (Custom ''clob_read_best_bid'' (\<lambda>g input. Some (g, read_best_bid g input)))"
  "openhl_precompiles base CLOB_PLACE_ORDER = Some (Custom ''clob_place_order'' place_order)"
  "openhl_precompiles base OPENHL_DEPOSIT = Some (Custom ''openhl_deposit'' (\<lambda>g input. Some (pc_deposit g input)))"
  "openhl_precompiles base OPENHL_WITHDRAW = Some (Custom ''openhl_withdraw'' (\<lambda>g input. Some (pc_withdraw g input)))"
  "openhl_precompiles base OPENHL_MARGIN_HEALTH = Some (Custom ''openhl_margin_health'' (\<lambda>g input. Some (g, pc_margin_health g input)))"
  "a \<notin> set openhl_addresses \<Longrightarrow> openhl_precompiles base a = base a"
  by (simp_all add: openhl_precompiles_def extend_set_def openhl_addresses_def) (simp_all add: address_defs)

text \<open>The base set behind an EVM: named hardforks have their own; all others share that of the first of them that was asked for.\<close>

fun first_other :: "spec_id list \<Rightarrow> spec_id option" where
  "first_other [] = None"
| "first_other (OtherSpec n # specs) = Some (OtherSpec n)"
| "first_other (_ # specs) = first_other specs"

definition base_set :: "'p revm_sets \<Rightarrow> spec_id list \<Rightarrow> spec_id \<Rightarrow> 'p precompiles" where
  "base_set rv earlier spec =
     (case spec of PRAGUE \<Rightarrow> rv_prague rv | OSAKA \<Rightarrow> rv_prague rv | CANCUN \<Rightarrow> rv_cancun rv
      | _ \<Rightarrow> rv_eth_precompiles rv (case first_other earlier of Some s \<Rightarrow> s | None \<Rightarrow> spec))"

text \<open>The caches after a history of requests.\<close>

definition caches_after :: "'p revm_sets \<Rightarrow> spec_id list \<Rightarrow> 'p precompile_caches \<Rightarrow> bool" where
  "caches_after rv specs c \<longleftrightarrow> cache_PRAGUE c \<in> {None, Some (openhl_precompiles (rv_prague rv))}
     \<and> cache_CANCUN c \<in> {None, Some (openhl_precompiles (rv_cancun rv))}
     \<and> cache_FALLBACK c = map_option (\<lambda>s. openhl_precompiles (rv_eth_precompiles rv s)) (first_other specs)"

lemma first_other_snoc: "first_other (specs @ [s]) = (case first_other specs of Some x \<Rightarrow> Some x | None \<Rightarrow> first_other [s])"
  by (induction specs rule: first_other.induct) (auto split: option.splits)

lemma first_other_single: "first_other [s] = (case s of OtherSpec n \<Rightarrow> Some s | _ \<Rightarrow> None)"
  by (cases s) auto

lemma precompiles_for_base:
  assumes "caches_after rv specs c" "precompiles_for rv spec c = (c', ps)"
  shows "ps = openhl_precompiles (base_set rv specs spec) \<and> caches_after rv (specs @ [spec]) c'"
  using assms
  by (cases spec; cases "first_other specs")
    (auto simp: precompiles_for_def caches_after_def base_set_def get_or_init_def first_other_snoc first_other_single Let_def split: option.splits)

lemma create_all_nth:
  assumes "caches_after rv specs c" "k < length reqs" "reqs ! k = (db, input, i)"
  shows "length (create_all rv reqs c) = length reqs"
    and "create_all rv reqs c ! k = \<lparr>ev_db = db, ev_env = input, ev_inspector = (i, []),
      ev_precompiles = openhl_precompiles (base_set rv (specs @ map (\<lambda>(_, input, _). ev_spec input) (take k reqs)) (ev_spec input)), ev_inspect = True\<rparr>"
proof -
  show "length (create_all rv reqs c) = length reqs"
    by (induction reqs arbitrary: c) (auto simp: Let_def split: prod.splits)
  show "create_all rv reqs c ! k = \<lparr>ev_db = db, ev_env = input, ev_inspector = (i, []),
      ev_precompiles = openhl_precompiles (base_set rv (specs @ map (\<lambda>(_, input, _). ev_spec input) (take k reqs)) (ev_spec input)), ev_inspect = True\<rparr>"
    using assms
  proof (induction reqs arbitrary: c specs k)
    case (Cons req reqs)
    obtain db0 input0 i0 where req: "req = (db0, input0, i0)" by (cases req)
    obtain c' ps where p: "precompiles_for rv (ev_spec input0) c = (c', ps)" by fastforce
    note b = precompiles_for_base[OF Cons.prems(1) p]
    show ?case
    proof (cases k)
      case 0
      then show ?thesis using Cons.prems p b req by (simp add: create_evm_with_inspector_def)
    next
      case (Suc j)
      then show ?thesis using Cons.IH[OF conjunct2[OF b], of j] Cons.prems p req by (simp add: create_evm_with_inspector_def)
    qed
  qed simp
qed

lemma no_caches_after: "caches_after rv [] no_caches"
  by (simp add: caches_after_def no_caches_def)

section \<open>Properties\<close>


definition demo_sets :: "int revm_sets" where
  "demo_sets = \<lparr>rv_prague = [1 \<mapsto> Standard 3], rv_cancun = [1 \<mapsto> Standard 2],
     rv_eth_precompiles = (\<lambda>s. case s of OtherSpec n \<Rightarrow> if 8 \<le> n then [1 \<mapsto> Standard 1, 9 \<mapsto> Standard 1] else [1 \<mapsto> Standard 1] | _ \<Rightarrow> Map.empty)\<rparr>"

definition demo_evm_env :: "spec_id \<Rightarrow> unit evm_env" where
  "demo_evm_env s = \<lparr>ev_spec = s, ev_chain_id = 2600, ev_block_env = ()\<rparr>"


text \<open>The cache for older hardforks is not keyed by the hardfork: after an EVM for an older one, a later one lacks the precompiles added in between, here the one at
  address 9, which the second EVM has when it is created alone.\<close>

theorem fallback_cache_is_not_keyed:
  "ev_precompiles (create_all demo_sets [((), demo_evm_env (OtherSpec 5), ()), ((), demo_evm_env (OtherSpec 10), ())] no_caches ! 1) 9 = None"
  "ev_precompiles (create_all demo_sets [((), demo_evm_env (OtherSpec 10), ())] no_caches ! 0) 9 = Some (Standard 1)"
  by (simp_all add: create_evm_with_inspector_def precompiles_for_def no_caches_def demo_evm_env_def get_or_init_def openhl_precompiles_def extend_set_def
      address_defs demo_sets_def Let_def)

text \<open>Switching inspection off switches the revert guard off with it: a deposit in a call that fails stays.\<close>

theorem disabled_inspector_leaks:
  "let evm = set_inspector_enabled False (snd (create_evm demo_sets () (demo_evm_env CANCUN) no_caches)) in
     snapshot_bridge_state (snd (transact_raw evm (Sub CallFrame False [Pre Deposit (u256_word 7 @ int256_word 250)]) (globals_of new_trading)))
     \<noteq> snapshot_bridge_state (globals_of new_trading)"
  by (simp add: Let_def create_evm_def set_inspector_enabled_def transact_raw_def case_prod_beta pc_deposit_def globals_of_def new_trading_def
      snapshot_bridge_state_def)

end
