(* ===== verification/Reader.thy ===== *)
theory Reader
  imports Evm_Factory
begin

text \<open>
  The reader contract of \<open>bin/openhl/src/reader_contracts.rs\<close>: the bytecode that the dev genesis installs at a fixed address, and what it returns. The
  virtual machine is REVM's and a parameter: a step function that does on the opcodes of the contract what the Ethereum specification
  says of them (\<open>opcode_step\<close>). The outcome of a call to another address is a parameter of the environment.
\<close>

section \<open>The genesis entry\<close>

definition MARGIN_HEALTH_READER :: int where "MARGIN_HEALTH_READER = 0x11101"

definition MARGIN_HEALTH_READER_CODE :: bytes where
  "MARGIN_HEALTH_READER_CODE =
     [0x36, 0x60, 0x00, 0x60, 0x00, 0x37,
      0x60, 0x20, 0x60, 0x00, 0x36, 0x60, 0x00, 0x60, 0x00, 0x61, 0x0c, 0x1f, 0x5a, 0xf1, 0x50,
      0x60, 0x20, 0x60, 0x00, 0xf3]"

record genesis_account =
  ga_nonce :: "int option"
  ga_balance :: int
  ga_code :: "bytes option"
  ga_storage :: "(int \<times> int) list option"
  ga_private_key :: "bytes option"

definition genesis_alloc :: "(int, genesis_account) btree" where
  "genesis_alloc = bt_insert MARGIN_HEALTH_READER
     \<lparr>ga_nonce = Some 1, ga_balance = 0, ga_code = Some MARGIN_HEALTH_READER_CODE, ga_storage = None, ga_private_key = None\<rparr> []"

section \<open>The machine\<close>

record evm_env =
  env_code :: bytes
  env_calldata :: bytes
  env_gas :: int
  env_call :: "int \<Rightarrow> int \<Rightarrow> int \<Rightarrow> bytes \<Rightarrow> bool \<times> bytes"

record evm_frame =
  ef_pc :: nat
  ef_stack :: "int list"
  ef_mem :: bytes
  ef_return :: "bytes option"

definition mem_read :: "nat \<Rightarrow> nat \<Rightarrow> bytes \<Rightarrow> bytes" where
  "mem_read off n mem = take n (drop off mem @ replicate n 0)"

definition mem_write :: "nat \<Rightarrow> bytes \<Rightarrow> bytes \<Rightarrow> bytes" where
  "mem_write off bs mem = (if bs = [] then mem else mem_read 0 off mem @ bs @ drop (off + length bs) mem)"

text \<open>The opcodes of the contract: \<open>CALLDATASIZE\<close>, \<open>CALLDATACOPY\<close>, \<open>POP\<close>, \<open>GAS\<close>, \<open>PUSH1\<close>, \<open>PUSH2\<close>, \<open>CALL\<close>, \<open>RETURN\<close>. A call writes at most as
  many bytes as it returned, and leaves the memory alone when it returned none.\<close>

definition opcode_step :: "evm_env \<Rightarrow> evm_frame \<Rightarrow> evm_frame option" where
  "opcode_step env f =
     (let pc = ef_pc f; next = f\<lparr>ef_pc := pc + 1\<rparr>
      in if ef_return f \<noteq> None \<or> pc \<ge> length (env_code env) then None
         else let opc = env_code env ! pc
         in if opc = 0x36 then Some (next\<lparr>ef_stack := int (length (env_calldata env)) # ef_stack f\<rparr>)
         else if opc = 0x37 then (case ef_stack f of
             dst # src # n # st \<Rightarrow> Some (next\<lparr>ef_stack := st, ef_mem := mem_write (nat dst) (mem_read (nat src) (nat n) (env_calldata env)) (ef_mem f)\<rparr>)
           | _ \<Rightarrow> None)
         else if opc = 0x50 then (case ef_stack f of _ # st \<Rightarrow> Some (next\<lparr>ef_stack := st\<rparr>) | _ \<Rightarrow> None)
         else if opc = 0x5a then Some (next\<lparr>ef_stack := env_gas env # ef_stack f\<rparr>)
         else if opc = 0x60 then Some (f\<lparr>ef_pc := pc + 2, ef_stack := env_code env ! (pc + 1) # ef_stack f\<rparr>)
         else if opc = 0x61 then Some (f\<lparr>ef_pc := pc + 3, ef_stack := (256 * env_code env ! (pc + 1) + env_code env ! (pc + 2)) # ef_stack f\<rparr>)
         else if opc = 0xf1 then (case ef_stack f of
             gas # addr # value # inoff # insize # outoff # outsize # st \<Rightarrow>
               (let (ok, out) = env_call env gas addr value (mem_read (nat inoff) (nat insize) (ef_mem f))
                in Some (next\<lparr>ef_stack := (if ok then 1 else 0) # st, ef_mem := mem_write (nat outoff) (take (nat outsize) out) (ef_mem f)\<rparr>))
           | _ \<Rightarrow> None)
         else if opc = 0xf3 then (case ef_stack f of
             off # n # st \<Rightarrow> Some (f\<lparr>ef_stack := st, ef_return := Some (mem_read (nat off) (nat n) (ef_mem f))\<rparr>)
           | _ \<Rightarrow> None)
         else None)"

definition implements_opcodes :: "(evm_env \<Rightarrow> evm_frame \<Rightarrow> evm_frame) \<Rightarrow> bool" where
  "implements_opcodes step \<longleftrightarrow> (\<forall>env f f'. opcode_step env f = Some f' \<longrightarrow> step env f = f')"

definition initial_frame :: evm_frame where
  "initial_frame = \<lparr>ef_pc = 0, ef_stack = [], ef_mem = [], ef_return = None\<rparr>"

text \<open>The contract has sixteen instructions and no jump.\<close>

definition run_reader :: "(evm_env \<Rightarrow> evm_frame \<Rightarrow> evm_frame) \<Rightarrow> evm_env \<Rightarrow> bytes option" where
  "run_reader step env = ef_return ((step env ^^ 16) initial_frame)"

lemma mem_read_full [simp]: "mem_read 0 (length xs) xs = xs"
  by (simp add: mem_read_def)

lemma mem_write_read:
  assumes "length out = 32 \<or> out = []"
  shows "mem_read 0 32 (mem_write 0 out mem) = (if out = [] then mem_read 0 32 mem else out)"
  using assms by (auto simp: mem_write_def mem_read_def)

lemma opcode_step_imp:
  "implements_opcodes step \<Longrightarrow> opcode_step env f \<noteq> None \<Longrightarrow> (step env ^^ Suc n) f = (step env ^^ n) (the (opcode_step env f))"
  by (auto simp: implements_opcodes_def funpow_Suc_right simp del: funpow.simps)

text \<open>The four parts of the contract: copy the call data, push the arguments of the call, call, return the first word of memory.\<close>

lemmas run_opcode = opcode_step_def Let_def MARGIN_HEALTH_READER_CODE_def eval_nat_numeral(2,3)

lemma reader_copies:
  assumes "implements_opcodes step" "env_code env = MARGIN_HEALTH_READER_CODE"
  shows "(step env ^^ 4) initial_frame = \<lparr>ef_pc = 6, ef_stack = [], ef_mem = env_calldata env, ef_return = None\<rparr>"
  using assms(2) by (simp add: opcode_step_imp[OF assms(1)] run_opcode initial_frame_def mem_write_def mem_read_def del: funpow.simps(2))

lemma reader_pushes:
  assumes "implements_opcodes step" "env_code env = MARGIN_HEALTH_READER_CODE"
  shows "(step env ^^ 7) \<lparr>ef_pc = 6, ef_stack = [], ef_mem = m, ef_return = None\<rparr>
    = \<lparr>ef_pc = 19, ef_stack = [env_gas env, OPENHL_MARGIN_HEALTH, 0, 0, int (length (env_calldata env)), 0, 32], ef_mem = m, ef_return = None\<rparr>"
  using assms(2) by (simp add: opcode_step_imp[OF assms(1)] run_opcode OPENHL_MARGIN_HEALTH_def del: funpow.simps(2))

lemma reader_calls:
  assumes "implements_opcodes step" "env_code env = MARGIN_HEALTH_READER_CODE"
    and "env_call env gas addr 0 m = (ok, out)" "length out = 32 \<or> out = []"
  shows "(step env ^^ 1) \<lparr>ef_pc = 19, ef_stack = [gas, addr, 0, 0, int (length m), 0, 32], ef_mem = m, ef_return = None\<rparr>
    = \<lparr>ef_pc = 20, ef_stack = [if ok then 1 else 0], ef_mem = mem_write 0 out m, ef_return = None\<rparr>"
  using assms(2-4) by (auto simp: opcode_step_imp[OF assms(1)] run_opcode mem_read_def simp del: funpow.simps(2))

lemma reader_returns:
  assumes "implements_opcodes step" "env_code env = MARGIN_HEALTH_READER_CODE"
  shows "ef_return ((step env ^^ 4) \<lparr>ef_pc = 20, ef_stack = [x], ef_mem = m, ef_return = None\<rparr>) = Some (mem_read 0 32 m)"
  using assms(2) by (simp add: opcode_step_imp[OF assms(1)] run_opcode del: funpow.simps(2))

lemma reader_runs:
  assumes "implements_opcodes step" "env_code env = MARGIN_HEALTH_READER_CODE"
    and "env_call env (env_gas env) OPENHL_MARGIN_HEALTH 0 (env_calldata env) = (ok, out)" "length out = 32 \<or> out = []"
  shows "run_reader step env = Some (if out = [] then mem_read 0 32 (env_calldata env) else out)"
proof -
  have split: "(step env ^^ (m + n)) f = (step env ^^ m) ((step env ^^ n) f)" for m n f by (simp add: funpow_add)
  have "(step env ^^ 16) initial_frame = (step env ^^ 4) ((step env ^^ 1) ((step env ^^ 7) ((step env ^^ 4) initial_frame)))"
    using split[of 4 12 initial_frame] split[of 1 11 initial_frame] split[of 7 4 initial_frame] by simp
  then show ?thesis
    unfolding run_reader_def reader_copies[OF assms(1,2)] reader_pushes[OF assms(1,2)] reader_calls[OF assms]
    by (simp add: reader_returns[OF assms(1,2)] mem_write_read[OF assms(4)])
qed

section \<open>Properties\<close>

text \<open>C38: the reader contract. On any machine that implements the opcodes, the bytecode that the genesis installs at the reader's address, called with an account id, returns the
  margin class that the bridge computes for that account, provided its call to the precompile succeeds.\<close>

theorem reader_returns_margin_health:
  assumes "implements_opcodes step" "shares g b" "in_u64 a"
    and "map_of genesis_alloc MARGIN_HEALTH_READER = Some acct" "ga_code acct = Some (env_code env)"
    and "env_calldata env = u256_word a"
    and "env_call env (env_gas env) OPENHL_MARGIN_HEALTH 0 (u256_word a) = (True, snd (pc_margin_health g (u256_word a)))"
  shows "run_reader step env = Some (u256_word (margin_health_tag (bridge_margin_health b a)))"
proof -
  have code: "env_code env = MARGIN_HEALTH_READER_CODE" using assms(4,5) by (auto simp add: genesis_alloc_def)
  have out: "snd (pc_margin_health g (u256_word a)) = replicate 31 0 @ [margin_health_tag (bridge_margin_health b a)]"
    by (rule margin_health_mirrors[OF assms(2,3)])
  have "u256_word (margin_health_tag h) = replicate 31 0 @ [margin_health_tag h]" for h
    by (cases h rule: margin_health_tag.cases; hypsubst; code_simp)
  then show ?thesis using reader_runs[OF assms(1) code] assms(6,7) out by simp
qed

text \<open>The success flag of the inner call is dropped. When that call fails, for want of gas, the contract returns its own call data, so the account id is
  read as a margin class: account 1 is reported safe.\<close>

theorem reader_failed_call:
  assumes "implements_opcodes step" "env_code env = MARGIN_HEALTH_READER_CODE"
    and "env_calldata env = u256_word 1" "env_call env (env_gas env) OPENHL_MARGIN_HEALTH 0 (u256_word 1) = (False, [])"
  shows "run_reader step env = Some (u256_word (margin_health_tag (Some Safe)))"
proof -
  have "mem_read 0 32 (u256_word 1) = u256_word (margin_health_tag (Some Safe))" by code_simp
  then show ?thesis using reader_runs[OF assms(1,2), of False "[]"] assms(3,4) by simp
qed

definition demo_step :: "evm_env \<Rightarrow> evm_frame \<Rightarrow> evm_frame" where
  "demo_step env f = (case opcode_step env f of Some f' \<Rightarrow> f' | None \<Rightarrow> f)"

lemma demo_step_implements: "implements_opcodes demo_step"
  by (simp add: implements_opcodes_def demo_step_def)

definition demo_env :: evm_env where
  "demo_env = \<lparr>env_code = MARGIN_HEALTH_READER_CODE, env_calldata = u256_word 1, env_gas = 30000,
     env_call = (\<lambda>gas addr value input. (True, snd (pc_margin_health (globals_of (new_trading\<lparr>lb_accounts := demo_accounts, lb_oracle_index_price := Some 100\<rparr>)) input)))\<rparr>"

theorem reader_returns_margin_health_witness: "run_reader demo_step demo_env = Some (replicate 31 0 @ [1])"
proof -
  let ?b = "new_trading\<lparr>lb_accounts := demo_accounts, lb_oracle_index_price := Some 100\<rparr>"
  let ?acct = "\<lparr>ga_nonce = Some 1, ga_balance = 0, ga_code = Some MARGIN_HEALTH_READER_CODE, ga_storage = None, ga_private_key = None\<rparr>"
  have "run_reader demo_step demo_env = Some (u256_word (margin_health_tag (bridge_margin_health ?b 1)))"
    by (rule reader_returns_margin_health[OF demo_step_implements shares_globals_of, where acct = ?acct])
      (simp_all add: demo_env_def genesis_alloc_def in_u64_def)
  also have "u256_word (margin_health_tag (bridge_margin_health ?b 1)) = replicate 31 0 @ [1]" by code_simp
  finally show ?thesis .
qed

end
