(* ===== verification/Cli.thy ===== *)
theory Cli
  imports Reader
begin

text \<open>
  The command line of \<open>bin/openhl/src/main.rs\<close> after clap has parsed it: the \<open>--rpc-bind\<close> address and the RPC server arguments it gives, the data directory and its files, the
  genesis allocation of the built-in chain spec, and the shortened hashes it prints. \<open>parse_socket_spec\<close> uses the parsers of the standard library for IP addresses and
  ports, which are modelled as \<open>core::net\<close> and \<open>core::num\<close> have them: read one character at a time, with no backtracking but to the start of an alternative.
\<close>

section \<open>The number and address parsers of the standard library\<close>

definition to_digit :: "nat \<Rightarrow> char \<Rightarrow> nat option" where
  "to_digit radix c =
     (let n = of_char c :: nat;
          d = (if 48 \<le> n \<and> n \<le> 57 then n - 48 else if 97 \<le> n \<and> n \<le> 122 then n - 87 else if 65 \<le> n \<and> n \<le> 90 then n - 55 else 36)
      in if d < radix then Some d else None)"

text \<open>A reader returns what it read and the rest of the input; \<open>None\<close> leaves the input where it was.\<close>

type_synonym 'a reader = "string \<Rightarrow> ('a \<times> string) option"

fun read_digits :: "nat \<Rightarrow> nat \<Rightarrow> nat \<Rightarrow> nat \<Rightarrow> string \<Rightarrow> (nat \<times> nat \<times> string) option" where
  "read_digits radix max_digits cnt acc [] = Some (cnt, acc, [])"
| "read_digits radix max_digits cnt acc (c # cs) =
     (case to_digit radix c of
        None \<Rightarrow> Some (cnt, acc, c # cs)
      | Some d \<Rightarrow> if cnt + 1 > max_digits then None else read_digits radix max_digits (cnt + 1) (acc * radix + d) cs)"

definition read_number :: "nat \<Rightarrow> nat \<Rightarrow> bool \<Rightarrow> nat \<Rightarrow> nat reader" where
  "read_number radix max_digits allow_zero_prefix bound s =
     (let has_leading_zero = (s \<noteq> [] \<and> hd s = CHR ''0'')
      in case read_digits radix max_digits 0 0 s of
           None \<Rightarrow> None
         | Some (cnt, x, rest) \<Rightarrow>
             if cnt = 0 then None
             else if \<not> allow_zero_prefix \<and> has_leading_zero \<and> cnt > 1 then None
             else if x < bound then Some (x, rest) else None)"

definition read_separator :: "char \<Rightarrow> nat \<Rightarrow> 'a reader \<Rightarrow> 'a reader" where
  "read_separator sep i p s = (if i > 0 then (case s of [] \<Rightarrow> None | c # cs \<Rightarrow> if c = sep then p cs else None) else p s)"

fun read_octets :: "nat \<Rightarrow> nat \<Rightarrow> nat list reader" where
  "read_octets i 0 s = Some ([], s)"
| "read_octets i (Suc left) s =
     (case read_separator CHR ''.'' i (read_number 10 3 False 256) s of
        None \<Rightarrow> None
      | Some (x, rest) \<Rightarrow> map_option (\<lambda>(xs, r). (x # xs, r)) (read_octets (Suc i) left rest))"

definition read_ipv4_addr :: "nat list reader" where
  "read_ipv4_addr = read_octets 0 4"

text \<open>The groups read, and whether the last two came from an embedded IPv4 address. \<open>left\<close> is the number of free slots.\<close>

fun read_groups :: "nat \<Rightarrow> nat \<Rightarrow> string \<Rightarrow> nat list \<times> bool \<times> string" where
  "read_groups i 0 s = ([], False, s)"
| "read_groups i (Suc left) s =
     (case (if left \<ge> 1 then read_separator CHR '':'' i read_ipv4_addr s else None) of
        Some (os, rest) \<Rightarrow> ([os ! 0 * 256 + os ! 1, os ! 2 * 256 + os ! 3], True, rest)
      | None \<Rightarrow> (case read_separator CHR '':'' i (read_number 16 4 True 65536) s of
          None \<Rightarrow> ([], False, s)
        | Some (g, rest) \<Rightarrow> (case read_groups (Suc i) left rest of (gs, v4, r) \<Rightarrow> (g # gs, v4, r))))"

definition read_ipv6_addr :: "nat list reader" where
  "read_ipv6_addr s =
     (case read_groups 0 8 s of (head, head_ipv4, s1) \<Rightarrow>
        if length head = 8 then Some (head, s1)
        else if head_ipv4 then None
        else case s1 of
          c1 # c2 # s2 \<Rightarrow>
            if c1 = CHR '':'' \<and> c2 = CHR '':''
            then (case read_groups 0 (8 - (length head + 1)) s2 of (tail, _, s3) \<Rightarrow>
                    Some (head @ replicate (8 - length head - length tail) 0 @ tail, s3))
            else None
        | _ \<Rightarrow> None)"

datatype ip_addr = V4 "nat list" | V6 "nat list"

definition parse_ip :: "string \<Rightarrow> ip_addr option" where
  "parse_ip s =
     (case read_ipv4_addr s of
        Some (os, rest) \<Rightarrow> if rest = [] then Some (V4 os) else None
      | None \<Rightarrow> (case read_ipv6_addr s of
          Some (gs, rest) \<Rightarrow> if rest = [] then Some (V6 gs) else None
        | None \<Rightarrow> None))"

fun checked_digits :: "nat \<Rightarrow> nat \<Rightarrow> string \<Rightarrow> nat option" where
  "checked_digits bound acc [] = Some acc"
| "checked_digits bound acc (c # cs) =
     (case to_digit 10 c of
        None \<Rightarrow> None
      | Some d \<Rightarrow> if acc * 10 + d < bound then checked_digits bound (acc * 10 + d) cs else None)"

definition parse_u16 :: "string \<Rightarrow> nat option" where
  "parse_u16 s =
     (case s of
        [] \<Rightarrow> None
      | c # cs \<Rightarrow> if cs = [] \<and> (c = CHR ''+'' \<or> c = CHR ''-'') then None
                   else checked_digits 65536 0 (if c = CHR ''+'' then cs else s))"

section \<open>The socket spec\<close>

datatype socket_error = NoClosingBracket | NoColonAfterBracket | NoColon | InvalidIp string | InvalidPort string

fun split_once :: "char \<Rightarrow> string \<Rightarrow> (string \<times> string) option" where
  "split_once c [] = None"
| "split_once c (x # xs) = (if x = c then Some ([], xs) else map_option (\<lambda>(a, b). (x # a, b)) (split_once c xs))"

definition rsplit_once :: "char \<Rightarrow> string \<Rightarrow> (string \<times> string) option" where
  "rsplit_once c s = map_option (\<lambda>(a, b). (rev b, rev a)) (split_once c (rev s))"

definition split_spec :: "string \<Rightarrow> socket_error + string \<times> string" where
  "split_spec spec =
     (case spec of
        [] \<Rightarrow> Inl NoColon
      | c # rest \<Rightarrow>
          if c = CHR ''[''
          then (case split_once CHR '']'' rest of
                  None \<Rightarrow> Inl NoClosingBracket
                | Some (v6, after) \<Rightarrow> (case after of
                    [] \<Rightarrow> Inl NoColonAfterBracket
                  | d # port \<Rightarrow> if d = CHR '':'' then Inr (v6, port) else Inl NoColonAfterBracket))
          else (case rsplit_once CHR '':'' spec of None \<Rightarrow> Inl NoColon | Some (a, p) \<Rightarrow> Inr (a, p)))"

definition parse_socket_spec :: "string \<Rightarrow> socket_error + ip_addr \<times> nat" where
  "parse_socket_spec spec =
     (case split_spec spec of
        Inl e \<Rightarrow> Inl e
      | Inr (addr_str, port_str) \<Rightarrow> (case parse_ip addr_str of
          None \<Rightarrow> Inl (InvalidIp addr_str)
        | Some addr \<Rightarrow> (case parse_u16 port_str of
            None \<Rightarrow> Inl (InvalidPort port_str)
          | Some port \<Rightarrow> Inr (addr, port))))"

section \<open>The RPC server arguments\<close>

text \<open>The fields of Reth's \<open>RpcServerArgs\<close> that the binary sets.\<close>

record rpc_server_args =
  ra_http :: bool
  ra_http_addr :: ip_addr
  ra_http_port :: nat
  ra_ws :: bool
  ra_ws_addr :: ip_addr
  ra_ws_port :: nat
  ra_auth_addr :: ip_addr
  ra_auth_port :: nat
  ra_ipcdisable :: bool

definition rpc_args :: "rpc_server_args \<Rightarrow> string option \<Rightarrow> socket_error + rpc_server_args" where
  "rpc_args defaults rpc_bind =
     (let args = defaults\<lparr>ra_http := True, ra_ws := True\<rparr>
      in case rpc_bind of
           None \<Rightarrow> Inr args
         | Some spec \<Rightarrow> (case parse_socket_spec spec of
             Inl e \<Rightarrow> Inl e
           | Inr (ip, port) \<Rightarrow>
               Inr (args\<lparr>ra_http_addr := ip, ra_http_port := port, ra_ws_addr := ip, ra_ws_port := 0,
                         ra_auth_addr := ip, ra_auth_port := 0, ra_ipcdisable := True\<rparr>)))"

section \<open>Files and the built-in chain spec\<close>

definition path_join :: "string \<Rightarrow> string \<Rightarrow> string" where
  "path_join p q = (if q \<noteq> [] \<and> hd q = CHR ''/'' then q else if p = [] \<or> last p = CHR ''/'' then p @ q else p @ ''/'' @ q)"

definition resolve_data_dir :: "string option \<Rightarrow> string option \<Rightarrow> string option" where
  "resolve_data_dir home user_supplied =
     (case user_supplied of
        Some p \<Rightarrow> Some p
      | None \<Rightarrow> (case home of None \<Rightarrow> None | Some h \<Rightarrow> Some (path_join (path_join h ''.openhl'') ''data'')))"

definition ANVIL_ACCOUNT :: int where "ANVIL_ACCOUNT = 0xf39Fd6e51aad88F6F4ce6aB8827279cffFb92266"

record chain_config =
  cc_chain_id :: int
  cc_homestead_block :: "int option"
  cc_eip150_block :: "int option"
  cc_eip155_block :: "int option"
  cc_eip158_block :: "int option"
  cc_byzantium_block :: "int option"
  cc_constantinople_block :: "int option"
  cc_petersburg_block :: "int option"
  cc_istanbul_block :: "int option"
  cc_berlin_block :: "int option"
  cc_london_block :: "int option"
  cc_terminal_total_difficulty :: "int option"
  cc_terminal_total_difficulty_passed :: bool
  cc_shanghai_time :: "int option"

record dev_genesis =
  dg_nonce :: int
  dg_timestamp :: int
  dg_extra_data :: bytes
  dg_gas_limit :: int
  dg_difficulty :: int
  dg_mix_hash :: int
  dg_coinbase :: int
  dg_alloc :: "(int, genesis_account) btree"
  dg_number :: int
  dg_gas_used :: int
  dg_parent_hash :: int
  dg_config :: chain_config

text \<open>The embedded JSON, as \<open>alloy_genesis\<close> reads it.\<close>

definition dev_genesis_json :: dev_genesis where
  "dev_genesis_json =
     \<lparr>dg_nonce = 0x42, dg_timestamp = 0, dg_extra_data = [0x53, 0x43], dg_gas_limit = 0x1c9c380, dg_difficulty = 0x400000000, dg_mix_hash = 0, dg_coinbase = 0,
      dg_alloc = [], dg_number = 0, dg_gas_used = 0, dg_parent_hash = 0,
      dg_config = \<lparr>cc_chain_id = 2600, cc_homestead_block = Some 0, cc_eip150_block = Some 0, cc_eip155_block = Some 0, cc_eip158_block = Some 0,
        cc_byzantium_block = Some 0, cc_constantinople_block = Some 0, cc_petersburg_block = Some 0, cc_istanbul_block = Some 0, cc_berlin_block = Some 0,
        cc_london_block = Some 0, cc_terminal_total_difficulty = Some 0, cc_terminal_total_difficulty_passed = True, cc_shanghai_time = Some 0\<rparr>\<rparr>"

definition dev_chain_spec :: dev_genesis where
  "dev_chain_spec =
     (let genesis = dev_genesis_json\<lparr>dg_alloc := fold (\<lambda>(a, acct). bt_insert a acct) genesis_alloc (dg_alloc dev_genesis_json)\<rparr>
      in genesis\<lparr>dg_alloc := bt_insert ANVIL_ACCOUNT
           \<lparr>ga_nonce = None, ga_balance = 1000000000000000000000, ga_code = None, ga_storage = None, ga_private_key = None\<rparr> (dg_alloc genesis)\<rparr>)"

section \<open>Shortened hashes\<close>

definition hex_digit :: "nat \<Rightarrow> char" where
  "hex_digit d = (char_of :: nat \<Rightarrow> char) (if d < 10 then 48 + d else 87 + d)"

definition hex_byte :: "int \<Rightarrow> string" where
  "hex_byte b = [hex_digit (nat b div 16), hex_digit (nat b mod 16)]"

definition hex_prefix :: "bytes \<Rightarrow> nat \<Rightarrow> string" where
  "hex_prefix bs n = concat (map hex_byte (take n bs))"

definition hex_suffix :: "bytes \<Rightarrow> nat \<Rightarrow> string" where
  "hex_suffix bs n = concat (map hex_byte (drop (32 - n) bs))"

text \<open>The hexadecimal part of what is printed; an ellipsis follows.\<close>

definition short_hash :: "bytes \<Rightarrow> string" where
  "short_hash h = concat (map hex_byte (take 4 h))"

section \<open>Printed numbers\<close>

function digits :: "nat \<Rightarrow> nat \<Rightarrow> string" where
  "digits r n = (if n < r \<or> r < 2 then [hex_digit n] else digits r (n div r) @ [hex_digit (n mod r)])"
  by pat_completeness auto
termination by (relation "measure snd") auto

declare digits.simps [simp del]

lemma to_digit_hex: "d < radix \<Longrightarrow> radix \<le> 16 \<Longrightarrow> to_digit radix (hex_digit d) = Some d"
  by (auto simp: to_digit_def hex_digit_def Let_def)

lemma digits_fold: "2 \<le> r \<Longrightarrow> r \<le> 16 \<Longrightarrow> foldl (\<lambda>a c. a * r + the (to_digit r c)) 0 (digits r n) = n"
proof (induction r n rule: digits.induct)
  case (1 r n)
  then show ?case by (cases "n < r") (auto simp: digits.simps[of r n] to_digit_hex)
qed

lemma digits_are: "2 \<le> r \<Longrightarrow> r \<le> 16 \<Longrightarrow> c \<in> set (digits r n) \<Longrightarrow> \<exists>d < r. c = hex_digit d"
proof (induction r n rule: digits.induct)
  case (1 r n)
  have "hex_digit (n mod r) = c \<Longrightarrow> \<exists>d < r. c = hex_digit d" using 1(2) by (intro exI[of _ "n mod r"]) simp
  then show ?case using 1 by (cases "n < r") (auto simp: digits.simps[of r n])
qed

lemma digits_length: "2 \<le> r \<Longrightarrow> n < r ^ Suc k \<Longrightarrow> length (digits r n) \<le> Suc k"
proof (induction r n arbitrary: k rule: digits.induct)
  case (1 r n)
  show ?case
  proof (cases "n < r")
    case False
    with 1(3) obtain j where k: "k = Suc j" by (cases k) auto
    have "n div r < r ^ Suc j" using 1(2,3) k by (simp add: div_less_iff_less_mult mult.commute)
    then show ?thesis using 1(1)[of j] 1(2) False k by (simp add: digits.simps[of r n])
  qed (simp add: digits.simps[of r n])
qed

lemma digits_nonempty [simp]: "digits r n \<noteq> []" by (subst digits.simps) simp

lemma hex_digit_zero: "d < 16 \<Longrightarrow> hex_digit d = CHR ''0'' \<longleftrightarrow> d = 0"
proof -
  assume d: "d < 16"
  have "hex_digit d = CHR ''0'' \<longleftrightarrow> (of_char (hex_digit d) :: nat) = of_char (CHR ''0'')" by (simp only: of_char_eq_iff)
  then show ?thesis using d by (auto simp: hex_digit_def)
qed

lemma digits_leading: "2 \<le> r \<Longrightarrow> r \<le> 16 \<Longrightarrow> hd (digits r n) = CHR ''0'' \<Longrightarrow> n = 0"
proof (induction r n rule: digits.induct)
  case (1 r n)
  then show ?case
    by (cases "n < r") (auto simp: digits.simps[of r n] hex_digit_zero hd_append div_eq_0_iff)
qed

lemma digits_single: "2 \<le> r \<Longrightarrow> r \<le> 16 \<Longrightarrow> hd (digits r n) = CHR ''0'' \<Longrightarrow> length (digits r n) = 1"
  using digits_leading[of r n] by (simp add: digits.simps[of r 0])

section \<open>Reading what was printed\<close>

definition stops :: "nat \<Rightarrow> string \<Rightarrow> bool" where
  "stops r rest \<longleftrightarrow> rest = [] \<or> to_digit r (hd rest) = None"

lemma read_digits_stop: "stops r rest \<Longrightarrow> read_digits r m c a rest = Some (c, a, rest)"
  by (cases rest) (auto simp: stops_def)

lemma read_digits_append:
  assumes "\<forall>x \<in> set ds. to_digit r x \<noteq> None" "c + length ds \<le> m"
  shows "read_digits r m c a (ds @ rest) = read_digits r m (c + length ds) (foldl (\<lambda>a x. a * r + the (to_digit r x)) a ds) rest"
  using assms by (induction ds arbitrary: c a) auto

lemma read_printed:
  assumes "2 \<le> r" "r \<le> 16" "n < r ^ Suc k" "n < bound" "stops r rest"
  shows "read_number r (Suc k) z bound (digits r n @ rest) = Some (n, rest)"
proof -
  have ds: "\<forall>x \<in> set (digits r n). to_digit r x \<noteq> None" using digits_are[OF assms(1,2)] to_digit_hex assms(2) by fastforce
  have len: "0 + length (digits r n) \<le> Suc k" using digits_length[OF assms(1,3)] by simp
  have "read_digits r (Suc k) 0 0 (digits r n @ rest) = Some (length (digits r n), n, rest)"
    unfolding read_digits_append[OF ds len] by (simp add: read_digits_stop[OF assms(5)] digits_fold assms(1,2))
  then show ?thesis
    using digits_single[OF assms(1,2), of n] assms(4) by (auto simp: read_number_def Let_def)
qed

lemma checked_printed:
  assumes "\<forall>x \<in> set ds. to_digit 10 x \<noteq> None" "foldl (\<lambda>a x. a * 10 + the (to_digit 10 x)) a ds < bound"
  shows "checked_digits bound a ds = Some (foldl (\<lambda>a x. a * 10 + the (to_digit 10 x)) a ds)"
  using assms
proof (induction ds arbitrary: a)
  case (Cons x ds)
  have mono: "b \<le> foldl (\<lambda>a x. a * 10 + the (to_digit 10 x)) b ds" for b :: nat
  proof (induction ds arbitrary: b)
    case (Cons y ds)
    show ?case using Cons[of "b * 10 + the (to_digit 10 y)"] by simp
  qed simp
  show ?case using Cons mono[of "a * 10 + the (to_digit 10 x)"] by auto
qed simp

lemma parse_u16_printed:
  assumes "n < 65536"
  shows "parse_u16 (digits 10 n) = Some n"
proof -
  have ds: "\<forall>x \<in> set (digits 10 n). to_digit 10 x \<noteq> None" using digits_are[of 10] to_digit_hex[of _ 10] by fastforce
  then have "checked_digits 65536 0 (digits 10 n) = Some n" using checked_printed[OF ds, of 0 65536] digits_fold[of 10 n] assms by simp
  moreover obtain c cs where c: "digits 10 n = c # cs" by (cases "digits 10 n") auto
  moreover have "c \<noteq> CHR ''+''" "c \<noteq> CHR ''-''" using ds c by (auto simp: to_digit_def)
  ultimately show ?thesis by (simp add: parse_u16_def)
qed

lemma digits_notin: "to_digit 16 c = None \<Longrightarrow> 2 \<le> r \<Longrightarrow> r \<le> 16 \<Longrightarrow> c \<notin> set (digits r n)"
  using digits_are[of r c n] to_digit_hex[of _ 16] by fastforce

lemma punctuation [simp]:
  "to_digit 10 CHR ''.'' = None" "to_digit 16 CHR ''.'' = None" "to_digit 16 CHR '':'' = None" "to_digit 16 CHR '']'' = None" "to_digit 16 CHR ''['' = None"
  by (simp_all add: to_digit_def)

section \<open>Addresses\<close>

text \<open>The text of a list of numbers, from the second on and in full.\<close>

definition tail_text :: "char \<Rightarrow> nat \<Rightarrow> nat list \<Rightarrow> string" where
  "tail_text sep r xs = concat (map (\<lambda>x. sep # digits r x) xs)"

definition joined :: "char \<Rightarrow> nat \<Rightarrow> nat list \<Rightarrow> string" where
  "joined sep r xs = (case xs of [] \<Rightarrow> [] | x # xs \<Rightarrow> digits r x @ tail_text sep r xs)"

lemma tail_text_simps [simp]: "tail_text sep r [] = []" "tail_text sep r (x # xs) = sep # digits r x @ tail_text sep r xs"
  by (simp_all add: tail_text_def)

lemma joined_notin:
  assumes "to_digit 16 c = None" "2 \<le> r" "r \<le> 16" "c \<noteq> sep"
  shows "c \<notin> set (joined sep r xs)"
  using digits_notin[OF assms(1-3)] assms(4) by (auto simp: joined_def tail_text_def split: list.splits)

lemma stops_tail: "to_digit r sep = None \<Longrightarrow> stops r rest \<Longrightarrow> stops r (tail_text sep r xs @ rest)"
  by (cases xs) (auto simp: stops_def)

lemma read_octets_printed:
  assumes "\<forall>x \<in> set xs. x < 256" "stops 10 rest" "i > 0"
  shows "read_octets i (length xs) (tail_text CHR ''.'' 10 xs @ rest) = Some (xs, rest)"
  using assms
proof (induction xs arbitrary: i)
  case (Cons x xs)
  have "read_number 10 3 False 256 (digits 10 x @ tail_text CHR ''.'' 10 xs @ rest) = Some (x, tail_text CHR ''.'' 10 xs @ rest)"
    using Cons.prems read_printed[of 10 x 2 256 "tail_text CHR ''.'' 10 xs @ rest" False] stops_tail[of 10 "CHR ''.''" rest xs]
    by (simp add: numeral_3_eq_3)
  then show ?case using Cons.IH[of "Suc i"] Cons.prems by (simp add: read_separator_def)
qed simp

lemma parse_ipv4_printed:
  assumes "length os = 4" "\<forall>x \<in> set os. x < 256"
  shows "parse_ip (joined CHR ''.'' 10 os) = Some (V4 os)"
proof -
  obtain x xs where os: "os = x # xs" "length xs = 3" using assms(1) by (cases os) auto
  have "read_number 10 3 False 256 (digits 10 x @ tail_text CHR ''.'' 10 xs) = Some (x, tail_text CHR ''.'' 10 xs)"
    using assms os read_printed[of 10 x 2 256 "tail_text CHR ''.'' 10 xs" False] stops_tail[of 10 "CHR ''.''" "[]" xs]
    by (simp add: numeral_3_eq_3 stops_def)
  moreover have "read_octets (Suc 0) (Suc (Suc (Suc 0))) (tail_text CHR ''.'' 10 xs) = Some (xs, [])"
    using read_octets_printed[of xs "[]" "Suc 0"] assms(2) os by (simp add: stops_def numeral_3_eq_3)
  ultimately show ?thesis
    by (simp add: parse_ip_def read_ipv4_addr_def joined_def os(1) read_separator_def eval_nat_numeral del: read_octets.simps(2))
       (simp add: read_separator_def eval_nat_numeral)
qed

text \<open>Without a dot there is no embedded IPv4 address.\<close>

lemma read_digits_suffix: "read_digits r m c a s = Some (k, x, rest) \<Longrightarrow> set rest \<subseteq> set s"
  by (induction s arbitrary: c a) (auto split: option.splits if_splits)

lemma no_dot_no_ipv4:
  assumes "CHR ''.'' \<notin> set s"
  shows "read_ipv4_addr s = None"
proof -
  have "read_octets 1 (Suc n) rest = None" if "set rest \<subseteq> set s" for n rest
    using that assms by (cases rest) (auto simp: read_separator_def)
  moreover have "set rest \<subseteq> set s" if "read_number 10 3 False 256 s = Some (x, rest)" for x rest
    using that by (auto simp: read_number_def Let_def dest!: read_digits_suffix split: option.splits if_splits)
  ultimately show ?thesis by (auto simp: read_ipv4_addr_def read_separator_def eval_nat_numeral split: option.splits)
qed

lemma no_dot_separator: "CHR ''.'' \<notin> set s \<Longrightarrow> read_separator CHR '':'' i read_ipv4_addr s = None"
  using no_dot_no_ipv4 by (auto simp: read_separator_def split: list.splits)

text \<open>Where a sequence of groups ends: at the end of the text or at a double colon.\<close>

definition ends_groups :: "string \<Rightarrow> bool" where
  "ends_groups rest \<longleftrightarrow> CHR ''.'' \<notin> set rest \<and> (rest = [] \<or> (\<exists>s. rest = CHR '':'' # CHR '':'' # s))"

lemma no_number: "s = [] \<or> to_digit 16 (hd s) = None \<Longrightarrow> read_number 16 4 True 65536 s = None"
  by (cases s) (auto simp: read_number_def)

lemma read_groups_end: "ends_groups rest \<Longrightarrow> read_groups i left rest = ([], False, rest)"
proof (cases left)
  case (Suc l)
  assume e: "ends_groups rest"
  have "read_separator CHR '':'' i read_ipv4_addr rest = None" using e by (intro no_dot_separator) (simp add: ends_groups_def)
  moreover have "read_separator CHR '':'' i (read_number 16 4 True 65536) rest = None"
    using e no_number[of rest] no_number[of "tl rest"] by (auto simp: ends_groups_def read_separator_def)
  ultimately show ?thesis unfolding Suc read_groups.simps by simp
qed simp

lemma read_group:
  assumes "g < 65536" "ends_groups rest"
  shows "read_number 16 4 True 65536 (digits 16 g @ tail_text CHR '':'' 16 gs @ rest) = Some (g, tail_text CHR '':'' 16 gs @ rest)"
proof -
  have st: "stops 16 (tail_text CHR '':'' 16 gs @ rest)" using assms(2) by (intro stops_tail) (auto simp: stops_def ends_groups_def)
  have g: "g < 16 ^ Suc 3" using assms(1) by simp
  have four: "Suc 3 = 4" by simp
  show ?thesis by (rule read_printed[OF _ _ g assms(1) st, of True, unfolded four]) simp_all
qed

lemma no_dot_tail: "ends_groups rest \<Longrightarrow> CHR ''.'' \<notin> set (tail_text CHR '':'' 16 gs @ rest)"
  using digits_notin[of "CHR ''.''" 16] by (auto simp: ends_groups_def tail_text_def)

lemma no_dot_digits: "CHR ''.'' \<notin> set (digits 16 g)"
  by (rule digits_notin) simp_all

lemma read_groups_tail:
  assumes "\<forall>g \<in> set gs. g < 65536" "ends_groups rest" "length gs \<le> left" "i > 0"
  shows "read_groups i left (tail_text CHR '':'' 16 gs @ rest) = (gs, False, rest)"
  using assms
proof (induction gs arbitrary: i left)
  case (Cons g gs)
  obtain l where l: "left = Suc l" using Cons.prems(3) by (cases left) auto
  have "read_separator CHR '':'' i read_ipv4_addr (tail_text CHR '':'' 16 (g # gs) @ rest) = None"
    by (rule no_dot_separator) (rule no_dot_tail[OF assms(2)])
  moreover have "read_separator CHR '':'' i (read_number 16 4 True 65536) (tail_text CHR '':'' 16 (g # gs) @ rest)
      = Some (g, tail_text CHR '':'' 16 gs @ rest)"
    using read_group[OF _ assms(2), of g gs] Cons.prems by (simp add: read_separator_def)
  ultimately show ?case
    using Cons.IH[of l "Suc i"] Cons.prems unfolding l read_groups.simps by simp
qed (simp add: read_groups_end)

lemma read_groups_printed:
  assumes "\<forall>g \<in> set gs. g < 65536" "ends_groups rest" "length gs \<le> left"
  shows "read_groups 0 left (joined CHR '':'' 16 gs @ rest) = (gs, False, rest)"
proof (cases gs)
  case (Cons g gs')
  obtain l where l: "left = Suc l" using Cons assms(3) by (cases left) auto
  have "read_separator CHR '':'' 0 read_ipv4_addr (joined CHR '':'' 16 gs @ rest) = None"
    using no_dot_tail[OF assms(2), of gs'] no_dot_digits[of g] by (intro no_dot_separator) (simp add: joined_def Cons)
  moreover have "read_separator CHR '':'' 0 (read_number 16 4 True 65536) (joined CHR '':'' 16 gs @ rest) = Some (g, tail_text CHR '':'' 16 gs' @ rest)"
    using read_group[OF _ assms(2), of g gs'] assms(1) by (simp add: read_separator_def joined_def Cons)
  ultimately show ?thesis
    using read_groups_tail[of gs' rest l "Suc 0"] assms Cons unfolding l read_groups.simps by simp
qed (simp add: joined_def read_groups_end[OF assms(2)])

lemma parse_ipv6_printed:
  assumes "\<forall>g \<in> set gs. g < 65536" "length gs = 8"
  shows "parse_ip (joined CHR '':'' 16 gs) = Some (V6 gs)"
proof -
  have end0: "ends_groups []" by (simp add: ends_groups_def)
  have "CHR ''.'' \<notin> set (joined CHR '':'' 16 gs)" by (rule joined_notin) simp_all
  then show ?thesis
    using read_groups_printed[OF assms(1) end0, of 8] assms(2) by (simp add: parse_ip_def no_dot_no_ipv4 read_ipv6_addr_def)
qed

lemma parse_ipv6_compressed:
  assumes "\<forall>g \<in> set (hs @ ts). g < 65536" "length hs + length ts \<le> 7"
  shows "parse_ip (joined CHR '':'' 16 hs @ ''::'' @ joined CHR '':'' 16 ts) = Some (V6 (hs @ replicate (8 - length hs - length ts) 0 @ ts))"
proof -
  let ?rest = "''::'' @ joined CHR '':'' 16 ts"
  have dots: "CHR ''.'' \<notin> set (joined CHR '':'' 16 xs)" for xs by (rule joined_notin) simp_all
  have ends: "ends_groups ?rest" "ends_groups []" using dots by (simp_all add: ends_groups_def)
  have "read_groups 0 8 (joined CHR '':'' 16 hs @ ?rest) = (hs, False, ?rest)"
    using assms by (intro read_groups_printed ends) auto
  moreover have "read_groups 0 (8 - (length hs + 1)) (joined CHR '':'' 16 ts) = (ts, False, [])"
    using read_groups_printed[OF _ ends(2), of ts "8 - (length hs + 1)"] assms by auto
  moreover have "read_ipv4_addr (joined CHR '':'' 16 hs @ ?rest) = None" using dots by (intro no_dot_no_ipv4) auto
  ultimately show ?thesis using assms(2) by (simp add: parse_ip_def read_ipv6_addr_def)
qed

section \<open>What the parsers can return\<close>

lemma read_octets_range: "read_octets i n s = Some (os, rest) \<Longrightarrow> length os = n \<and> (\<forall>x \<in> set os. x < 256)"
proof (induction n arbitrary: i s os rest)
  case (Suc n)
  obtain x r where "read_separator CHR ''.'' i (read_number 10 3 False 256) s = Some (x, r)"
    and o: "map_option (\<lambda>(xs, r). (x # xs, r)) (read_octets (Suc i) n r) = Some (os, rest)"
    using Suc.prems by (auto split: option.splits)
  then have "x < 256" by (auto simp: read_separator_def read_number_def Let_def split: if_splits list.splits option.splits)
  then show ?case using o Suc.IH[of "Suc i" r] by auto
qed simp

lemma read_groups_range: "read_groups i n s = (gs, v, rest) \<Longrightarrow> length gs \<le> n \<and> (\<forall>g \<in> set gs. g < 65536)"
proof (induction n arbitrary: i s gs v rest)
  case (Suc n)
  have sep: "x < 65536" if "read_separator CHR '':'' i (read_number 16 4 True 65536) s = Some (x, r)" for x r
    using that by (auto simp: read_separator_def read_number_def Let_def split: if_splits list.splits option.splits)
  have v4: "os ! 0 * 256 + os ! 1 < 65536 \<and> os ! 2 * 256 + os ! 3 < 65536"
    if e: "read_separator CHR '':'' i read_ipv4_addr s = Some (os, r)" for os r
  proof -
    obtain s' where "read_octets 0 4 s' = Some (os, r)" using e by (auto simp: read_separator_def read_ipv4_addr_def split: if_splits list.splits)
    then have "length os = 4" "\<forall>x \<in> set os. x < 256" using read_octets_range by blast+
    then have "os ! 0 < 256" "os ! 1 < 256" "os ! 2 < 256" "os ! 3 < 256" by simp_all
    then show ?thesis by simp
  qed
  show ?case
    using Suc.prems Suc.IH sep v4
    by (fastforce split: option.splits prod.splits if_splits)
qed simp

lemma parse_ip_range:
  assumes "parse_ip s = Some ip"
  shows "case ip of V4 os \<Rightarrow> length os = 4 \<and> (\<forall>x \<in> set os. x < 256) | V6 gs \<Rightarrow> length gs = 8 \<and> (\<forall>g \<in> set gs. g < 65536)"
proof (cases "read_ipv4_addr s")
  case None
  then obtain gs r where gs: "read_ipv6_addr s = Some (gs, r)" "ip = V6 gs" using assms by (auto simp: parse_ip_def split: option.splits if_splits)
  obtain hs v s1 where h: "read_groups 0 8 s = (hs, v, s1)" using prod_cases3 by blast
  obtain ts v' s3 where t: "read_groups 0 (8 - (length hs + 1)) (tl (tl s1)) = (ts, v', s3)" using prod_cases3 by blast
  have "length gs = 8 \<and> (\<forall>g \<in> set gs. g < 65536)"
    using gs(1) h t read_groups_range[OF h] read_groups_range[OF t]
    by (auto simp: read_ipv6_addr_def split: if_splits list.splits)
  then show ?thesis by (simp add: gs(2))
next
  case (Some p)
  then show ?thesis using assms read_octets_range[of 0 4 s] by (auto simp: parse_ip_def read_ipv4_addr_def split: if_splits prod.splits)
qed

lemma checked_range: "checked_digits bound a s = Some x \<Longrightarrow> a < bound \<Longrightarrow> x < bound"
  by (induction s arbitrary: a) (auto split: option.splits if_splits)

lemma parse_u16_range: "parse_u16 s = Some p \<Longrightarrow> p < 65536"
  using checked_range[of 65536 0] by (auto simp: parse_u16_def split: list.splits if_splits)

section \<open>Splitting\<close>

lemma split_once_first: "c \<notin> set a \<Longrightarrow> split_once c (a @ c # b) = Some (a, b)"
  by (induction a) auto

lemma rsplit_once_last: "c \<notin> set b \<Longrightarrow> rsplit_once c (a @ c # b) = Some (a, b)"
  using split_once_first[of c "rev b" "rev a"] by (simp add: rsplit_once_def)

section \<open>Properties\<close>

text \<open>C40: the \<open>--rpc-bind\<close> parser reads back every printed address. Every IPv4 address with a port, and every IPv6 address in brackets with a port, in full or with one run of zero groups
  written as a double colon, parses to that address and port; whatever text is accepted, the address has the right number of octets or groups in range and the port fits 16 bits;
  and the RPC arguments of an accepted text bind HTTP to it, WebSocket and authentication to ephemeral ports, with IPC off.\<close>

theorem socket_spec_round_trip:
  assumes "port < 65536" "length os = 4" "\<forall>x \<in> set os. x < 256" "length gs = 8" "\<forall>g \<in> set (gs @ hs @ ts). g < 65536" "length hs + length ts \<le> 7"
  shows "parse_socket_spec (joined CHR ''.'' 10 os @ '':'' @ digits 10 port) = Inr (V4 os, port)
    \<and> parse_socket_spec (''['' @ joined CHR '':'' 16 gs @ '']:'' @ digits 10 port) = Inr (V6 gs, port)
    \<and> parse_socket_spec (''['' @ joined CHR '':'' 16 hs @ ''::'' @ joined CHR '':'' 16 ts @ '']:'' @ digits 10 port)
        = Inr (V6 (hs @ replicate (8 - length hs - length ts) 0 @ ts), port)
    \<and> (\<forall>spec ip p. parse_socket_spec spec = Inr (ip, p) \<longrightarrow> p < 65536
        \<and> (case ip of V4 os \<Rightarrow> length os = 4 \<and> (\<forall>x \<in> set os. x < 256) | V6 gs \<Rightarrow> length gs = 8 \<and> (\<forall>g \<in> set gs. g < 65536))
        \<and> (\<exists>args. rpc_args defaults (Some spec) = Inr args \<and> ra_http args \<and> ra_ws args \<and> ra_ipcdisable args
             \<and> (ra_http_addr args, ra_http_port args) = (ip, p) \<and> (ra_ws_addr args, ra_ws_port args) = (ip, 0)
             \<and> (ra_auth_addr args, ra_auth_port args) = (ip, 0)))"
proof (intro conjI allI impI)
  note port = parse_u16_printed[OF assms(1)]
  have colon: "CHR '':'' \<notin> set (digits 10 port)" by (rule digits_notin) simp_all
  obtain c cs where c: "joined CHR ''.'' 10 os @ '':'' @ digits 10 port = c # cs" by (cases "joined CHR ''.'' 10 os @ '':'' @ digits 10 port") auto
  have "CHR ''['' \<notin> set (joined CHR ''.'' 10 os)" by (rule joined_notin) simp_all
  then have "c \<noteq> CHR ''[''" using c by (cases "joined CHR ''.'' 10 os") auto
  then have "split_spec (joined CHR ''.'' 10 os @ '':'' @ digits 10 port) = Inr (joined CHR ''.'' 10 os, digits 10 port)"
    using rsplit_once_last[OF colon, of "joined CHR ''.'' 10 os"] by (simp add: split_spec_def c[simplified])
  then show "parse_socket_spec (joined CHR ''.'' 10 os @ '':'' @ digits 10 port) = Inr (V4 os, port)"
    by (simp add: parse_socket_spec_def parse_ipv4_printed[OF assms(2,3)] port)
  have br: "CHR '']'' \<notin> set (joined CHR '':'' 16 xs)" for xs by (rule joined_notin) simp_all
  have split: "split_spec (''['' @ t @ '']:'' @ digits 10 port) = Inr (t, digits 10 port)" if "CHR '']'' \<notin> set t" for t
    using split_once_first[OF that] by (simp add: split_spec_def)
  show "parse_socket_spec (''['' @ joined CHR '':'' 16 gs @ '']:'' @ digits 10 port) = Inr (V6 gs, port)"
    using split[OF br] parse_ipv6_printed[of gs] assms(4,5) by (simp add: parse_socket_spec_def port)
  show "parse_socket_spec (''['' @ joined CHR '':'' 16 hs @ ''::'' @ joined CHR '':'' 16 ts @ '']:'' @ digits 10 port)
      = Inr (V6 (hs @ replicate (8 - length hs - length ts) 0 @ ts), port)"
    using split[of "joined CHR '':'' 16 hs @ ''::'' @ joined CHR '':'' 16 ts"] br parse_ipv6_compressed[of hs ts] assms(5,6)
    by (simp add: parse_socket_spec_def port)
next
  fix spec ip p assume e: "parse_socket_spec spec = Inr (ip, p)"
  then obtain a where a: "parse_ip a = Some ip" by (auto simp: parse_socket_spec_def split: sum.splits option.splits)
  show "p < 65536" using e parse_u16_range by (auto simp: parse_socket_spec_def split: sum.splits option.splits)
  show "case ip of V4 os \<Rightarrow> length os = 4 \<and> (\<forall>x \<in> set os. x < 256) | V6 gs \<Rightarrow> length gs = 8 \<and> (\<forall>g \<in> set gs. g < 65536)" by (rule parse_ip_range[OF a])
  show "\<exists>args. rpc_args defaults (Some spec) = Inr args \<and> ra_http args \<and> ra_ws args \<and> ra_ipcdisable args
      \<and> (ra_http_addr args, ra_http_port args) = (ip, p) \<and> (ra_ws_addr args, ra_ws_port args) = (ip, 0) \<and> (ra_auth_addr args, ra_auth_port args) = (ip, 0)"
    using e by (simp add: rpc_args_def)
qed

theorem socket_spec_round_trip_witness:
  "parse_socket_spec ''127.0.0.1:8545'' = Inr (V4 [127, 0, 0, 1], 8545) \<and> parse_socket_spec ''[::1]:8545'' = Inr (V6 [0, 0, 0, 0, 0, 0, 0, 1], 8545)"
proof -
  have p: "(8545 :: nat) < 65536" "length [127, 0, 0, 1 :: nat] = 4" "\<forall>x \<in> set [127, 0, 0, 1 :: nat]. x < 256" "length (replicate 8 0 :: nat list) = 8"
    "\<forall>g \<in> set (replicate 8 0 @ [] @ [1 :: nat]). g < 65536" "length ([] :: nat list) + length [1 :: nat] \<le> 7" by simp_all
  have t: "joined CHR ''.'' 10 [127, 0, 0, 1] @ '':'' @ digits 10 8545 = ''127.0.0.1:8545''"
    "''['' @ joined CHR '':'' 16 [] @ ''::'' @ joined CHR '':'' 16 [1] @ '']:'' @ digits 10 8545 = ''[::1]:8545''"
    by (simp_all add: joined_def digits.simps hex_digit_def char_of_def bit_0)
  have z: "[] @ replicate (8 - length ([] :: nat list) - length [1 :: nat]) 0 @ [1 :: nat] = [0, 0, 0, 0, 0, 0, 0, 1]" by (simp add: eval_nat_numeral)
  show ?thesis using socket_spec_round_trip[OF p] unfolding t z by blast
qed

lemmas reader_unfold =
  read_octets.simps(2)[where left = "pred_numeral k" for k, folded numeral_eq_Suc] read_groups.simps(2)[where left = "pred_numeral k" for k, folded numeral_eq_Suc]

text \<open>The brackets are not required: the last colon separates the port, so an IPv6 address without them is accepted; and brackets around an IPv4 address
  or a sign before the port are accepted too.\<close>

theorem lenient_socket_specs:
  "parse_socket_spec ''::1:8545'' = Inr (V6 [0, 0, 0, 0, 0, 0, 0, 1], 8545)"
  "parse_socket_spec ''[127.0.0.1]:80'' = Inr (V4 [127, 0, 0, 1], 80)"
  "parse_socket_spec ''127.0.0.1:+80'' = Inr (V4 [127, 0, 0, 1], 80)"
  "parse_socket_spec ''::'' = Inl (InvalidIp '':'')" "parse_socket_spec ''127.0.0.01:80'' = Inl (InvalidIp ''127.0.0.01'')"
  by (simp_all add: parse_socket_spec_def split_spec_def rsplit_once_def parse_ip_def read_ipv4_addr_def read_ipv6_addr_def reader_unfold read_separator_def
      read_number_def parse_u16_def to_digit_def) (simp add: numeral_eq_Suc)

text \<open>The built-in chain spec allocates exactly the reader contract and the funded development account.\<close>

theorem dev_genesis_allocations:
  "map (\<lambda>(a, acct). (a, ga_balance acct, ga_code acct)) (dg_alloc dev_chain_spec)
     = [(MARGIN_HEALTH_READER, 0, Some MARGIN_HEALTH_READER_CODE), (ANVIL_ACCOUNT, 1000000000000000000000, None)]"
  by code_simp

end
