(* ===== verification/Startup.thy ===== *)
theory Startup
  imports Session Node_Setup Cli
begin

text \<open>
  The process around a run of \<open>reth-devnet\<close> (\<open>run_reth_devnet\<close> of \<open>bin/openhl/src/main.rs\<close>), from the command line and the files on disk to the files on disk: data directory, chain spec,
  RPC arguments, saved bridge state, validator key, validator set, consensus node, saved coordinator state, chain history and seed fixture, each with its errors and in the order of the code, then the
  run of \<open>Session\<close> and the two files it writes. The file system is a map from paths to contents. What packages do is in the record \<open>packages\<close>: JSON, Reth's launch, hashes and keys,
  network addresses, Malachite's engine; they are taken to behave in the same way in every run. A file that exists can be read, and directories can be created.
\<close>

section \<open>Fallible steps\<close>

definition bind_sum :: "'e + 'a \<Rightarrow> ('a \<Rightarrow> 'e + 'b) \<Rightarrow> 'e + 'b" where
  "bind_sum m f = (case m of Inl e \<Rightarrow> Inl e | Inr x \<Rightarrow> f x)"

definition ok_or :: "'e \<Rightarrow> 'a option \<Rightarrow> 'e + 'a" where
  "ok_or e m = (case m of None \<Rightarrow> Inl e | Some x \<Rightarrow> Inr x)"

named_theorems Inr_iff

lemma bind_sum_Inr [Inr_iff]: "bind_sum m f = Inr y \<longleftrightarrow> (\<exists>x. m = Inr x \<and> f x = Inr y)"
  by (cases m) (auto simp: bind_sum_def)

lemma ok_or_Inr [Inr_iff]: "ok_or e m = Inr x \<longleftrightarrow> m = Some x"
  by (cases m) (auto simp: ok_or_def)

lemma map_sum_Inr [Inr_iff]: "map_sum f id m = Inr x \<longleftrightarrow> m = Inr x"
  by (cases m) auto

lemma bind_sum_simps [simp]: "bind_sum (Inl e) f = Inl e" "bind_sum (Inr x) f = f x" "ok_or e None = Inl e" "ok_or e (Some x) = Inr x"
  by (simp_all add: bind_sum_def ok_or_def)

section \<open>Arguments, packages, files\<close>

type_synonym file_system = "string \<rightharpoonup> bytes"

record reth_devnet_args =
  ca_rounds :: nat
  ca_moniker :: string
  ca_data_dir :: "string option"
  ca_chain_spec :: "string option"
  ca_validators :: "string option"
  ca_listen_addr :: "string option"
  ca_rpc_bind :: "string option"
  ca_seed_fixture :: "string option"
  ca_chain_history :: "string option"

record ('spec) json_codecs =
  js_genesis :: "bytes \<Rightarrow> 'spec option"
  js_bridge :: "bytes \<Rightarrow> bridge_snapshot option"
  js_bridge_vec :: "bridge_snapshot \<Rightarrow> bytes option"
  js_coordinator :: "bytes \<Rightarrow> coordinator_snapshot option"
  js_coordinator_vec :: "coordinator_snapshot \<Rightarrow> bytes option"
  js_key :: "bytes \<Rightarrow> private_key_file option"
  js_key_vec :: "private_key_file \<Rightarrow> bytes"
  js_validators :: "bytes \<Rightarrow> validator_entry list option"
  js_history :: "bytes \<Rightarrow> history_block list option"
  js_fixture :: "bytes \<Rightarrow> seed_fixture option"

record ('vk, 'sig, 'k, 'sk, 'a, 'c, 'spec) packages =
  pk_json :: "'spec json_codecs"
  pk_chain_spec :: "dev_genesis \<Rightarrow> 'spec"
  pk_genesis_hash :: "'spec \<Rightarrow> block_hash"
  pk_rpc_defaults :: rpc_server_args
  pk_launch :: "'spec \<Rightarrow> rpc_server_args \<Rightarrow> string \<Rightarrow> chain_env option"
  pk_ec :: "('vk, 'sig) k256"
  pk_signing :: "'k signing"
  pk_unhex :: "string \<Rightarrow> bytes option"
  pk_ed25519 :: "bytes \<Rightarrow> pub_key option"
  pk_sha256 :: "bytes \<Rightarrow> bytes"
  pk_public :: "'sk \<Rightarrow> pub_key"
  pk_key_bytes :: "'sk \<Rightarrow> bytes"
  pk_key_of :: "bytes \<Rightarrow> 'sk"
  pk_parse_addr :: "string \<Rightarrow> 'a option"
  pk_default_listen :: 'a
  pk_default_peers :: "'a list"
  pk_start_engine :: "'a open_hl_config \<Rightarrow> height \<Rightarrow> validator_set \<Rightarrow> 'c option"
  pk_ready_wait :: "int \<Rightarrow> ready_wait"

text \<open>What differs from run to run: the environment variable, the random key, and what the engine sends until the run ends.\<close>

record 'sk occasion =
  os_home :: "string option"
  os_fresh_key :: 'sk
  os_msgs :: "app_msg list"
  os_ending :: run_end
  os_network_open :: bool

datatype process_error =
    NoDataDir
  | SpecUnreadable string | SpecMalformed string
  | BadRpcBind socket_error
  | LaunchFailed
  | BridgeMalformed
  | SetupFailed setup_error
  | StartFailed start_error | ChannelsTaken
  | CoordinatorMalformed
  | HistoryUnreadable string | HistoryMalformed string
  | FixtureUnreadable string | FixtureMalformed string
  | SessionFailed session_error
  | BridgeUnwritable | CoordinatorUnwritable

definition bridge_state_path :: "string \<Rightarrow> string" where
  "bridge_state_path dir = path_join (path_join dir ''bridge'') ''state.json''"

definition key_path :: "string \<Rightarrow> string" where
  "key_path dir = path_join dir ''validator-key.json''"

definition coordinator_state_path :: "string \<Rightarrow> string" where
  "coordinator_state_path dir = path_join (path_join dir ''coordinator'') ''state.json''"

section \<open>The steps\<close>

definition load_chain_spec :: "(bytes \<Rightarrow> 'spec option) \<Rightarrow> file_system \<Rightarrow> string \<Rightarrow> process_error + 'spec" where
  "load_chain_spec parse fs path = bind_sum (ok_or (SpecUnreadable path) (fs path)) (\<lambda>bs. ok_or (SpecMalformed path) (parse bs))"

definition load_history :: "(bytes \<Rightarrow> history_block list option) \<Rightarrow> file_system \<Rightarrow> string \<Rightarrow> process_error + history_block list" where
  "load_history parse fs path = bind_sum (ok_or (HistoryUnreadable path) (fs path)) (\<lambda>bs. ok_or (HistoryMalformed path) (parse bs))"

definition load_fixture :: "(bytes \<Rightarrow> seed_fixture option) \<Rightarrow> file_system \<Rightarrow> string \<Rightarrow> process_error + seed_fixture" where
  "load_fixture parse fs path = bind_sum (ok_or (FixtureUnreadable path) (fs path)) (\<lambda>bs. ok_or (FixtureMalformed path) (parse bs))"

text \<open>A saved state is read only if its file exists.\<close>

definition read_saved :: "(bytes \<Rightarrow> 'x option) \<Rightarrow> process_error \<Rightarrow> file_system \<Rightarrow> string \<Rightarrow> process_error + 'x option" where
  "read_saved parse malformed fs path =
     (case fs path of None \<Rightarrow> Inr None | Some bs \<Rightarrow> bind_sum (ok_or malformed (parse bs)) (\<lambda>x. Inr (Some x)))"

text \<open>Data directory, chain spec, RPC arguments, Reth and the saved bridge state.\<close>

definition open_chain ::
  "('vk, 'sig, 'k, 'sk, 'a, 'c, 'spec) packages \<Rightarrow> reth_devnet_args \<Rightarrow> string option \<Rightarrow> file_system
     \<Rightarrow> process_error + string \<times> 'spec \<times> chain_env \<times> bridge_snapshot option" where
  "open_chain pk args home fs =
     bind_sum (ok_or NoDataDir (resolve_data_dir home (ca_data_dir args))) (\<lambda>dir.
     bind_sum (case ca_chain_spec args of
         Some path \<Rightarrow> load_chain_spec (js_genesis (pk_json pk)) fs path
       | None \<Rightarrow> Inr (pk_chain_spec pk dev_chain_spec)) (\<lambda>spec.
     bind_sum (map_sum BadRpcBind id (rpc_args (pk_rpc_defaults pk) (ca_rpc_bind args))) (\<lambda>rpc.
     bind_sum (ok_or LaunchFailed (pk_launch pk spec rpc (path_join dir ''reth''))) (\<lambda>env.
     bind_sum (read_saved (js_bridge (pk_json pk)) BridgeMalformed fs (bridge_state_path dir)) (\<lambda>snap.
     Inr (dir, spec, env, snap))))))"

text \<open>The validator set and the started consensus node; its channels are taken at once.\<close>

definition join_consensus ::
  "('vk, 'sig, 'k, 'sk, 'a, 'c, 'spec) packages \<Rightarrow> reth_devnet_args \<Rightarrow> file_system \<Rightarrow> string \<Rightarrow> 'sk \<Rightarrow> process_error + validator_set \<times> 'c" where
  "join_consensus pk args fs dir key =
     bind_sum (map_sum SetupFailed id (validators_and_peers (js_validators (pk_json pk)) (pk_unhex pk) (pk_ed25519 pk) (pk_sha256 pk)
         (map_option fs (ca_validators args)) (pk_public pk key))) (\<lambda>(vs, peers).
     bind_sum (map_sum (StartFailed \<circ> fst) id (node_start (pk_parse_addr pk) (pk_default_listen pk) (pk_default_peers pk) (pk_start_engine pk) (pk_ready_wait pk)
         (devnet_consensus_node key vs peers (path_join dir ''consensus'') (ca_moniker args) (ca_listen_addr args)))) (\<lambda>handle.
     bind_sum (ok_or ChannelsTaken (snd (take_channels handle))) (\<lambda>channels.
     Inr (vs, channels))))"

text \<open>The rest of what \<open>boot\<close> reads. The publishers are built before the chain history is opened, and the fixture is opened only when it is replayed.\<close>

definition load_files ::
  "('vk, 'sig, 'k, 'sk, 'a, 'c, 'spec) packages \<Rightarrow> reth_devnet_args \<Rightarrow> file_system \<Rightarrow> string \<Rightarrow> bridge_snapshot option \<Rightarrow> process_error + boot_files" where
  "load_files pk args fs dir snap =
     bind_sum (read_saved (js_coordinator (pk_json pk)) CoordinatorMalformed fs (coordinator_state_path dir)) (\<lambda>coordinator.
     bind_sum (ok_or (SessionFailed (BootFailed Panicked)) (synthetic_publishers (pk_signing pk))) (\<lambda>pubs.
     bind_sum (case ca_chain_history args of
         Some path \<Rightarrow> map_sum id Some (load_history (js_history (pk_json pk)) fs path)
       | None \<Rightarrow> Inr None) (\<lambda>history.
     bind_sum (case ca_seed_fixture args of
         Some path \<Rightarrow> if history = None \<and> accounts_snapshot (fst (boot_bridge snap)) = []
                       then map_sum id Some (load_fixture (js_fixture (pk_json pk)) fs path) else Inr None
       | None \<Rightarrow> Inr None) (\<lambda>fixture.
     Inr \<lparr>bf_bridge = snap, bf_coordinator = coordinator, bf_history = history, bf_fixture = fixture\<rparr>))))"

record ('sk, 'c) started =
  sd_dir :: string
  sd_env :: chain_env
  sd_genesis :: block_hash
  sd_key :: 'sk
  sd_validators :: validator_set
  sd_channels :: 'c
  sd_files :: boot_files

text \<open>Only the key file is written before the run.\<close>

definition start_process ::
  "('vk, 'sig, 'k, 'sk, 'a, 'c, 'spec) packages \<Rightarrow> reth_devnet_args \<Rightarrow> 'sk occasion \<Rightarrow> file_system
     \<Rightarrow> (process_error + ('sk, 'c) started) \<times> file_system" where
  "start_process pk args os fs =
     (case open_chain pk args (os_home os) fs of
        Inl e \<Rightarrow> (Inl e, fs)
      | Inr (dir, spec, env, snap) \<Rightarrow>
          (case load_or_generate_key (js_key (pk_json pk)) (js_key_vec (pk_json pk)) (pk_key_bytes pk) (pk_key_of pk) (fs (key_path dir)) (os_fresh_key os) of
             Inl e \<Rightarrow> (Inl (SetupFailed e), fs)
           | Inr (key, contents) \<Rightarrow>
               let fs1 = fs(key_path dir \<mapsto> contents)
               in (bind_sum (join_consensus pk args fs1 dir key) (\<lambda>(vs, channels).
                   bind_sum (load_files pk args fs1 dir snap) (\<lambda>files.
                   Inr \<lparr>sd_dir = dir, sd_env = env, sd_genesis = pk_genesis_hash pk spec, sd_key = key, sd_validators = vs, sd_channels = channels,
                     sd_files = files\<rparr>)), fs1)))"

definition session_of ::
  "('vk, 'sig, 'k, 'sk, 'a, 'c, 'spec) packages \<Rightarrow> reth_devnet_args \<Rightarrow> 'sk occasion \<Rightarrow> ('sk, 'c) started \<Rightarrow> ('vk, 'sig, 'k) session_args" where
  "session_of pk args os s = \<lparr>se_env = sd_env s, se_ec = pk_ec pk, se_signing = pk_signing pk, se_genesis = sd_genesis s,
     se_validators = sd_validators s, se_rounds = ca_rounds args, se_network_open = os_network_open os\<rparr>"

text \<open>The bridge state is written before the coordinator state.\<close>

definition save_state :: "'spec json_codecs \<Rightarrow> string \<Rightarrow> boot_files \<Rightarrow> 'r \<Rightarrow> file_system \<Rightarrow> (process_error + 'r) \<times> file_system" where
  "save_state js dir files r fs =
     (case (bf_bridge files, bf_coordinator files) of
        (Some snap, Some coord) \<Rightarrow> (case js_bridge_vec js snap of
            None \<Rightarrow> (Inl BridgeUnwritable, fs)
          | Some bs \<Rightarrow>
              let fs1 = fs(bridge_state_path dir \<mapsto> bs)
              in case js_coordinator_vec js coord of
                   None \<Rightarrow> (Inl CoordinatorUnwritable, fs1)
                 | Some cs \<Rightarrow> (Inr r, fs1(coordinator_state_path dir \<mapsto> cs)))
      | _ \<Rightarrow> (Inr r, fs))"

definition reth_devnet_process ::
  "('vk, 'sig, 'k, 'sk, 'a, 'c, 'spec) packages \<Rightarrow> reth_devnet_args \<Rightarrow> 'sk occasion \<Rightarrow> file_system
     \<Rightarrow> (process_error + (app_error + block_hash list)) \<times> file_system" where
  "reth_devnet_process pk args os fs =
     (case start_process pk args os fs of
        (Inl e, fs1) \<Rightarrow> (Inl e, fs1)
      | (Inr s, fs1) \<Rightarrow> (case run_reth_devnet (session_of pk args os s) (sd_files s) (os_msgs os) (os_ending os) of
          (Inl e, _) \<Rightarrow> (Inl (SessionFailed e), fs1)
        | (Inr r, files) \<Rightarrow> save_state (pk_json pk) (sd_dir s) files r fs1))"

section \<open>The three files of a process\<close>

definition dir_prefix :: "string \<Rightarrow> string" where
  "dir_prefix dir = (if dir = [] \<or> last dir = CHR ''/'' then dir else dir @ ''/'')"

lemma paths:
  "key_path dir = dir_prefix dir @ ''validator-key.json''" "bridge_state_path dir = dir_prefix dir @ ''bridge/state.json''"
  "coordinator_state_path dir = dir_prefix dir @ ''coordinator/state.json''"
  by (simp_all add: key_path_def bridge_state_path_def coordinator_state_path_def path_join_def dir_prefix_def)

lemma paths_distinct [simp]:
  "key_path dir \<noteq> bridge_state_path dir" "key_path dir \<noteq> coordinator_state_path dir" "bridge_state_path dir \<noteq> coordinator_state_path dir"
  "bridge_state_path dir \<noteq> key_path dir" "coordinator_state_path dir \<noteq> key_path dir" "coordinator_state_path dir \<noteq> bridge_state_path dir"
  by (simp_all add: paths)

definition fresh_key_file :: "('vk, 'sig, 'k, 'sk, 'a, 'c, 'spec) packages \<Rightarrow> 'sk occasion \<Rightarrow> bytes" where
  "fresh_key_file pk os = js_key_vec (pk_json pk) (from_private_key (pk_key_bytes pk) (os_fresh_key os))"

lemma open_chain_dir: "open_chain pk args home fs = Inr (dir, spec, env, snap) \<Longrightarrow> resolve_data_dir home (ca_data_dir args) = Some dir"
  by (auto simp: open_chain_def Inr_iff)

text \<open>The key of a start, and what it leaves in the key file.\<close>

lemma key_cases:
  assumes "load_or_generate_key parse vec to_b of_b existing fresh = Inr (key, contents)"
  obtains (loaded) f where "existing = Some contents" "parse contents = Some f" "key = into_private_key of_b f"
  | (generated) "existing = None" "key = fresh" "contents = vec (from_private_key to_b fresh)"
  using assms by (auto simp: load_or_generate_key_def split: option.splits)

lemma start_process_files:
  assumes "start_process pk args os fs = (r, fs1)"
  shows "fs1 = fs \<or> (\<exists>dir. resolve_data_dir (os_home os) (ca_data_dir args) = Some dir \<and> fs (key_path dir) = None
    \<and> fs1 = fs(key_path dir \<mapsto> fresh_key_file pk os))"
proof (cases "open_chain pk args (os_home os) fs")
  case (Inr c)
  obtain dir spec env snap where c: "c = (dir, spec, env, snap)" by (cases c)
  note o = Inr[unfolded c]
  let ?key = "load_or_generate_key (js_key (pk_json pk)) (js_key_vec (pk_json pk)) (pk_key_bytes pk) (pk_key_of pk) (fs (key_path dir)) (os_fresh_key os)"
  show ?thesis
  proof (cases ?key)
    case (Inr kc)
    obtain key contents where kc: "kc = (key, contents)" by (cases kc)
    have fs1: "fs1 = fs(key_path dir \<mapsto> contents)" using assms o Inr kc by (auto simp: start_process_def Let_def)
    from Inr[unfolded kc] show ?thesis
      by (cases rule: key_cases) (use fs1 open_chain_dir[OF o] in \<open>auto simp: fresh_key_file_def fun_upd_idem\<close>)
  qed (use assms o in \<open>simp add: start_process_def\<close>)
qed (use assms in \<open>simp add: start_process_def\<close>)

lemma start_process_Inr:
  assumes "start_process pk args os fs = (Inr s, fs1)"
  obtains dir spec env snap key contents vs ch files where "open_chain pk args (os_home os) fs = Inr (dir, spec, env, snap)"
    "load_or_generate_key (js_key (pk_json pk)) (js_key_vec (pk_json pk)) (pk_key_bytes pk) (pk_key_of pk) (fs (key_path dir)) (os_fresh_key os) = Inr (key, contents)"
    "fs1 = fs(key_path dir \<mapsto> contents)" "join_consensus pk args fs1 dir key = Inr (vs, ch)" "load_files pk args fs1 dir snap = Inr files"
    "s = \<lparr>sd_dir = dir, sd_env = env, sd_genesis = pk_genesis_hash pk spec, sd_key = key, sd_validators = vs, sd_channels = ch, sd_files = files\<rparr>"
proof -
  obtain dir spec env snap where o: "open_chain pk args (os_home os) fs = Inr (dir, spec, env, snap)"
    using assms by (auto simp: start_process_def split: sum.splits)
  obtain key contents where k: "load_or_generate_key (js_key (pk_json pk)) (js_key_vec (pk_json pk)) (pk_key_bytes pk) (pk_key_of pk) (fs (key_path dir)) (os_fresh_key os)
      = Inr (key, contents)" using assms o by (auto simp: start_process_def split: sum.splits)
  have fs1: "fs1 = fs(key_path dir \<mapsto> contents)" using assms o k by (auto simp: start_process_def Let_def)
  obtain vs ch files where j: "join_consensus pk args fs1 dir key = Inr (vs, ch)" "load_files pk args fs1 dir snap = Inr files"
    "s = \<lparr>sd_dir = dir, sd_env = env, sd_genesis = pk_genesis_hash pk spec, sd_key = key, sd_validators = vs, sd_channels = ch, sd_files = files\<rparr>"
    using assms o k unfolding fs1 by (auto simp: start_process_def Let_def Inr_iff)
  show thesis by (rule that[OF o k fs1 j])
qed

lemma started_dir: "start_process pk args os fs = (Inr s, fs1) \<Longrightarrow> resolve_data_dir (os_home os) (ca_data_dir args) = Some (sd_dir s)"
  by (erule start_process_Inr) (simp add: open_chain_dir)

lemma save_state_writes:
  assumes "save_state js dir files r fs = (r', fs')" "fs' p \<noteq> fs p"
  shows "p = bridge_state_path dir \<and> r' \<in> {Inr r, Inl CoordinatorUnwritable} \<or> p = coordinator_state_path dir \<and> r' = Inr r"
  using assms by (auto simp: save_state_def Let_def split: option.splits if_splits)

text \<open>What a process may change: a missing key file, and the two state files if it started and its loop returned.\<close>

lemma process_writes:
  assumes "reth_devnet_process pk args os fs = (r, fs')" "fs' p \<noteq> fs p"
  shows "\<exists>dir. resolve_data_dir (os_home os) (ca_data_dir args) = Some dir
    \<and> (p = key_path dir \<and> fs p = None \<and> fs' p = Some (fresh_key_file pk os)
      \<or> p = bridge_state_path dir \<and> os_ending os = Returned \<and> (r = Inl CoordinatorUnwritable \<or> \<not> isl r)
      \<or> p = coordinator_state_path dir \<and> os_ending os = Returned \<and> \<not> isl r)"
proof -
  obtain q fs1 where s: "start_process pk args os fs = (q, fs1)" by fastforce
  have key: "fs1 p = fs p \<or> (\<exists>dir. resolve_data_dir (os_home os) (ca_data_dir args) = Some dir \<and> p = key_path dir \<and> fs p = None
      \<and> fs1 p = Some (fresh_key_file pk os))" using start_process_files[OF s] by auto
  show ?thesis
  proof (cases "fs' p = fs1 p")
    case True
    then show ?thesis using key assms(2) by auto
  next
    case False
    then obtain st where q: "q = Inr st" using assms(1) s by (cases q) (simp_all add: reth_devnet_process_def)
    obtain x files where run: "run_reth_devnet (session_of pk args os st) (sd_files st) (os_msgs os) (os_ending os) = (x, files)" by fastforce
    show ?thesis
    proof (cases x)
      case (Inr y)
      then have "save_state (pk_json pk) (sd_dir st) files y fs1 = (r, fs')" using assms(1) s run by (simp add: reth_devnet_process_def q)
      from save_state_writes[OF this, of p] False
      have "p = bridge_state_path (sd_dir st) \<and> (r = Inl CoordinatorUnwritable \<or> \<not> isl r) \<or> p = coordinator_state_path (sd_dir st) \<and> \<not> isl r" by auto
      moreover have "os_ending os = Returned"
        using run Inr by (cases "os_ending os") (auto simp: run_reth_devnet_def Let_def split: sum.splits prod.splits)
      ultimately show ?thesis using started_dir[OF s[unfolded q]] by blast
    qed (use False assms(1) s run q in \<open>simp add: reth_devnet_process_def\<close>)
  qed
qed

lemma save_state_Inr:
  assumes "save_state js dir files r fs = (Inr r', fs')" "bf_bridge files = Some snap" "bf_coordinator files = Some coord"
  obtains bs cs where "js_bridge_vec js snap = Some bs" "js_coordinator_vec js coord = Some cs" "r' = r"
    "fs' = fs(bridge_state_path dir \<mapsto> bs, coordinator_state_path dir \<mapsto> cs)"
  using assms by (cases "js_bridge_vec js snap"; cases "js_coordinator_vec js coord") (auto simp: save_state_def Let_def)

lemma process_run:
  assumes "start_process pk args os fs = (Inr s, fs1)" "reth_devnet_process pk args os fs = (Inr r, fs')"
  obtains r' files where "run_reth_devnet (session_of pk args os s) (sd_files s) (os_msgs os) (os_ending os) = (Inr r', files)"
    "save_state (pk_json pk) (sd_dir s) files r' fs1 = (Inr r, fs')"
  using assms by (auto simp: reth_devnet_process_def split: sum.splits prod.splits)

lemma run_saves:
  assumes "run_reth_devnet a files0 msgs ending = (Inr r, files)"
  obtains snap coord where "bf_bridge files = Some snap" "bf_coordinator files = Some coord"
  using assms by (auto simp: run_reth_devnet_def Let_def split: sum.splits prod.splits run_end.splits)

section \<open>Starting again\<close>

text \<open>JSON reads back what the process wrote, and so does the key type.\<close>

definition saves_read_back :: "('vk, 'sig, 'k, 'sk, 'a, 'c, 'spec) packages \<Rightarrow> bool" where
  "saves_read_back pk \<longleftrightarrow> (\<forall>snap bs. js_bridge_vec (pk_json pk) snap = Some bs \<longrightarrow> js_bridge (pk_json pk) bs = Some snap)
     \<and> (\<forall>snap bs. js_coordinator_vec (pk_json pk) snap = Some bs \<longrightarrow> js_coordinator (pk_json pk) bs = Some snap)
     \<and> (\<forall>f. js_key (pk_json pk) (js_key_vec (pk_json pk) f) = Some f) \<and> (\<forall>k. pk_key_of pk (pk_key_bytes pk k) = k)"

text \<open>The chain spec and the validator file are not files that the process writes.\<close>

definition inputs_apart :: "reth_devnet_args \<Rightarrow> string \<Rightarrow> bool" where
  "inputs_apart args dir \<longleftrightarrow> (\<forall>p \<in> set (opt_list (ca_chain_spec args) @ opt_list (ca_validators args)).
     p \<notin> {key_path dir, bridge_state_path dir, coordinator_state_path dir})"

lemma open_chain_again:
  assumes "open_chain pk args home fs = Inr (dir, spec, env, snap)" "\<forall>p. ca_chain_spec args = Some p \<longrightarrow> fs' p = fs p"
    and "fs' (bridge_state_path dir) = Some bs" "js_bridge (pk_json pk) bs = Some snap'"
  shows "open_chain pk args home fs' = Inr (dir, spec, env, Some snap')"
proof -
  have "(case ca_chain_spec args of Some path \<Rightarrow> load_chain_spec (js_genesis (pk_json pk)) fs' path | None \<Rightarrow> Inr (pk_chain_spec pk dev_chain_spec))
      = (case ca_chain_spec args of Some path \<Rightarrow> load_chain_spec (js_genesis (pk_json pk)) fs path | None \<Rightarrow> Inr (pk_chain_spec pk dev_chain_spec))"
    using assms(2) by (auto simp: load_chain_spec_def split: option.splits)
  moreover have "read_saved (js_bridge (pk_json pk)) BridgeMalformed fs' (bridge_state_path dir) = Inr (Some snap')"
    by (simp add: read_saved_def assms(3,4))
  ultimately show ?thesis using assms(1) unfolding open_chain_def by (auto simp: Inr_iff)
qed

lemma key_again:
  assumes "saves_read_back pk"
    and "load_or_generate_key (js_key (pk_json pk)) (js_key_vec (pk_json pk)) (pk_key_bytes pk) (pk_key_of pk) existing fresh = Inr (key, contents)"
  shows "load_or_generate_key (js_key (pk_json pk)) (js_key_vec (pk_json pk)) (pk_key_bytes pk) (pk_key_of pk) (Some contents) fresh' = Inr (key, contents)"
  using assms(2,1)
  by (cases rule: key_cases) (simp_all add: load_or_generate_key_def saves_read_back_def into_private_key_def from_private_key_def)

lemma join_consensus_cong:
  "\<forall>p. ca_validators args = Some p \<longrightarrow> fs' p = fs p \<Longrightarrow> join_consensus pk args fs' dir key = join_consensus pk args fs dir key"
  by (cases "ca_validators args") (simp_all add: join_consensus_def)

lemma join_consensus_validators:
  assumes "join_consensus pk args fs dir key = Inr (vs, channels)"
  shows "vs \<noteq> []"
proof -
  obtain peers where v: "validators_and_peers (js_validators (pk_json pk)) (pk_unhex pk) (pk_ed25519 pk) (pk_sha256 pk)
      (map_option fs (ca_validators args)) (pk_public pk key) = Inr (vs, peers)"
    using assms by (auto simp: join_consensus_def Inr_iff)
  show ?thesis
  proof (cases "ca_validators args")
    case (Some p)
    then obtain l where l: "load_validator_set (js_validators (pk_json pk)) (pk_unhex pk) (pk_ed25519 pk) (pk_sha256 pk) (fs p) (pk_public pk key) = Inr l"
      and vs: "vs = lvs_set l"
      using v by (cases "load_validator_set (js_validators (pk_json pk)) (pk_unhex pk) (pk_ed25519 pk) (pk_sha256 pk) (fs p) (pk_public pk key)")
        (auto simp: validators_and_peers_def)
    obtain bs es where es: "fs p = Some bs" "js_validators (pk_json pk) bs = Some es"
      using l by (auto simp: load_validator_set_def split: option.splits)
    note iff = load_validator_set_iff[where from_slice = "js_validators (pk_json pk)" and bs = bs, OF es(2)]
    have own: "own_positions (pk_unhex pk) (pk_ed25519 pk) (pk_public pk key) 0 es = [lvs_self_index l]"
      and l': "l = \<lparr>lvs_set = validator_set_new (map (entry_validator (pk_unhex pk) (pk_ed25519 pk) (pk_sha256 pk)) es),
        lvs_peer_multiaddrs = map ve_peer_multiaddr es, lvs_self_index = lvs_self_index l\<rparr>"
      using l[unfolded es(1) iff] by blast+
    have set: "lvs_set l = validator_set_new (map (entry_validator (pk_unhex pk) (pk_ed25519 pk) (pk_sha256 pk)) es)"
      by (subst l') simp
    have "es \<noteq> []" using own by auto
    then have "length (lvs_set l) \<noteq> 0" unfolding set validator_set_new_def by simp
    then show ?thesis using vs by simp
  qed (use v in \<open>auto simp: validators_and_peers_def validator_set_new_def\<close>)
qed

lemma load_files_again:
  assumes "ca_chain_history args = None" "fs (coordinator_state_path dir) = Some cs" "js_coordinator (pk_json pk) cs = Some coord"
    and "synthetic_publishers (pk_signing pk) = Some pubs" "accounts_snapshot (fst (boot_bridge (Some snap))) \<noteq> []"
  shows "load_files pk args fs dir (Some snap) = Inr \<lparr>bf_bridge = Some snap, bf_coordinator = Some coord, bf_history = None, bf_fixture = None\<rparr>"
  using assms by (simp add: load_files_def read_saved_def split: option.splits)

lemma load_files_facts:
  assumes "load_files pk args fs dir snap = Inr files"
  shows "\<exists>pubs. synthetic_publishers (pk_signing pk) = Some pubs" "ca_chain_history args = None \<Longrightarrow> bf_history files = None"
  using assms by (auto simp: load_files_def Inr_iff)

lemma saved_accounts:
  assumes "accounts_ok (lb_accounts B)" "lb_accounts B \<noteq> []"
  shows "accounts_snapshot (fst (boot_bridge (Some (lv_snapshot B)))) \<noteq> []"
proof -
  have "accounts_snapshot (restored B) = accounts_snapshot B" by (rule restored_facts(2)[OF assms(1)])
  moreover have "accounts_snapshot B \<noteq> []" using assms(2) accounts_snapshot_set[of B] by (metis image_is_empty list.set(1) set_empty)
  ultimately show ?thesis by (simp add: boot_bridge_def restored_def accounts_snapshot_def)
qed

text \<open>The second start of a process, on files that differ from those of the first in what the run saved.\<close>

lemma start_again:
  assumes "start_process pk args os fs = (Inr s, fs1)" "saves_read_back pk" "inputs_apart args (sd_dir s)" "ca_chain_history args = None"
    and "os_home os' = os_home os" "js_bridge_vec (pk_json pk) (lv_snapshot B) = Some bs" "js_coordinator_vec (pk_json pk) coord = Some cs"
    and "accounts_ok (lb_accounts B)" "lb_accounts B \<noteq> []"
    and fs': "fs' = fs1(bridge_state_path (sd_dir s) \<mapsto> bs, coordinator_state_path (sd_dir s) \<mapsto> cs)"
  shows "start_process pk args os' fs' = (Inr (s\<lparr>sd_files := \<lparr>bf_bridge = Some (lv_snapshot B), bf_coordinator = Some coord, bf_history = None, bf_fixture = None\<rparr>\<rparr>), fs')"
proof -
  obtain dir spec env snap key contents vs ch files where o: "open_chain pk args (os_home os) fs = Inr (dir, spec, env, snap)"
    and k: "load_or_generate_key (js_key (pk_json pk)) (js_key_vec (pk_json pk)) (pk_key_bytes pk) (pk_key_of pk) (fs (key_path dir)) (os_fresh_key os) = Inr (key, contents)"
    and fs1: "fs1 = fs(key_path dir \<mapsto> contents)" and j: "join_consensus pk args fs1 dir key = Inr (vs, ch)" "load_files pk args fs1 dir snap = Inr files"
    and s: "s = \<lparr>sd_dir = dir, sd_env = env, sd_genesis = pk_genesis_hash pk spec, sd_key = key, sd_validators = vs, sd_channels = ch, sd_files = files\<rparr>"
    by (rule start_process_Inr[OF assms(1)])
  have dir: "sd_dir s = dir" by (simp add: s)
  note fs'' = fs'[unfolded dir fs1]
  obtain pubs where pubs: "synthetic_publishers (pk_signing pk) = Some pubs" using load_files_facts(1)[OF j(2)] by blast
  have rb: "js_bridge (pk_json pk) bs = Some (lv_snapshot B)" "js_coordinator (pk_json pk) cs = Some coord"
    using assms(2,6,7) by (auto simp: saves_read_back_def)
  have spec_same: "\<forall>p. ca_chain_spec args = Some p \<longrightarrow> fs' p = fs p"
    using assms(3) by (auto simp: inputs_apart_def dir fs'')
  have val_same: "\<forall>p. ca_validators args = Some p \<longrightarrow> fs' p = fs1 p"
    using assms(3) by (auto simp: inputs_apart_def dir fs'' fs1)
  have o': "open_chain pk args (os_home os') fs' = Inr (dir, spec, env, Some (lv_snapshot B))"
    unfolding assms(5) by (rule open_chain_again[OF o spec_same _ rb(1)]) (simp add: fs'')
  have key': "fs' (key_path dir) = Some contents" by (simp add: fs'')
  have j': "join_consensus pk args fs' dir key = Inr (vs, ch)" using j(1) by (simp only: join_consensus_cong[OF val_same])
  have "load_files pk args fs' dir (Some (lv_snapshot B)) = Inr \<lparr>bf_bridge = Some (lv_snapshot B), bf_coordinator = Some coord, bf_history = None, bf_fixture = None\<rparr>"
    by (rule load_files_again[OF assms(4) _ rb(2) pubs saved_accounts[OF assms(8,9)]]) (simp add: fs'')
  moreover have "fs'(key_path dir \<mapsto> contents) = fs'" using key' by (simp add: fun_upd_idem)
  ultimately show ?thesis
    using o' key' j' key_again[OF assms(2) k] by (simp add: start_process_def s)
qed

section \<open>A concrete process\<close>

text \<open>Its encodings know the state of \<open>demo_files\<close> and the state that is saved.\<close>

definition demo_codecs :: "boot_files \<Rightarrow> unit json_codecs" where
  "demo_codecs saved = \<lparr>js_genesis = (\<lambda>_. Some ()),
     js_bridge = (\<lambda>bs. if bs = [0] then bf_bridge demo_files else if bs = [1] then bf_bridge saved else None),
     js_bridge_vec = (\<lambda>s. if bf_bridge saved = Some s then Some [1] else None),
     js_coordinator = (\<lambda>bs. if bs = [0] then bf_coordinator demo_files else if bs = [1] then bf_coordinator saved else None),
     js_coordinator_vec = (\<lambda>s. if bf_coordinator saved = Some s then Some [1] else None),
     js_key = (\<lambda>bs. Some \<lparr>pkf_bytes = bs\<rparr>), js_key_vec = pkf_bytes, js_validators = (\<lambda>_. None), js_history = (\<lambda>_. None), js_fixture = (\<lambda>_. None)\<rparr>"

definition demo_rpc :: rpc_server_args where
  "demo_rpc = \<lparr>ra_http = False, ra_http_addr = V4 [127, 0, 0, 1], ra_http_port = 8545, ra_ws = False, ra_ws_addr = V4 [127, 0, 0, 1], ra_ws_port = 8546,
     ra_auth_addr = V4 [127, 0, 0, 1], ra_auth_port = 8551, ra_ipcdisable = False\<rparr>"

definition demo_packages :: "boot_files \<Rightarrow> (publisher_key, bytes, bytes, bytes, string, unit, unit) packages" where
  "demo_packages saved = \<lparr>pk_json = demo_codecs saved, pk_chain_spec = (\<lambda>_. ()), pk_genesis_hash = (\<lambda>_. [0]), pk_rpc_defaults = demo_rpc,
     pk_launch = (\<lambda>_ _ _. Some total_env), pk_ec = self_signed_scheme, pk_signing = demo_signing, pk_unhex = (\<lambda>_. None), pk_ed25519 = Some,
     pk_sha256 = (\<lambda>_. replicate 32 0), pk_public = id, pk_key_bytes = id, pk_key_of = id, pk_parse_addr = Some, pk_default_listen = [], pk_default_peers = [],
     pk_start_engine = (\<lambda>_ _ _. Some ()), pk_ready_wait = (\<lambda>_. Fired)\<rparr>"

definition demo_args :: reth_devnet_args where
  "demo_args = \<lparr>ca_rounds = 1, ca_moniker = ''m'', ca_data_dir = Some ''d'', ca_chain_spec = None, ca_validators = None, ca_listen_addr = None, ca_rpc_bind = None,
     ca_seed_fixture = None, ca_chain_history = None\<rparr>"

definition demo_occasion :: "app_msg list \<Rightarrow> bytes occasion" where
  "demo_occasion msgs = \<lparr>os_home = None, os_fresh_key = [5], os_msgs = msgs, os_ending = Returned, os_network_open = True\<rparr>"

definition demo_disk :: file_system where
  "demo_disk = [bridge_state_path ''d'' \<mapsto> [0], coordinator_state_path ''d'' \<mapsto> [0]]"

definition demo_started :: "(bytes, unit) started" where
  "demo_started = \<lparr>sd_dir = ''d'', sd_env = total_env, sd_genesis = [0], sd_key = [5],
     sd_validators = validator_set_new [\<lparr>val_address = replicate 20 0, val_public_key = [5], val_voting_power = 1\<rparr>], sd_channels = (), sd_files = demo_files\<rparr>"

lemmas demo_defs = demo_codecs_def demo_packages_def demo_args_def demo_occasion_def fresh_key_file_def from_private_key_def resolve_data_dir_def

lemma demo_pk: "pk_json (demo_packages saved) = demo_codecs saved" "pk_key_bytes (demo_packages saved) = id" "pk_key_of (demo_packages saved) = id"
  "pk_genesis_hash (demo_packages saved) = (\<lambda>_. [0])"
  by (simp_all add: demo_packages_def)

lemma demo_saves_read_back: "saves_read_back (demo_packages saved)"
  by (auto simp: saves_read_back_def demo_defs)

lemma demo_key:
  "fs (key_path dir) = None \<Longrightarrow> load_or_generate_key (js_key (demo_codecs saved)) (js_key_vec (demo_codecs saved)) id id (fs (key_path dir)) [5] = Inr ([5], [5])"
  by (simp add: load_or_generate_key_def demo_defs)

lemma demo_open_chain:
  "open_chain (demo_packages saved) (demo_args\<lparr>ca_validators := v\<rparr>) None fs =
     bind_sum (read_saved (js_bridge (demo_codecs saved)) BridgeMalformed fs (bridge_state_path ''d'')) (\<lambda>snap. Inr (''d'', (), total_env, snap))"
  by (simp add: open_chain_def demo_packages_def demo_args_def resolve_data_dir_def rpc_args_def Let_def)

lemma demo_join:
  "join_consensus (demo_packages saved) demo_args fs ''d'' [5] = Inr (sd_validators demo_started, ())"
  by (simp add: join_consensus_def demo_packages_def demo_args_def demo_started_def validators_and_peers_def node_start_def load_config_def new_config_def
      devnet_consensus_node_def new_consensus_node_def take_channels_def Let_def)

lemma demo_load_files:
  "fs (coordinator_state_path ''d'') = Some [0] \<Longrightarrow> load_files (demo_packages saved) demo_args fs ''d'' (bf_bridge demo_files) = Inr demo_files"
  by (simp add: load_files_def read_saved_def demo_packages_def demo_codecs_def demo_args_def demo_files_def
      synthetic_publishers_def SYNTHETIC_FEEDS_def from_seed_def demo_signing_def)

lemma demo_start:
  "start_process (demo_packages saved) demo_args (demo_occasion msgs) demo_disk = (Inr demo_started, demo_disk(key_path ''d'' \<mapsto> [5]))"
proof -
  have "open_chain (demo_packages saved) demo_args None demo_disk = Inr (''d'', (), total_env, bf_bridge demo_files)"
    using demo_open_chain[of saved None demo_disk] by (simp add: demo_args_def read_saved_def demo_disk_def demo_codecs_def demo_files_def)
  moreover have "demo_disk (key_path ''d'') = None" by (simp add: demo_disk_def)
  moreover have "(demo_disk(key_path ''d'' \<mapsto> [5])) (coordinator_state_path ''d'') = Some [0]" by (simp add: demo_disk_def)
  then have "load_files (demo_packages saved) demo_args (demo_disk(key_path ''d'' \<mapsto> [5])) ''d'' (bf_bridge demo_files) = Inr demo_files"
    by (rule demo_load_files)
  ultimately show ?thesis
    using demo_key[of demo_disk "''d''" saved]
    by (simp add: start_process_def demo_join demo_occasion_def demo_pk Let_def) (simp add: demo_started_def)
qed

lemma demo_unlisted:
  "start_process (demo_packages saved) (demo_args\<lparr>ca_validators := Some ''v''\<rparr>) (demo_occasion msgs) Map.empty
     = (Inl (SetupFailed SetUnreadable), [key_path ''d'' \<mapsto> [5]])"
proof -
  have "open_chain (demo_packages saved) (demo_args\<lparr>ca_validators := Some ''v''\<rparr>) None Map.empty = Inr (''d'', (), total_env, None)"
    unfolding demo_open_chain by (simp add: read_saved_def)
  moreover have "join_consensus (demo_packages saved) (demo_args\<lparr>ca_validators := Some ''v''\<rparr>) [key_path ''d'' \<mapsto> [5]] ''d'' [5] = Inl (SetupFailed SetUnreadable)"
    by (simp add: join_consensus_def validators_and_peers_def load_validator_set_def paths dir_prefix_def)
  ultimately show ?thesis
    using demo_key[of Map.empty "''d''" saved] by (simp add: start_process_def demo_occasion_def demo_pk Let_def)
qed

lemma demo_session_of: "session_of (demo_packages saved) demo_args (demo_occasion msgs) demo_started = demo_session (sd_validators demo_started)"
  by (simp add: session_of_def demo_packages_def demo_args_def demo_occasion_def demo_session_def demo_started_def)

lemma demo_process:
  assumes "run_reth_devnet (demo_session (sd_validators demo_started)) demo_files msgs Returned = (Inr r, saved)"
  shows "reth_devnet_process (demo_packages saved) demo_args (demo_occasion msgs) demo_disk
    = (Inr r, demo_disk(key_path ''d'' \<mapsto> [5], bridge_state_path ''d'' \<mapsto> [1], coordinator_state_path ''d'' \<mapsto> [1]))"
proof -
  obtain snap coord where f: "bf_bridge saved = Some snap" "bf_coordinator saved = Some coord" by (rule run_saves[OF assms])
  have "os_msgs (demo_occasion msgs) = msgs" "os_ending (demo_occasion msgs) = Returned" "sd_files demo_started = demo_files" "sd_dir demo_started = ''d''"
    by (simp_all add: demo_occasion_def demo_started_def)
  then show ?thesis
    by (simp add: reth_devnet_process_def demo_start demo_session_of assms) (simp add: save_state_def f demo_packages_def demo_codecs_def)
qed

section \<open>Properties\<close>



end
