(* ===== verification/Binary.thy ===== *)
theory Binary
  imports Startup Runner
begin

text \<open>
  The entry point of the binary (\<open>main\<close> of \<open>bin/openhl/src/main.rs\<close>): the subcommands and their dispatch to the in-memory devnet of \<open>Runner\<close> and the process of \<open>Startup\<close>, and the text of
  \<open>print_info\<close> and \<open>print_tick_report\<close> with Rust's formatting of integers, options and derived \<open>Debug\<close>. The package version is an argument. What the other print statements show is not modelled.
\<close>

section \<open>Formatting\<close>

definition decimal :: "int \<Rightarrow> string" where
  "decimal x = (if x < 0 then CHR ''-'' # digits 10 (nat (- x)) else digits 10 (nat x))"

definition debug_option :: "int option \<Rightarrow> string" where
  "debug_option x = (case x of None \<Rightarrow> ''None'' | Some n \<Rightarrow> ''Some('' @ decimal n @ '')'')"

fun debug_aggregation_error :: "aggregation_error \<Rightarrow> string" where
  "debug_aggregation_error (TooFewFreshFeeds fresh required) = ''TooFewFreshFeeds { fresh: '' @ decimal fresh @ '', required: '' @ decimal required @ '' }''"
| "debug_aggregation_error (TooFewAfterDeviationFilter remaining required) =
     ''TooFewAfterDeviationFilter { remaining: '' @ decimal remaining @ '', required: '' @ decimal required @ '' }''"

section \<open>The line of a tick\<close>

definition oracle_text :: "(aggregation_error + aggregated_price) option \<Rightarrow> string" where
  "oracle_text r = (case r of
       Some (Inr p) \<Rightarrow> ''oracle=Ok(idx='' @ decimal (agg_index p) @ '', feeds='' @ decimal (feeds_used p) @ '') ''
     | Some (Inl e) \<Rightarrow> ''oracle=Err('' @ debug_aggregation_error e @ '') ''
     | None \<Rightarrow> ''oracle=skip '')"

definition scan_text :: "scan_report \<Rightarrow> string" where
  "scan_text l = ''scan(records='' @ decimal (int (length (sr_records l))) @ '', dep='' @ decimal (fund_deposits l) @ '', wd='' @ decimal (fund_withdrawals l)
     @ '', deficit='' @ decimal (unfilled_deficit l) @ '') ''"

definition adl_text :: "adl_report option \<Rightarrow> string" where
  "adl_text r = (case r of
       Some a \<Rightarrow> ''adl(records='' @ decimal (int (length (adl_records a))) @ '', absorbed='' @ decimal (deficit_absorbed a)
         @ '', remaining='' @ decimal (deficit_remaining a) @ '') ''
     | None \<Rightarrow> ''adl=skip '')"

definition funding_text :: "funding_tick option \<Rightarrow> string" where
  "funding_text r = (case r of
       Some f \<Rightarrow> ''funding(premium='' @ decimal (tick_premium f) @ '', rate='' @ decimal (tick_rate f)
         @ '', settlements='' @ decimal (int (length (settlements f))) @ '') ''
     | None \<Rightarrow> ''funding=skip '')"

definition print_tick_report :: "tick_report \<Rightarrow> string" where
  "print_tick_report report =
     ''  tick(height='' @ decimal (tr_block_height report) @ '', time='' @ decimal (tr_block_time report) @ ''): ''
     @ oracle_text (tr_oracle report) @ scan_text (tr_liquidation report) @ adl_text (tr_adl report) @ funding_text (tr_funding report)
     @ ''vault(shares='' @ decimal (tr_vault_total_shares report) @ '', assets='' @ decimal (tr_vault_total_assets report)
     @ '', price_bps='' @ debug_option (tr_vault_share_price_bps report) @ '')'' @ [CHR 0x0A]"

section \<open>The lines of \<open>info\<close>\<close>

definition debug_bool :: "bool \<Rightarrow> string" where
  "debug_bool b = (if b then ''true'' else ''false'')"

definition print_info :: "string \<Rightarrow> string list" where
  "print_info version =
     (let config = node_hyperliquid_default; node = new_node config
      in [''openhl v'' @ version @ '' (Hyperliquid-shape L1 reference)'',
          ''config:'',
          ''  oracle refresh interval : '' @ decimal (oracle_refresh_interval_secs config) @ ''s'',
          ''  oracle staleness window : '' @ decimal (staleness_window_secs (cfg_oracle_params config)) @ ''s'',
          ''  oracle min feeds        : '' @ decimal (min_feeds_required (cfg_oracle_params config)),
          ''  initial margin          : '' @ decimal (initial_margin_bps (cfg_liquidation_params config)) @ '' bps'',
          ''  maintenance margin      : '' @ decimal (maintenance_margin_bps (cfg_liquidation_params config)) @ '' bps'',
          ''  liquidation fee         : '' @ decimal (liquidation_fee_bps (cfg_liquidation_params config)) @ '' bps'',
          ''  vault min deposit       : '' @ decimal (min_deposit (cfg_vault_params config)),
          ''  auto-ADL on deficit     : '' @ debug_bool (run_adl_on_unfilled_deficit config),
          ''state:'',
          ''  oracle feeds            : '' @ decimal (int (feed_count (n_oracle node))),
          ''  insurance fund balance  : '' @ decimal (fund_balance (n_scanner node)),
          ''  vault shares            : '' @ decimal (total_shares (n_vault node)),
          ''  vault assets            : '' @ decimal (total_assets (n_vault node))])"

section \<open>Commands\<close>

datatype command = Info | Devnet nat | RethDevnet reth_devnet_args

text \<open>The parser refuses the chain history together with the seed fixture.\<close>

fun cli_accepts :: "command \<Rightarrow> bool" where
  "cli_accepts (RethDevnet a) \<longleftrightarrow> ca_chain_history a = None \<or> ca_seed_fixture a = None"
| "cli_accepts _ \<longleftrightarrow> True"

text \<open>What the in-memory devnet takes from packages: driver, signatures, hash, keys and the clock.\<close>

record ('d, 'k) devnet_packages =
  dp_driver :: "'d driver"
  dp_signatures :: sig_bytes
  dp_sha256 :: "bytes \<Rightarrow> bytes"
  dp_ed25519 :: "'k ed25519"
  dp_key :: "nat \<Rightarrow> 'k"
  dp_now :: "nat \<Rightarrow> int"

text \<open>How the process ends; \<open>DevnetEnded None\<close> is a devnet that does not return.\<close>

datatype outcome =
    UsageError
  | InfoPrinted "string list"
  | DevnetEnded "(run_error + block_hash list) option"
  | RethDevnetEnded "process_error + (app_error + block_hash list)"

definition openhl_main ::
  "string \<Rightarrow> ('d, 'dk) devnet_packages \<Rightarrow> ('vk, 'sig, 'k, 'sk, 'a, 'c, 'spec) packages \<Rightarrow> command option \<Rightarrow> 'sk occasion \<Rightarrow> file_system \<Rightarrow> outcome \<times> file_system" where
  "openhl_main version dp pk cli os fs =
     (let command = (case cli of Some c \<Rightarrow> c | None \<Rightarrow> Info)
      in if \<not> cli_accepts command then (UsageError, fs)
         else case command of
           Info \<Rightarrow> (InfoPrinted (print_info version), fs)
         | Devnet rounds \<Rightarrow>
             (DevnetEnded (map_option (\<lambda>(_, _, r). r)
                (run_devnet (dp_driver dp) (dp_signatures dp) (dp_sha256 dp) (dp_ed25519 dp) (dp_key dp) (dp_now dp) rounds)), fs)
         | RethDevnet args \<Rightarrow> map_prod RethDevnetEnded id (reth_devnet_process pk args os fs))"

section \<open>Reading the line back\<close>

abbreviation is_digit :: "char \<Rightarrow> bool" where
  "is_digit c \<equiv> to_digit 10 c \<noteq> None"

lemma digits_digit: "c \<in> set (digits 10 n) \<Longrightarrow> is_digit c"
  using digits_are[of 10 c n] to_digit_hex[of _ 10] by auto

lemma digits_inj: "digits 10 m = digits 10 n \<Longrightarrow> m = n"
proof -
  assume e: "digits 10 m = digits 10 n"
  have v: "foldl (\<lambda>a c. a * 10 + the (to_digit 10 c)) 0 (digits 10 k) = k" for k by (rule digits_fold) simp_all
  show "m = n" by (rule trans[OF v[of m, symmetric, unfolded e] v])
qed

lemma digits_split:
  assumes "digits 10 m @ r = digits 10 n @ r'" "stops 10 r" "stops 10 r'"
  shows "m = n \<and> r = r'"
proof -
  have span: "takeWhile is_digit (digits 10 k @ q) = digits 10 k \<and> dropWhile is_digit (digits 10 k @ q) = q" if "stops 10 q" for k q
    using that digits_digit[of _ k] by (cases q) (auto simp: stops_def takeWhile_append2 dropWhile_append2)
  note mn = span[OF assms(2), of m, unfolded assms(1)] and n = span[OF assms(3), of n]
  have "digits 10 m = digits 10 n" by (rule trans[OF conjunct1[OF mn, symmetric] conjunct1[OF n]])
  moreover have "r = r'" by (rule trans[OF conjunct2[OF mn, symmetric] conjunct2[OF n]])
  ultimately show ?thesis using digits_inj by blast
qed

lemma decimal_split:
  assumes "stops 10 r" "stops 10 r'"
  shows "decimal x @ r = decimal y @ r' \<longleftrightarrow> x = y \<and> r = r'"
proof -
  have sign: "digits 10 n @ q \<noteq> CHR ''-'' # q'" for n q q'
  proof
    assume e: "digits 10 n @ q = CHR ''-'' # q'"
    then have "CHR ''-'' \<in> set (digits 10 n)" using digits_nonempty[of 10 n] by (cases "digits 10 n") auto
    then have "is_digit (CHR ''-'')" by (rule digits_digit)
    then show False by (simp add: to_digit_def)
  qed
  have nat: "digits 10 m @ r = digits 10 n @ r' \<longleftrightarrow> m = n \<and> r = r'" for m n
    by (rule iffI, erule digits_split[OF _ assms], elim conjE) simp
  consider "x < 0" "y < 0" | "x < 0" "0 \<le> y" | "0 \<le> x" "y < 0" | "0 \<le> x" "0 \<le> y" by linarith
  then show ?thesis
    by cases (simp_all add: decimal_def nat sign sign[symmetric], auto)
qed

lemma stops_Cons [simp]: "stops 10 (c # r) \<longleftrightarrow> to_digit 10 c = None"
  by (simp add: stops_def)

text \<open>What the line shows.\<close>

definition tick_summary :: "tick_report \<Rightarrow>
  int \<times> int \<times> (aggregation_error + int \<times> int) option \<times> (nat \<times> int \<times> int \<times> int) \<times> (nat \<times> int \<times> int) option \<times> (int \<times> int \<times> nat) option \<times> int \<times> int \<times> int option" where
  "tick_summary r =
     (tr_block_height r, tr_block_time r, map_option (map_sum id (\<lambda>p. (agg_index p, feeds_used p))) (tr_oracle r),
      (length (sr_records (tr_liquidation r)), fund_deposits (tr_liquidation r), fund_withdrawals (tr_liquidation r), unfilled_deficit (tr_liquidation r)),
      map_option (\<lambda>a. (length (adl_records a), deficit_absorbed a, deficit_remaining a)) (tr_adl r),
      map_option (\<lambda>f. (tick_premium f, tick_rate f, length (settlements f))) (tr_funding r),
      tr_vault_total_shares r, tr_vault_total_assets r, tr_vault_share_price_bps r)"

lemma not_digits [simp]: "to_digit 10 (CHR '','') = None" "to_digit 10 (CHR '')'') = None" "to_digit 10 (CHR '' '') = None"
  by (simp_all add: to_digit_def)

lemma error_text_split: "debug_aggregation_error e @ CHR '')'' # r = debug_aggregation_error e' @ CHR '')'' # r' \<longleftrightarrow> e = e' \<and> r = r'"
  by (cases e; cases e') (auto simp: decimal_split)

lemma oracle_text_split:
  "oracle_text x @ r = oracle_text y @ r' \<longleftrightarrow>
     map_option (map_sum id (\<lambda>p. (agg_index p, feeds_used p))) x = map_option (map_sum id (\<lambda>p. (agg_index p, feeds_used p))) y \<and> r = r'"
  by (auto simp: oracle_text_def decimal_split error_text_split split: option.split sum.split)

lemma scan_text_split:
  "scan_text x @ r = scan_text y @ r' \<longleftrightarrow> length (sr_records x) = length (sr_records y) \<and> fund_deposits x = fund_deposits y
     \<and> fund_withdrawals x = fund_withdrawals y \<and> unfilled_deficit x = unfilled_deficit y \<and> r = r'"
  by (auto simp: scan_text_def decimal_split)

lemma adl_text_split:
  "adl_text x @ r = adl_text y @ r' \<longleftrightarrow>
     map_option (\<lambda>a. (length (adl_records a), deficit_absorbed a, deficit_remaining a)) x
       = map_option (\<lambda>a. (length (adl_records a), deficit_absorbed a, deficit_remaining a)) y \<and> r = r'"
  by (auto simp: adl_text_def decimal_split split: option.split)

lemma funding_text_split:
  "funding_text x @ r = funding_text y @ r' \<longleftrightarrow>
     map_option (\<lambda>f. (tick_premium f, tick_rate f, length (settlements f))) x
       = map_option (\<lambda>f. (tick_premium f, tick_rate f, length (settlements f))) y \<and> r = r'"
  by (auto simp: funding_text_def decimal_split split: option.split)

lemma option_text_split: "debug_option x @ CHR '')'' # r = debug_option y @ CHR '')'' # r' \<longleftrightarrow> x = y \<and> r = r'"
  by (auto simp: debug_option_def decimal_split split: option.split)

lemma option_text_inj: "debug_option x = debug_option y \<longleftrightarrow> x = y"
  using option_text_split[of x "[]" y "[]"] by auto

section \<open>Properties\<close>



definition demo_devnet_packages :: "(nat \<times> height \<times> address \<times> proposal, bytes) devnet_packages" where
  "demo_devnet_packages = \<lparr>dp_driver = demo_driver, dp_signatures = [], dp_sha256 = id, dp_ed25519 = demo_ed, dp_key = (\<lambda>_. [1]), dp_now = (\<lambda>_. 7)\<rparr>"


end
