(* ===== verification/Spec2Isabelle.thy ===== *)
theory Spec2Isabelle
  imports Clob Funding Clearing Vault Margin Insurance Scanner Adl Oracle Coordinator Ledger Precompiles Bridge Live_Bridge Consensus Codec
    Engine_App Scenario Devnet Network Session Runner Node_Setup Rpc Evm_Factory Reader Cli Startup Binary
begin

text \<open>
  A verification library for openhl, a perpetual-futures exchange whose order book, margin engine and accounts run inside the validators of an EVM chain.

  \<^bold>\<open>The program.\<close> Validators agree on blocks with Malachite BFT (\<open>crates/consensus\<close>). The application loop asks an execution bridge for a payload, streams
  it to the other validators and commits what is decided (\<open>crates/evm\<close>). The bridge also owns the trading state: an order book (\<open>crates/clob\<close>) and the
  accounts that its fills change (\<open>crates/clearing\<close>). Contracts reach the same state through precompiles. After every commit a hook of the binary
  (\<open>bin/openhl\<close>) feeds signed prices to the oracle (\<open>crates/oracle\<close>) and ticks the coordinator (\<open>crates/node\<close>), which refreshes the index price, scans the
  accounts for liquidations and auto-deleveraging (\<open>crates/liquidation\<close>), marks the vault (\<open>crates/vault\<close>) and settles funding (\<open>crates/funding\<close>); the hook then
  writes the report back into the accounts of the bridge.

  \<^bold>\<open>Prelude.\<close>
  \<^item> \<open>Rust_Int\<close>: the integers of Rust over \<^typ>\<open>int\<close>. \<open>sat\<close> is saturation, \<open>wrap\<close> the wrap-around of plain operators in the release profile,
    \<open>sdiv\<close> the truncating division; the locale \<open>bounded_int\<close> has the laws of saturation once for all widths.
  \<^item> \<open>Containers\<close>: byte encodings, and \<open>BTreeMap\<close> and \<open>HashMap\<close> as two interpretations of the interface \<open>dict\<close>.

  \<^bold>\<open>Trading components.\<close>
  \<^item> \<open>Clob\<close> (\<open>crates/clob/src\<close>): \<open>submit\<close>, \<open>match_loop\<close>, \<open>match_at_level\<close>, \<open>cancel\<close>. The book invariant is kept and no operation panics on it; the level-by-level
    engine refines strict price-time priority on the flattened book; quantities are conserved; fills stay within the limit. One locale, \<open>half_book\<close>, carries both sides.
  \<^item> \<open>Clearing\<close> (\<open>crates/clearing/src/lib.rs\<close>): \<open>apply_fill\<close> changes mark-to-market equity by exactly the value of the fill, up to the rounding of the average.
  \<^item> \<open>Funding\<close> (\<open>crates/funding/src\<close>): the capped rate, zero-sum settlements, one settlement per interval.
  \<^item> \<open>Vault\<close> (\<open>crates/vault/src\<close>): no sequence of operations dilutes a share (\<open>vault_step\<close>); which deposits and withdrawals succeed; round trips.
  \<^item> \<open>Margin\<close>, \<open>Insurance\<close>, \<open>Scanner\<close>, \<open>Adl\<close> (\<open>crates/liquidation/src\<close>): margin classes as inequalities, the fund as an interpretation of the interface
    \<open>shortfall_pool\<close>, exactly the unhealthy accounts are closed and the fund's ledger balances, the deficit is absorbed by rank and independently of the input order.
  \<^item> \<open>Oracle\<close> (\<open>crates/oracle/src\<close>): a majority of feeds in a narrow band determines the index; only accepted observations, verified on the signed path, are stored.
  \<^item> \<open>Coordinator\<close> (\<open>crates/node/src/lib.rs\<close>): \<open>tick\<close>, and the invariant of every state reachable by \<open>node_step\<close>; snapshots.

  \<^bold>\<open>Execution bridge.\<close>
  \<^item> \<open>Ledger\<close> (\<open>crates/evm/src/live_node.rs\<close>, accounts and orders): positions sum to zero in every reachable state (\<open>ledger_reach\<close>), fills conserve value, a withdrawal is
    granted exactly within free collateral.
  \<^item> \<open>Bridge\<close> (\<open>crates/types\<close>, \<open>crates/consensus/src/bridge.rs\<close>, \<open>in_memory.rs\<close>, \<open>engine.rs\<close>): the trait \<open>ConsensusBridge\<close> as the locale \<open>consensus_bridge\<close> with the reference
    loop \<open>produce\<close>, interpreted on the two small implementations.
  \<^item> \<open>Live_Bridge\<close> (\<open>live_node.rs\<close>, payloads, commits, wire blocks, snapshots): the third interpretation, with and without a payload
    builder; proposer and follower agree, committed headers are authentic.
  \<^item> \<open>Precompiles\<close> (\<open>crates/evm/src/precompiles\<close>): the entry points are the bridge's operations through the ABI, and the revert guard rolls back reverted call frames.
  \<^item> \<open>Evm_Factory\<close> (\<open>crates/evm/src/openhl_evm.rs\<close>, \<open>openhl_precompiles\<close>): every EVM that the factory hands out, whatever was created before it, has the five precompiles over its
    base set and runs the guard.
  \<^item> \<open>Reader\<close> (\<open>bin/openhl/src/reader_contracts.rs\<close>): the bytecode of the reader contract returns the margin class of the bridge.

  \<^bold>\<open>Consensus.\<close>
  \<^item> \<open>Consensus\<close> (\<open>types\<close>, \<open>context.rs\<close>, \<open>signing.rs\<close>, \<open>signing_provider.rs\<close>): fair proposer rotation, and signatures that bind one message.
  \<^item> \<open>Codec\<close> (\<open>codec.rs\<close>): round trips of all message types, each conversion an interpretation of the locale \<open>shim\<close>.
  \<^item> \<open>Engine_App\<close> (\<open>engine_app.rs\<close>): the message loop over any bridge of the locale \<open>replicated_bridge\<close>, which extends \<open>consensus_bridge\<close> by replication and is interpreted on
    the live bridge. It commits exactly the decided blocks, in order and once each, and a streamed proposal can be committed by all.
  \<^item> \<open>Runner\<close> (\<open>runner.rs\<close>, \<open>run_devnet\<close> of \<open>main.rs\<close>): the synchronous runners over an abstract driver; the in-memory devnet terminates with the reference chain.
  \<^item> \<open>Node_Setup\<close> (\<open>node.rs\<close>, key and validator files of \<open>main.rs\<close>): which files are accepted, whom the node dials, what a failed start leaves behind.

  \<^bold>\<open>Devnet binary.\<close>
  \<^item> \<open>Scenario\<close> (\<open>seed_fixture.rs\<close>, \<open>chain_history.rs\<close>, the built-in seed of \<open>main.rs\<close>), \<open>Devnet\<close> (commit hook, boot, shutdown of \<open>main.rs\<close>): the
    hook keeps all invariants and settles each account as stated, a restart resumes the state.
  \<^item> \<open>Network\<close>: any number of such nodes, any proposers and any order of the streamed parts. The handlers of \<open>Engine_App\<close> are lifted to rounds of the network (\<open>network_round\<close>,
    \<open>run_rounds\<close>); every round is decided and all nodes stay in the state that the decided blocks determine.
  \<^item> \<open>Session\<close> (\<open>run_reth_devnet\<close> of \<open>main.rs\<close>): a run from the loaded files to the files it saves, what a successful run saves and what boots from it. It interprets \<open>replicated_bridge\<close>
    a second time, with the invariant that the head is on the chain.
  \<^item> \<open>Cli\<close> (\<open>parse_socket_spec\<close>, RPC arguments, data directory, \<open>dev_chain_spec\<close> of \<open>main.rs\<close>): the address parser, with the parsers of Rust's \<open>core::net\<close> and \<open>core::num\<close> written out,
    reads back every printed address.
  \<^item> \<open>Startup\<close> (\<open>run_reth_devnet\<close> again, \<open>load_chain_spec\<close>, \<open>load_from_path\<close>): the process around a run, from the command line and the files on disk to the files on disk. The file system is a
    map from paths to contents; \<open>start_process\<close> has every error in the order of the code. Processes continue one another, under one key and on one chain.
  \<^item> \<open>Binary\<close> (\<open>main\<close>, \<open>print_info\<close>, \<open>print_tick_report\<close>): the subcommands; which files may change, and that the line of a tick determines its report.
  \<^item> \<open>Rpc\<close> (\<open>rpc.rs\<close>): what clients of the read methods and subscriptions see.

  \<^bold>\<open>Errors, panics, loops.\<close> An error of the source is \<open>Inl\<close> of an error datatype, a panic is \<open>None\<close>; theorems say when neither happens. All loops of the source are structural
  recursion over their data, or have a termination proof, except the driver loop of \<open>Runner\<close>, which need not end for an arbitrary driver: it is a partial function into
  \<open>option\<close> and its return is proved. No fuel is used; the sixteen steps of \<open>run_reader\<close> are the length of the contract. Locks are held for whole operations, so
  operations are atomic and interleavings are sequences of operations (\<open>ledger_reach\<close>, \<open>live_reach\<close>, \<open>node_step\<close>, message lists of \<open>run_engine_app\<close>).

  \<^bold>\<open>Parameters.\<close> Code of packages is an argument: secp256k1 (\<open>k256\<close>, \<open>signing\<close>), Ed25519 (\<open>ed25519\<close>), SHA-256, JSON, peer ids and network addresses, alloy's header
  hash and Reth's provider, payload builder and engine (the fields of \<open>chain_env\<close>), Malachite's driver (\<open>driver\<close>) and engine, REVM (\<open>implements_opcodes\<close>); \<open>packages\<close> collects
  those of a process. Hypotheses on them are
  documented behaviour: decoding inverts encoding, verification accepts exactly what was signed, the driver runs one round of Tendermint for a sole validator. Each such
  theorem has a witness with concrete functions.

  \<^bold>\<open>Not modelled.\<close> System calls and the executor builder of \<open>openhl_evm.rs\<close> pass their arguments on to Reth, \<open>reth_node.rs\<close> is tests; clap's command-line parsing and the launch of Reth
  and Malachite are calls into packages; unreadable existing files, file permissions, tracing and the progress messages of \<open>main.rs\<close> are left out; a network round of \<open>Network\<close> is a decided one, and the messages that lead to the decision are
  Malachite's; other \<open>Display\<close> and \<open>Debug\<close> texts and error messages carry no logic; the codec crate is empty; tests are not modelled.
\<close>

end
